(* ===== verification/Prelude.thy ===== *)
theory Prelude
  imports Main "HOL-Library.Word" "HOL-Library.Char_ord"
begin

text \<open>
  Shared vocabulary of the development: the machine integers of the program
  as words, \<open>std::string\<close> as character lists with the search and slicing
  operations the sources use, byte lists for packet and message buffers with
  big-endian field access, and the generic lemmas on them.
\<close>

unbundle bit_operations_syntax

section \<open>Machine integers\<close>

type_synonym u8 = "8 word"
type_synonym u16 = "16 word"
type_synonym u32 = "32 word"
type_synonym u64 = "64 word"
type_synonym byte = "8 word"
type_synonym bytes = "8 word list"

named_theorems inversions \<open>what a computation that returned a value has done\<close>

section \<open>Searching and slicing of \<open>std::string\<close>\<close>

text \<open>
  A position is a number, \<open>std::string::npos\<close> is the value None. The functions are
  polymorphic so that they serve character strings and byte buffers.
\<close>

fun find_idx :: "('a \<Rightarrow> bool) \<Rightarrow> 'a list \<Rightarrow> nat option" where
  "find_idx P [] = None"
| "find_idx P (x # xs) = (if P x then Some 0 else map_option Suc (find_idx P xs))"

definition find_char :: "'a \<Rightarrow> 'a list \<Rightarrow> nat \<Rightarrow> nat option" where
  "find_char c s pos = map_option ((+) pos) (find_idx ((=) c) (drop pos s))"

fun starts_with :: "'a list \<Rightarrow> 'a list \<Rightarrow> bool" where
  "starts_with [] s = True"
| "starts_with (p # ps) [] = False"
| "starts_with (p # ps) (c # s) = (p = c \<and> starts_with ps s)"

fun find_sub :: "'a list \<Rightarrow> 'a list \<Rightarrow> nat option" where
  "find_sub p [] = (if p = [] then Some 0 else None)"
| "find_sub p (c # s) = (if starts_with p (c # s) then Some 0 else map_option Suc (find_sub p s))"

definition find_str :: "'a list \<Rightarrow> 'a list \<Rightarrow> nat \<Rightarrow> nat option" where
  "find_str p s pos = (if pos \<le> length s then map_option ((+) pos) (find_sub p (drop pos s)) else None)"

definition erase :: "nat \<Rightarrow> nat \<Rightarrow> 'a list \<Rightarrow> 'a list" where
  "erase pos n s = take pos s @ drop (pos + n) s"

definition resize :: "'a \<Rightarrow> nat \<Rightarrow> 'a list \<Rightarrow> 'a list" where
  "resize c n s = take n s @ replicate (n - length s) c"

lemma find_idx_None: "find_idx P xs = None \<longleftrightarrow> (\<forall>x\<in>set xs. \<not> P x)"
  by (induction xs) auto

lemma find_idx_Some:
  "find_idx P xs = Some i \<longleftrightarrow> i < length xs \<and> P (xs ! i) \<and> (\<forall>j<i. \<not> P (xs ! j))"
proof (induction xs arbitrary: i)
  case Nil
  then show ?case by simp
next
  case (Cons x xs)
  show ?case
    by (cases i) (auto simp: Cons.IH less_Suc_eq_0_disj)
qed

lemma find_idx_append:
  "\<forall>x\<in>set xs. \<not> P x \<Longrightarrow> find_idx P (xs @ ys) = map_option ((+) (length xs)) (find_idx P ys)"
  by (induction xs) (auto simp: option.map_comp comp_def option.map_ident_strong
    intro: option.map_cong)

lemma find_char_bound: "find_char c s pos = Some i \<Longrightarrow> pos \<le> i \<and> i < length s \<and> s ! i = c"
  by (auto simp: find_char_def find_idx_Some)

lemma starts_with_append: "starts_with p s \<longleftrightarrow> (\<exists>t. s = p @ t)"
  by (induction p s rule: starts_with.induct) auto

lemma starts_with_self [simp]: "starts_with p (p @ t)"
  by (auto simp: starts_with_append)

lemma find_sub_bound: "find_sub p s = Some i \<Longrightarrow> i + length p \<le> length s \<and> starts_with p (drop i s)"
proof (induction p s arbitrary: i rule: find_sub.induct)
  case (1 p)
  then show ?case by (auto split: if_splits)
next
  case (2 p c s)
  then show ?case
    by (fastforce simp: starts_with_append split: if_splits dest: arg_cong [where f = length])
qed

lemma find_str_bound:
  "find_str p s pos = Some i \<Longrightarrow> pos \<le> i \<and> i + length p \<le> length s \<and> starts_with p (drop i s)"
  by (auto simp: find_str_def add.commute split: if_splits dest: find_sub_bound)

lemma length_erase [simp]: "pos + n \<le> length s \<Longrightarrow> length (erase pos n s) = length s - n"
  by (simp add: erase_def)

lemma length_resize [simp]: "length (resize c n s) = n"
  by (simp add: resize_def)

section \<open>Byte buffers\<close>

text \<open>
  Network byte order: the most significant byte comes first. A write outside the buffer
  would be undefined behaviour in the sources; the operations that can leave the buffer
  check the range where they are modelled.
\<close>

definition get16 :: "bytes \<Rightarrow> nat \<Rightarrow> u16" where
  "get16 b i = push_bit 8 (ucast (b ! i)) OR ucast (b ! (i + 1))"

definition put16 :: "nat \<Rightarrow> u16 \<Rightarrow> bytes \<Rightarrow> bytes" where
  "put16 i v b = b[i := ucast (drop_bit 8 v), i + 1 := ucast v]"

definition get32 :: "bytes \<Rightarrow> nat \<Rightarrow> u32" where
  "get32 b i = push_bit 24 (ucast (b ! i)) OR push_bit 16 (ucast (b ! (i + 1)))
             OR push_bit 8 (ucast (b ! (i + 2))) OR ucast (b ! (i + 3))"

definition put32 :: "nat \<Rightarrow> u32 \<Rightarrow> bytes \<Rightarrow> bytes" where
  "put32 i v b = b[i := ucast (drop_bit 24 v), i + 1 := ucast (drop_bit 16 v),
                   i + 2 := ucast (drop_bit 8 v), i + 3 := ucast v]"

lemma get16_put16: "i + 1 < length b \<Longrightarrow> get16 (put16 i v b) i = v"
  by (rule bit_word_eqI)
    (auto simp: get16_def put16_def bit_simps)

lemma get32_put32:
  assumes "i + 3 < length b"
  shows "get32 (put32 i v b) i = v"
proof (rule bit_word_eqI)
  fix n :: nat
  assume "n < LENGTH(32)"
  then consider "n < 8" | "8 \<le> n" "n < 16" | "16 \<le> n" "n < 24" | "24 \<le> n" "n < 32"
    by fastforce
  then show "bit (get32 (put32 i v b) i) n \<longleftrightarrow> bit v n"
    using assms by cases (auto simp: get32_def put32_def bit_simps)
qed

section \<open>Fields of a buffer\<close>

text \<open>
  What a client of a buffer relies on when it reads and writes a fixed-width field: a write keeps
  the length and every byte outside the field, and a read depends on the bytes of the field only.
\<close>

locale wire_field =
  fixes get :: "bytes \<Rightarrow> nat \<Rightarrow> 'v"
    and put :: "nat \<Rightarrow> 'v \<Rightarrow> bytes \<Rightarrow> bytes"
    and width :: nat
  assumes length_put: "length (put i v b) = length b"
    and get_put: "i + width \<le> length b \<Longrightarrow> get (put i v b) i = v"
    and nth_put: "j < i \<or> i + width \<le> j \<Longrightarrow> put i v b ! j = b ! j"
    and get_local: "(\<And>k. k < width \<Longrightarrow> b ! (i + k) = b' ! (i + k)) \<Longrightarrow> get b i = get b' i"
begin

lemma take_put: "n \<le> i \<Longrightarrow> take n (put i v b) = take n b"
  by (rule nth_equalityI) (auto simp: length_put nth_put)

lemma drop_put: "i + width \<le> n \<Longrightarrow> drop n (put i v b) = drop n b"
  by (rule nth_equalityI) (auto simp: length_put nth_put)

lemma get_update: "j < i \<or> i + width \<le> j \<Longrightarrow> get (b[j := x]) i = get b i"
  by (rule get_local) auto

end

text \<open>Two kinds of field in one buffer: a write of the one leaves the reads of the other alone.\<close>

locale wire_field_pair = rd: wire_field get put w + wr: wire_field get' put' w'
  for get :: "bytes \<Rightarrow> nat \<Rightarrow> 'v" and put and w and get' :: "bytes \<Rightarrow> nat \<Rightarrow> 'u" and put' and w'
begin

lemma get_put_disjoint: "j + w' \<le> i \<or> i + w \<le> j \<Longrightarrow> get (put' j v b) i = get b i"
  by (rule rd.get_local) (auto intro!: wr.nth_put)

end

lemma put16_frame: "length (put16 i v b) = length b" "j < i \<or> i + 2 \<le> j \<Longrightarrow> put16 i v b ! j = b ! j"
  by (auto simp: put16_def)

lemma put32_frame: "length (put32 i v b) = length b" "j < i \<or> i + 4 \<le> j \<Longrightarrow> put32 i v b ! j = b ! j"
  by (auto simp: put32_def)

interpretation f16: wire_field get16 put16 2
proof unfold_locales
  fix b b' :: bytes and i :: nat
  assume "\<And>k. k < 2 \<Longrightarrow> b ! (i + k) = b' ! (i + k)"
  from this [of 0] this [of 1] show "get16 b i = get16 b' i" by (simp add: get16_def)
qed (auto simp: put16_frame get16_put16)

interpretation f32: wire_field get32 put32 4
proof unfold_locales
  fix b b' :: bytes and i :: nat
  assume "\<And>k. k < 4 \<Longrightarrow> b ! (i + k) = b' ! (i + k)"
  from this [of 0] this [of 1] this [of 2] this [of 3] show "get32 b i = get32 b' i"
    by (simp add: get32_def)
qed (auto simp: put32_frame get32_put32)

interpretation f16_16: wire_field_pair get16 put16 2 get16 put16 2 ..
interpretation f16_32: wire_field_pair get16 put16 2 get32 put32 4 ..
interpretation f32_16: wire_field_pair get32 put32 4 get16 put16 2 ..
interpretation f32_32: wire_field_pair get32 put32 4 get32 put32 4 ..

lemmas buffer_simps = f16.length_put f32.length_put f16.take_put f32.take_put f16.drop_put f32.drop_put
  f16.nth_put f32.nth_put f16.get_update f32.get_update f16.get_put f32.get_put
  f16_16.get_put_disjoint f16_32.get_put_disjoint f32_16.get_put_disjoint f32_32.get_put_disjoint

declare buffer_simps [simp]

lemma byte_eqI:
  assumes "bit x 0 = bit y 0" "bit x 1 = bit y 1" "bit x 2 = bit y 2" "bit x 3 = bit y 3"
    "bit x 4 = bit y 4" "bit x 5 = bit y 5" "bit x 6 = bit y 6" "bit x 7 = bit y 7"
  shows "x = (y :: byte)"
proof (rule bit_word_eqI)
  fix n assume "n < LENGTH(8)"
  then have "n = 0 \<or> n = 1 \<or> n = 2 \<or> n = 3 \<or> n = 4 \<or> n = 5 \<or> n = 6 \<or> n = 7" by fastforce
  then show "bit x n = bit y n" using assms by auto
qed

lemma byte_high: "8 \<le> n \<Longrightarrow> \<not> bit (x::byte) n"
  by (auto dest: bit_imp_le_length)


section \<open>Words as numbers\<close>

lemma unat_byte: "unat (b::byte) < 256"
  using unsigned_less [of b] by simp

lemma unat_u16: "unat (b::u16) < 65536"
  using unsigned_less [of b] by simp

lemma unat_u32: "unat (b::u32) < 4294967296"
  using unsigned_less [of b] by simp

lemma unat_drop32: "unat (drop_bit n (w::u32)) = unat w div 2 ^ n"
  by (simp only: unsigned_drop_bit_eq) (simp add: drop_bit_eq_div take_bit_nat_eq_self unat_u32)

lemma unat_ucast_byte32: "unat (ucast (b::byte) :: u32) = unat b"
proof -
  have "unat (ucast b :: u32) = take_bit 32 (unat b)" by (simp only: unsigned_ucast_eq) simp
  then show ?thesis using unat_byte [of b] by (simp add: take_bit_nat_eq_self)
qed

lemma unat_hi: "unat (push_bit 8 (ucast (a::byte)) :: u32) = 256 * unat a"
proof -
  have "unat (push_bit 8 (ucast a) :: u32) = take_bit 32 (push_bit 8 (unat a))"
    by (simp only: unsigned_push_bit_eq unat_ucast_byte32) simp
  then show ?thesis using unat_byte [of a]
    by (simp add: take_bit_nat_eq_self push_bit_eq_mult)
qed

lemma unat_or16: "unat (push_bit 8 (ucast (a::byte)) OR ucast (b::byte) :: u16) = 256 * unat a + unat b"
proof -
  have "push_bit 8 (ucast a) OR ucast b = (push_bit 8 (ucast a) + ucast b :: u16)"
    by (rule disjunctive_add [symmetric]) (auto simp: bit_simps byte_high)
  moreover have "unat (ucast a :: u16) = unat a" "unat (ucast b :: u16) = unat b"
    using unat_byte [of a] unat_byte [of b]
    by (simp_all only: unsigned_ucast_eq) (simp_all add: take_bit_nat_eq_self)
  moreover from this have "unat (push_bit 8 (ucast a) :: u16) = 256 * unat a"
    using unat_byte [of a]
    by (simp only: unsigned_push_bit_eq) (simp add: take_bit_nat_eq_self push_bit_eq_mult)
  ultimately show ?thesis using unat_byte [of a] unat_byte [of b]
    by (simp add: unat_word_ariths)
qed
lemma unat_not16: "unat (NOT (x::u16)) = 65535 - unat x"
proof -
  have "NOT x = - 1 - x" by (simp add: not_eq_complement)
  then have "unat (NOT x) = unat (- 1 :: u16) - unat x"
    by (simp only: unat_sub [OF word_n1_ge])
  moreover have "unat (- 1 :: u16) = 65535"
    by (simp add: unsigned_minus_1_eq_mask mask_eq_exp_minus_1)
  ultimately show ?thesis by simp
qed

lemma unat_get16: "unat (get16 b i) = 256 * unat (b ! i) + unat (b ! (i + 1))"
  by (simp add: get16_def unat_or16)

lemma unat_split16: "unat (v :: u16) = 256 * unat (ucast (drop_bit 8 v) :: byte) + unat (ucast v :: byte)"
proof -
  have "unat (ucast (drop_bit 8 v) :: byte) = take_bit 8 (take_bit 16 (unat v) div 256)"
    by (simp only: unsigned_ucast_eq unsigned_drop_bit_eq) (simp add: drop_bit_eq_div)
  moreover have "unat (ucast v :: byte) = take_bit 8 (unat v)"
    by (simp only: unsigned_ucast_eq) simp
  ultimately show ?thesis using unat_u16 [of v]
    by (simp add: take_bit_eq_mod less_mult_imp_div_less)
qed

lemma take_put16: "i + 1 < n \<Longrightarrow> take n (put16 i v b) = put16 i v (take n b)"
  by (simp add: put16_def take_update_swap)

lemma put16_put16 [simp]: "put16 i v (put16 i w b) = put16 i v b"
  by (simp add: put16_def list_update_swap)

end
