(* ===== verification/Base64.thy ===== *)
theory Base64
  imports Prelude
begin

text \<open>
  The URL-safe base64 codec of \<open>include/base64.h\<close>, used to carry a DNS query in the
  query string of a DoH request. The accumulator \<open>val\<close> is a 32-bit \<open>int\<close> that keeps
  every byte ever read shifted to the left; only its low bits are read.
\<close>

definition b64_alphabet :: string where
  "b64_alphabet = ''ABCDEFGHIJKLMNOPQRSTUVWXYZabcdefghijklmnopqrstuvwxyz0123456789-_''"

function enc_drain :: "u32 \<Rightarrow> int \<Rightarrow> string \<Rightarrow> int \<times> string" where
  "enc_drain val valb out =
     (if valb \<ge> 0
      then enc_drain val (valb - 6)
             (out @ [b64_alphabet ! unat (signed_drop_bit (nat valb) val AND 0x3F)])
      else (valb, out))"
  by pat_completeness auto
termination
  by (relation "measure (\<lambda>(val, valb, out). nat (valb + 1))") auto

declare enc_drain.simps [simp del]

fun enc_loop :: "bytes \<Rightarrow> u32 \<Rightarrow> int \<Rightarrow> string \<Rightarrow> u32 \<times> int \<times> string" where
  "enc_loop [] val valb out = (val, valb, out)"
| "enc_loop (c # cs) val valb out =
     (let val' = push_bit 8 val + ucast c;
          (valb', out') = enc_drain val' (valb + 8) out
      in enc_loop cs val' valb' out')"

definition base64_encode :: "bytes \<Rightarrow> string" where
  "base64_encode input =
     (let (val, valb, out) = enc_loop input 0 (- 6) []
      in if valb > - 6
         then out @ [b64_alphabet ! unat (signed_drop_bit (nat (valb + 8)) (push_bit 8 val) AND 0x3F)]
         else out)"

definition b64_T :: "char \<Rightarrow> int" where
  "b64_T c = (case find_idx ((=) c) b64_alphabet of None \<Rightarrow> - 1 | Some i \<Rightarrow> int i)"

fun dec_loop :: "string \<Rightarrow> u32 \<Rightarrow> int \<Rightarrow> bytes \<Rightarrow> bytes" where
  "dec_loop [] val valb out = out"
| "dec_loop (c # cs) val valb out =
     (if b64_T c = - 1 then out
      else let val' = push_bit 6 val + word_of_int (b64_T c);
               valb' = valb + 6
           in if valb' \<ge> 0
              then dec_loop cs val' (valb' - 8)
                     (out @ [ucast (signed_drop_bit (nat valb') val' AND 0xFF)])
              else dec_loop cs val' valb' out)"

definition base64_decode :: "string \<Rightarrow> bytes" where
  "base64_decode input = dec_loop input 0 (- 8) []"

section \<open>The bits a step reads\<close>

lemma plus_low_bits:
  fixes v w :: u32
  assumes "w = w AND mask n"
  shows "push_bit n v + w = push_bit n v OR w"
  apply (rule disjunctive_add)
  apply (subst assms)
  apply (simp add: bit_simps)
  done

lemma low6: "(0x3F::u32) = mask 6" by (simp add: mask_eq_exp_minus_1)
lemma low8: "(0xFF::u32) = mask 8" by (simp add: mask_eq_exp_minus_1)

lemma ucast_low: "(ucast (c::byte) :: u32) = ucast c AND mask 8"
  by (rule bit_word_eqI) (auto simp: bit_simps dest: bit_imp_le_length)

lemma push_byte: "push_bit 8 v + ucast (c::byte) = (push_bit 8 v OR ucast c :: u32)"
  by (rule plus_low_bits) (rule ucast_low)

text \<open>The four sextets of three bytes.\<close>

definition sext0 :: "byte \<Rightarrow> u32" where "sext0 a = ucast (drop_bit 2 a)"
definition sext1 :: "byte \<Rightarrow> byte \<Rightarrow> u32" where "sext1 a b = ucast (push_bit 4 (a AND mask 2) OR drop_bit 4 b)"
definition sext2 :: "byte \<Rightarrow> byte \<Rightarrow> u32" where "sext2 b c = ucast (push_bit 2 (b AND mask 4) OR drop_bit 6 c)"
definition sext3 :: "byte \<Rightarrow> u32" where "sext3 c = ucast (c AND mask 6)"
lemmas sext_defs = sext0_def sext1_def sext2_def sext3_def

lemma sext_low: 
  "sext0 a AND mask 6 = sext0 a" "sext1 a b AND mask 6 = sext1 a b" 
  "sext2 b c AND mask 6 = sext2 b c" "sext3 c AND mask 6 = sext3 c"
  by (rule bit_word_eqI; auto simp: sext_defs bit_simps dest: bit_imp_le_length)+

lemma sext_less:
  assumes "x AND mask 6 = (x :: u32)"
  shows "unat x < 64"
proof -
  have "uint (x AND mask 6) < 2 ^ 6" by (rule and_mask_lt_2p)
  moreover have "(2 :: int) ^ 6 = int 64" by simp
  ultimately have "uint x < int 64" unfolding assms by (simp only:)
  then have "nat (uint x) < 64" using nat_less_iff [OF uint_ge_0] by blast
  then show ?thesis by (simp only: unat_eq_nat_uint)
qed

lemma enc_bits:
  "signed_drop_bit 2 (push_bit 8 v OR ucast a) AND 0x3F = sext0 a"
  "signed_drop_bit 4 (push_bit 8 (push_bit 8 v OR ucast a) OR ucast b) AND 0x3F = sext1 a b"
  "signed_drop_bit 6 (push_bit 8 (push_bit 8 v OR ucast b) OR ucast c) AND 0x3F = sext2 b c"
  "(push_bit 8 v OR ucast c) AND 0x3F = sext3 c"
  "signed_drop_bit 4 (push_bit 8 (push_bit 8 v OR ucast a)) AND 0x3F = sext1 a 0"
  "signed_drop_bit 6 (push_bit 8 (push_bit 8 v OR ucast a)) AND 0x3F = sext2 a 0"
  unfolding low6 by (rule bit_word_eqI; auto simp: sext_defs bit_simps dest: bit_imp_le_length)+


lemma dec_bits:
  "ucast (signed_drop_bit 4 (push_bit 6 (push_bit 6 v OR sext0 a) OR sext1 a b) AND 0xFF) = a"
  "ucast (signed_drop_bit 2 (push_bit 6 (push_bit 6 v OR sext1 a b) OR sext2 b c) AND 0xFF) = b"
  "ucast ((push_bit 6 (push_bit 6 v OR sext2 b c) OR sext3 c) AND 0xFF) = c"
  unfolding low8 by (rule byte_eqI; simp add: sext_defs bit_simps byte_high)+


lemma b64_T_nth: "i < 64 \<Longrightarrow> b64_T (b64_alphabet ! i) = int i"
proof -
  have "\<forall>i \<in> set [0..<64]. b64_T (b64_alphabet ! i) = int i" by code_simp
  then show "i < 64 \<Longrightarrow> b64_T (b64_alphabet ! i) = int i" by simp
qed

definition b64c :: "u32 \<Rightarrow> char" where "b64c x = b64_alphabet ! unat x"

lemma dec_char:
  assumes "x AND mask 6 = x"
  shows "dec_loop (b64c x # cs) val valb out =
    (let val' = push_bit 6 val OR x
     in if valb + 6 \<ge> 0 then dec_loop cs val' (valb - 2) (out @ [ucast (signed_drop_bit (nat (valb + 6)) val' AND 0xFF)])
        else dec_loop cs val' (valb + 6) out)"
proof -
  have "b64_T (b64c x) = int (unat x)"
    unfolding b64c_def by (rule b64_T_nth) (rule sext_less [OF assms])
  moreover have "push_bit 6 val + x = push_bit 6 val OR x"
    by (rule plus_low_bits) (simp add: assms)
  moreover have "uint x \<noteq> - 1"
    using uint_ge_0 [of x] by linarith
  ultimately show ?thesis by (simp add: Let_def dec_loop.simps(2))
qed

declare dec_loop.simps(2) [simp del]
lemmas dec_sext = sext_low [THEN dec_char]

lemma drain_steps:
  "enc_drain v 2 out = (- 4, out @ [b64_alphabet ! unat (signed_drop_bit 2 v AND 0x3F)])"
  "enc_drain v 4 out = (- 2, out @ [b64_alphabet ! unat (signed_drop_bit 4 v AND 0x3F)])"
  "enc_drain v 6 out = (- 6, out @ [b64_alphabet ! unat (signed_drop_bit 6 v AND 0x3F), b64_alphabet ! unat (v AND 0x3F)])"
  by (simp_all add: enc_drain.simps)

lemma enc_three:
  "\<exists>v'. enc_loop (a # b # c # bs) v (- 6) out =
     enc_loop bs v' (- 6) (out @ [b64c (sext0 a), b64c (sext1 a b), b64c (sext2 b c), b64c (sext3 c)])"
  by (simp add: push_byte drain_steps enc_bits b64c_def Let_def del: push_bit_or push_bit_push_bit) blast

lemma dec_four:
  "\<exists>v'. dec_loop (b64c (sext0 a) # b64c (sext1 a b) # b64c (sext2 b c) # b64c (sext3 c) # cs) v (- 8) out =
     dec_loop cs v' (- 8) (out @ [a, b, c])"
  by (simp add: dec_sext dec_bits Let_def del: push_bit_or push_bit_push_bit) blast

section \<open>The reference encoder\<close>

text \<open>RFC 4648 on whole groups of three bytes, the remainder without padding.\<close>

fun b64_spec :: "bytes \<Rightarrow> string" where
  "b64_spec (a # b # c # bs) = [b64c (sext0 a), b64c (sext1 a b), b64c (sext2 b c), b64c (sext3 c)] @ b64_spec bs"
| "b64_spec [a, b] = [b64c (sext0 a), b64c (sext1 a b), b64c (sext2 b 0)]"
| "b64_spec [a] = [b64c (sext0 a), b64c (sext1 a 0)]"
| "b64_spec [] = []"

lemma enc_loop_spec:
  "(let (val, valb, out) = enc_loop bs v (- 6) out0
      in if valb > - 6
         then out @ [b64_alphabet ! unat (signed_drop_bit (nat (valb + 8)) (push_bit 8 val) AND 0x3F)]
         else out) = out0 @ b64_spec bs"
proof (induction bs arbitrary: v out0 rule: b64_spec.induct)
  case (1 a b c bs)
  obtain v' where "enc_loop (a # b # c # bs) v (- 6) out0 =
     enc_loop bs v' (- 6) (out0 @ [b64c (sext0 a), b64c (sext1 a b), b64c (sext2 b c), b64c (sext3 c)])"
    using enc_three by blast
  then show ?case using 1 by (simp only: b64_spec.simps append_assoc)
qed (simp_all add: push_byte drain_steps enc_bits b64c_def Let_def del: push_bit_or push_bit_push_bit)

lemma base64_encode_eq: "base64_encode bs = b64_spec bs"
  using enc_loop_spec [of bs 0 "[]"] by (simp add: base64_encode_def)

text \<open>C31: the accumulator loop of base64_encode computes the group-wise encoding of RFC 4648
  (URL alphabet, no padding), for byte strings of every length.\<close>

theorem base64_encode_spec: "base64_encode bs = b64_spec bs"
  by (rule base64_encode_eq)

lemma dec_loop_spec: "dec_loop (b64_spec bs) v (- 8) out = out @ bs"
proof (induction bs arbitrary: v out rule: b64_spec.induct)
  case (1 a b c bs)
  obtain v' where "dec_loop (b64_spec (a # b # c # bs)) v (- 8) out =
      dec_loop (b64_spec bs) v' (- 8) (out @ [a, b, c])"
    using dec_four [of a b c "b64_spec bs" v out] by auto
  then show ?case using 1 by simp
qed (simp_all add: dec_sext dec_bits Let_def del: push_bit_or push_bit_push_bit)

text \<open>C29: base64_decode inverts base64_encode on every byte string.\<close>

theorem base64_roundtrip: "base64_decode (base64_encode bs) = bs"
  by (simp add: base64_encode_eq base64_decode_def dec_loop_spec)

end
