(* ===== verification/CheckSum.thy ===== *)
theory CheckSum
  imports Prelude
begin

text \<open>
  The internet checksum of \<open>RawSocket/CheckSum.cpp\<close> over the raw bytes of a packet: \<open>CalSum\<close>
  adds big-endian 16-bit words in a 32-bit accumulator, \<open>cksumIp\<close> and \<open>cksumTcp\<close> fold
  it twice and complement it. A packet is a byte list, the IP header at its start and the TCP
  header at \<open>ihl * 4\<close>.
\<close>

fun CalSum_loop :: "bytes \<Rightarrow> u32 \<Rightarrow> u32" where
  "CalSum_loop (a # b # p) acc = CalSum_loop p (acc + (push_bit 8 (ucast a) + ucast b))"
| "CalSum_loop [a] acc = acc + push_bit 8 (ucast a)"
| "CalSum_loop [] acc = acc"

definition CalSum :: "bytes \<Rightarrow> u32" where
  "CalSum buf = CalSum_loop buf 0"

definition ihl :: "bytes \<Rightarrow> nat" where
  "ihl ip = unat (ip ! 0 AND 0x0F)"

definition tot_len :: "bytes \<Rightarrow> nat" where
  "tot_len ip = unat (get16 ip 2)"

text \<open>The pseudo header: zero, protocol, TCP length, the two addresses. The length is computed
  as an \<open>int\<close> and cast to 16 bits.\<close>

definition CalPseudoHeadSum :: "bytes \<Rightarrow> u8 \<Rightarrow> u32" where
  "CalPseudoHeadSum ip type =
     (let len = (word_of_int (int (tot_len ip) - int (ihl ip * 4)) :: u16)
      in CalSum ([0, type, ucast (drop_bit 8 len), ucast len]
                 @ take 4 (drop 12 ip) @ take 4 (drop 16 ip)))"

definition cksum_finish :: "u32 \<Rightarrow> u16" where
  "cksum_finish s =
     (let ck = drop_bit 16 s + (s AND 0xFFFF);
          ck' = ck + drop_bit 16 ck
      in ucast (NOT ck'))"

definition cksumIp :: "bytes \<Rightarrow> u16" where
  "cksumIp ip = (let ip' = put16 10 0 ip in cksum_finish (CalSum (take (ihl ip' * 4) ip')))"

text \<open>\<open>cksumTcp\<close> gets both pointers, the second as the offset \<open>t\<close>. It reads \<open>tot_len - ihl * 4\<close> bytes from
  the TCP header on; a negative count reads nothing.\<close>

definition cksumTcp :: "nat \<Rightarrow> bytes \<Rightarrow> u16" where
  "cksumTcp t pkt =
     (let pkt' = put16 (t + 16) 0 pkt;
          n = tot_len pkt' - ihl pkt' * 4
      in cksum_finish (CalPseudoHeadSum pkt' 0x06 + CalSum (take n (drop t pkt'))))"

section \<open>Folding\<close>

text \<open>The exact sum of the 16-bit words, without the 32-bit accumulator, and the fold on numbers.\<close>

fun words_sum :: "bytes \<Rightarrow> nat" where
  "words_sum (a # b # p) = 256 * unat a + unat b + words_sum p"
| "words_sum [a] = 256 * unat a"
| "words_sum [] = 0"

definition fold16 :: "nat \<Rightarrow> nat" where
  "fold16 n = (let ck = n div 65536 + n mod 65536 in (ck + ck div 65536) mod 65536)"

lemma words_sum_bound: "words_sum b \<le> 65535 * ((length b + 1) div 2)"
proof (induction b rule: words_sum.induct)
  case (1 a b p)
  then show ?case using unat_byte [of a] unat_byte [of b] by simp
next
  case (2 a)
  then show ?case using unat_byte [of a] by simp
qed simp

lemma CalSum_loop_unat: "unat acc + words_sum b < 2 ^ 32 \<Longrightarrow> unat (CalSum_loop b acc) = unat acc + words_sum b"
proof (induction b acc rule: CalSum_loop.induct)
  case (1 a b p acc)
  have "unat (acc + (push_bit 8 (ucast a) + ucast b)) = unat acc + (256 * unat a + unat b)"
    using 1 by (simp add: unat_word_ariths unat_hi unat_ucast_byte32)
  then show ?case using 1 by simp
next
  case (2 a acc)
  then show ?case by (simp add: unat_word_ariths unat_hi)
qed simp

lemma fold16_mod: 
  assumes "n < 2 ^ 32" 
  shows "fold16 n mod 65535 = n mod 65535" "fold16 n = 0 \<longleftrightarrow> n = 0" "fold16 n \<le> 65535"
proof -
  define q r where "q = n div 65536" and "r = n mod 65536"
  have n: "n = q * 65535 + (q + r)" and q: "q < 65536" and r: "r < 65536"
    using assms by (auto simp: q_def r_def less_mult_imp_div_less)
  have f: "fold16 n = (if q + r < 65536 then q + r else q + r - 65535)"
  proof (cases "q + r < 65536")
    case True
    then show ?thesis by (simp add: fold16_def q_def [symmetric] r_def [symmetric] Let_def)
  next
    case False
    then have d: "(q + r) div 65536 = 1" using q r by (intro div_nat_eqI) auto
    have "(q + r + 1) mod 65536 = q + r + 1 - 65536"
      using False q r by (simp add: le_mod_geq)
    with d False show ?thesis by (simp add: fold16_def q_def [symmetric] r_def [symmetric] Let_def)
  qed
  have "n mod 65535 = (q + r) mod 65535" by (subst n) (rule mod_mult_self3)
  then show "fold16 n mod 65535 = n mod 65535"
    using f by (auto simp: le_mod_geq split: if_splits)
  show "fold16 n = 0 \<longleftrightarrow> n = 0" using f n by auto
  show "fold16 n \<le> 65535" using f q r by auto
qed

lemma cksum_finish_unat: "unat (cksum_finish s) = 65535 - fold16 (unat s)"
proof -
  have lo: "unat (s AND 0xFFFF) = unat s mod 65536"
  proof -
    have "(0xFFFF::u32) = mask 16" by (simp add: mask_eq_exp_minus_1)
    then have "unat (s AND 0xFFFF) = unat (take_bit 16 s)" by (simp only: take_bit_eq_mask)
    also have "\<dots> = take_bit 16 (unat s)" by (simp only: unsigned_take_bit_eq)
    finally show ?thesis by (simp add: take_bit_eq_mod)
  qed
  have hi: "unat (drop_bit 16 s) = unat s div 65536"
    by (simp only: unat_drop32) simp
  define ck where "ck = drop_bit 16 s + (s AND 0xFFFF)"
  have s32: "unat s < 2 ^ 32" using unat_u32 [of s] by simp
  then have d: "unat s div 65536 < 65536" by (simp add: less_mult_imp_div_less)
  have ck: "unat ck = unat s div 65536 + unat s mod 65536"
    unfolding ck_def using d mod_less_divisor [of 65536 "unat s"] by (simp add: unat_word_ariths hi lo)
  have hi2: "unat (drop_bit 16 ck) = unat ck div 65536"
    by (simp only: unat_drop32) simp
  have b: "unat ck \<le> 131070" using ck d mod_less_divisor [of 65536 "unat s"] by linarith
  then have "unat (ck + drop_bit 16 ck) = unat ck + unat ck div 65536"
    by (simp add: unat_word_ariths hi2)
  then have f: "unat (ck + drop_bit 16 ck) mod 65536 = fold16 (unat s)"
    by (simp add: fold16_def ck Let_def)
  have "unat (cksum_finish s) = unat (ucast (NOT (ck + drop_bit 16 ck)) :: u16)"
    by (simp add: cksum_finish_def ck_def Let_def)
  also have "(ucast (NOT (ck + drop_bit 16 ck)) :: u16) = NOT (ucast (ck + drop_bit 16 ck))"
    by (rule bit_word_eqI) (auto simp: bit_simps)
  also have "unat \<dots> = 65535 - unat (ucast (ck + drop_bit 16 ck) :: u16)"
    by (simp only: unat_not16)
  also have "unat (ucast (ck + drop_bit 16 ck) :: u16) = fold16 (unat s)"
    using f by (simp add: unsigned_ucast_eq take_bit_eq_mod)
  finally show ?thesis .
qed
lemma words_sum_put16:
  assumes "even i" "i + 1 < length b"
  shows "words_sum (put16 i v b) + unat (get16 b i) = words_sum b + unat v"
  using assms
proof (induction b arbitrary: i rule: words_sum.induct)
  case (1 a c p)
  show ?case
  proof (cases i)
    case 0
    have "unat v = 256 * unat (ucast (drop_bit 8 v) :: byte) + unat (ucast v :: byte)"
      by (rule unat_split16)
    then show ?thesis by (simp add: 0 put16_def unat_get16)
  next
    case (Suc j)
    with 1 obtain k where i: "i = Suc (Suc k)" by (cases j) auto
    have "put16 i v (a # c # p) = a # c # put16 k v p" by (simp add: put16_def i)
    moreover have "get16 (a # c # p) i = get16 p k" by (simp add: get16_def i)
    ultimately show ?thesis using 1 i by simp
  qed
qed auto

text \<open>The receiver's check.\<close>
lemma cksum_finish_zero:
  "cksum_finish s = 0 \<longleftrightarrow> 0 < unat s \<and> unat s mod 65535 = 0"
proof -
  have s32: "unat s < 2 ^ 32" using unat_u32 [of s] by simp
  note f = fold16_mod [OF s32]
  have "cksum_finish s = 0 \<longleftrightarrow> fold16 (unat s) = 65535"
    using f(3) cksum_finish_unat [of s] by (auto simp: unat_eq_zero)
  also have "\<dots> \<longleftrightarrow> 0 < unat s \<and> unat s mod 65535 = 0"
  proof
    assume "0 < unat s \<and> unat s mod 65535 = 0"
    then show "fold16 (unat s) = 65535"
      using f by (metis gr0I mod_less le_neq_implies_less less_not_refl)
  qed (use f in auto)
  finally show ?thesis .
qed

lemma sum_with_cksum:
  assumes "unat s + 65535 < 2 ^ 32" "unat s' = unat s + unat (cksum_finish s)"
  shows "cksum_finish s' = 0"
proof -
  have s32: "unat s < 2 ^ 32" using assms by simp
  note f = fold16_mod [OF s32]
  have "unat s' = unat s + (65535 - fold16 (unat s))" using assms cksum_finish_unat by simp
  then have m: "unat s' + fold16 (unat s) = unat s + 65535" using f(3) by simp
  then have "(unat s' + fold16 (unat s)) mod 65535 = fold16 (unat s) mod 65535"
    using f(1) by simp
  then have "unat s' mod 65535 = 0"
    by (metis add.commute add_0 mod_add_cong nat_mod_eq_iff dvd_eq_mod_eq_0 mod_eq_dvd_iff_nat add_diff_cancel_right' le_add2)
  moreover have "0 < unat s'" using m f(2,3) by (cases "unat s = 0") auto
  ultimately show ?thesis by (simp add: cksum_finish_zero)
qed

lemma CalSum_unat: "words_sum b < 2 ^ 32 \<Longrightarrow> unat (CalSum b) = words_sum b"
  using CalSum_loop_unat [of 0 b] by (simp add: CalSum_def)

lemma words_sum_append: "even (length a) \<Longrightarrow> words_sum (a @ b) = words_sum a + words_sum b"
proof (induction a rule: words_sum.induct)
  case (2 a)
  then show ?case by simp
qed auto

lemma ihl_bound: "ihl ip < 16"
proof -
  have "(0x0F::byte) = mask 4" by (simp add: mask_eq_exp_minus_1)
  then have "ip ! 0 AND 0x0F = take_bit 4 (ip ! 0)" by (simp only: take_bit_eq_mask)
  then have "ihl ip = take_bit 4 (unat (ip ! 0))" by (simp only: ihl_def unsigned_take_bit_eq)
  then show ?thesis by (simp add: take_bit_eq_mod)
qed


lemma words_sum_small: "length b \<le> 2 * n \<Longrightarrow> words_sum b \<le> 65535 * n"
  using words_sum_bound [of b] mult_le_mono2 [of "(length b + 1) div 2" n 65535] by linarith

lemma cksum_in_place:
  assumes "even i" "i + 1 < length b" "get16 b i = 0" "length b \<le> 131000"
    "unat s = t + words_sum b" "unat s' = t + words_sum (put16 i (cksum_finish s) b)" "t \<le> 1000000"
  shows "cksum_finish s' = 0"
proof (rule sum_with_cksum)
  have "words_sum b \<le> 65535 * 65500" using assms(4) by (intro words_sum_small) simp
  then show "unat s + 65535 < 2 ^ 32" using assms(5,7) by simp
  show "unat s' = unat s + unat (cksum_finish s)"
    using words_sum_put16 [OF assms(1,2), of "cksum_finish s"] assms(3,5,6) by simp
qed

lemma cksumIp_valid:
  assumes "5 \<le> ihl ip" "ihl ip * 4 \<le> length ip"
  shows "cksum_finish (CalSum (take (ihl ip * 4) (put16 10 (cksumIp ip) ip))) = 0"
proof -
  let ?n = "ihl ip * 4" and ?z = "put16 10 0 ip"
  let ?h = "take ?n ?z"
  have ihl: "ihl ?z = ihl ip" by (simp add: ihl_def put16_def)
  have c: "cksumIp ip = cksum_finish (CalSum ?h)" by (simp only: cksumIp_def Let_def ihl)
  have len: "length ?h = ?n" "?n \<le> 60" using ihl_bound [of ip] assms by auto
  have sum: "unat (CalSum h) = words_sum h" if "length h \<le> 60" for h
    using words_sum_small [of h 30] that by (intro CalSum_unat) simp
  have t: "take ?n (put16 10 v ip) = put16 10 v ?h" for v
    using assms by (simp add: take_put16)
  show ?thesis
  proof (rule cksum_in_place [of 10 ?h])
    show "10 + 1 < length ?h" "length ?h \<le> 131000" using len assms by simp_all
    show "get16 ?h 10 = 0" using assms by (simp add: take_put16)
    show "unat (CalSum ?h) = 0 + words_sum ?h" using sum [of ?h] len by simp
    show "unat (CalSum (take ?n (put16 10 (cksumIp ip) ip))) = 0 + words_sum (put16 10 (cksum_finish (CalSum ?h)) ?h)"
      by (subst t) (use sum len c in simp)
  qed simp_all
qed

definition tcp_segment :: "bytes \<Rightarrow> bytes" where
  "tcp_segment pkt = take (tot_len pkt - ihl pkt * 4) (drop (ihl pkt * 4) pkt)"

definition tcp_sum :: "bytes \<Rightarrow> u32" where
  "tcp_sum pkt = CalPseudoHeadSum pkt 0x06 + CalSum (tcp_segment pkt)"

lemma put16_header:
  assumes "20 \<le> i"
  shows "ihl (put16 i v pkt) = ihl pkt" "tot_len (put16 i v pkt) = tot_len pkt"
    "CalPseudoHeadSum (put16 i v pkt) ty = CalPseudoHeadSum pkt ty"
proof -
  show h: "ihl (put16 i v pkt) = ihl pkt" and l: "tot_len (put16 i v pkt) = tot_len pkt"
    using assms by (simp_all add: ihl_def tot_len_def get16_def put16_def)
  have "take 4 (drop n (put16 i v pkt)) = take 4 (drop n pkt)" if "n + 4 \<le> 20" for n
    using assms that by (simp add: put16_def drop_update_swap take_update_cancel)
  then show "CalPseudoHeadSum (put16 i v pkt) ty = CalPseudoHeadSum pkt ty"
    by (simp only: CalPseudoHeadSum_def h l)
qed

lemma tcp_segment_put16:
  assumes "5 \<le> ihl pkt" "ihl pkt * 4 + 20 \<le> tot_len pkt"
  shows "tcp_segment (put16 (ihl pkt * 4 + 16) v pkt) = put16 16 v (tcp_segment pkt)"
proof -
  let ?t = "ihl pkt * 4"
  have "drop ?t (put16 (?t + 16) v pkt) = put16 16 v (drop ?t pkt)"
    by (simp add: put16_def drop_update_swap)
  moreover have "ihl (put16 (?t + 16) v pkt) = ihl pkt" "tot_len (put16 (?t + 16) v pkt) = tot_len pkt"
    using assms by (simp_all add: put16_header)
  ultimately show ?thesis using assms by (simp add: tcp_segment_def take_put16)
qed

lemma cksumTcp_eq:
  "5 \<le> ihl pkt \<Longrightarrow> cksumTcp (ihl pkt * 4) pkt = cksum_finish (tcp_sum (put16 (ihl pkt * 4 + 16) 0 pkt))"
  by (simp add: cksumTcp_def tcp_sum_def tcp_segment_def put16_header Let_def)

lemma tcp_segment_length: "length (tcp_segment pkt) \<le> 65535"
  using unat_u16 [of "get16 pkt 2"] by (simp add: tcp_segment_def tot_len_def)

lemma pseudo_sum: "unat (CalPseudoHeadSum pkt ty) \<le> 393210"
proof -
  have *: "unat (CalSum b) \<le> 393210" if "length b \<le> 12" for b
    using words_sum_small [of b 6] that CalSum_unat [of b] by simp
  show ?thesis unfolding CalPseudoHeadSum_def Let_def by (rule *) simp
qed

lemma tcp_sum_unat: "unat (tcp_sum pkt) = unat (CalPseudoHeadSum pkt 0x06) + words_sum (tcp_segment pkt)"
proof -
  have "words_sum (tcp_segment pkt) \<le> 65535 * 32768"
    using tcp_segment_length [of pkt] by (intro words_sum_small) simp
  moreover from this have "unat (CalSum (tcp_segment pkt)) = words_sum (tcp_segment pkt)"
    by (intro CalSum_unat) simp
  ultimately show ?thesis using pseudo_sum [of pkt "0x06"]
    by (simp add: tcp_sum_def unat_word_ariths)
qed

lemma cksumTcp_valid:
  assumes "5 \<le> ihl pkt" "ihl pkt * 4 + 20 \<le> tot_len pkt" "ihl pkt * 4 + 20 \<le> length pkt"
  shows "cksum_finish (tcp_sum (put16 (ihl pkt * 4 + 16) (cksumTcp (ihl pkt * 4) pkt) pkt)) = 0"
proof -
  let ?t = "ihl pkt * 4"
  let ?z = "put16 (?t + 16) 0 pkt"
  let ?seg = "tcp_segment ?z" and ?c = "cksum_finish (tcp_sum ?z)"
  have i: "20 \<le> ?t + 16" using assms by simp
  have h: "ihl ?z = ihl pkt" "tot_len ?z = tot_len pkt" using i by (simp_all add: put16_header)
  have seg: "tcp_segment (put16 (?t + 16) v pkt) = put16 16 v ?seg" for v
    using tcp_segment_put16 [OF assms(1,2)] by simp
  have z: "?seg = put16 16 0 (tcp_segment pkt)" using tcp_segment_put16 [OF assms(1,2)] .
  have len: "20 \<le> length ?seg" using assms(2,3) unfolding z by (auto simp: tcp_segment_def)
  show ?thesis
  proof (rule cksum_in_place [of 16 ?seg])
    show "16 + 1 < length ?seg" using len by simp
    show "get16 ?seg 16 = 0" using len by (simp add: z)
    show "length ?seg \<le> 131000" using tcp_segment_length [of ?z] by simp
    show "unat (tcp_sum ?z) = unat (CalPseudoHeadSum pkt 0x06) + words_sum ?seg"
      using i by (simp only: tcp_sum_unat put16_header)
    show "unat (tcp_sum (put16 (?t + 16) (cksumTcp ?t pkt) pkt))
        = unat (CalPseudoHeadSum pkt 0x06) + words_sum (put16 16 ?c ?seg)"
      using i seg [of ?c] by (simp only: tcp_sum_unat put16_header cksumTcp_eq [OF assms(1)])
    show "unat (CalPseudoHeadSum pkt 0x06) \<le> 1000000"
      using pseudo_sum [of pkt "0x06"] by simp
  qed simp
qed
end
