(* ===== verification/Settings.thy ===== *)
theory Settings
  imports Prelude
begin

text \<open>
  The configuration types of \<open>include/dpitunnel-cli.h\<close>: the attack enumerations and their
  names, the profile (per network connection) and the settings that live as long as the
  process. \<open>unsigned int\<close>, \<open>unsigned short\<close> and \<open>short\<close> are words, \<open>int\<close> values that
  only carry a port are \<open>int\<close>.
\<close>

datatype Desync_zero_attacks =
  DESYNC_ZERO_FAKE | DESYNC_ZERO_RST | DESYNC_ZERO_RSTACK | DESYNC_ZERO_NONE

datatype Desync_first_attacks =
  DESYNC_FIRST_DISORDER | DESYNC_FIRST_DISORDER_FAKE | DESYNC_FIRST_SPLIT
  | DESYNC_FIRST_SPLIT_FAKE | DESYNC_FIRST_NONE

datatype Proxy_mode = MODE_PROXY | MODE_TRANSPARENT

definition ZERO_ATTACKS_NAMES :: "Desync_zero_attacks \<Rightarrow> string option" where
  "ZERO_ATTACKS_NAMES a = (case a of
     DESYNC_ZERO_FAKE \<Rightarrow> Some ''fake''
   | DESYNC_ZERO_RST \<Rightarrow> Some ''rst''
   | DESYNC_ZERO_RSTACK \<Rightarrow> Some ''rstack''
   | DESYNC_ZERO_NONE \<Rightarrow> None)"

definition FIRST_ATTACKS_NAMES :: "Desync_first_attacks \<Rightarrow> string option" where
  "FIRST_ATTACKS_NAMES a = (case a of
     DESYNC_FIRST_DISORDER \<Rightarrow> Some ''disorder''
   | DESYNC_FIRST_DISORDER_FAKE \<Rightarrow> Some ''disorder_fake''
   | DESYNC_FIRST_SPLIT \<Rightarrow> Some ''split''
   | DESYNC_FIRST_SPLIT_FAKE \<Rightarrow> Some ''split_fake''
   | DESYNC_FIRST_NONE \<Rightarrow> None)"

definition PROXY_MODE_NAMES :: "Proxy_mode \<Rightarrow> string" where
  "PROXY_MODE_NAMES m = (case m of MODE_PROXY \<Rightarrow> ''proxy'' | MODE_TRANSPARENT \<Rightarrow> ''transparent'')"

record Profile_s =
  buffer_size :: u32
  split_position :: u32
  fake_packets_ttl :: u16
  window_size :: u16
  window_scale_factor :: "16 word"
  wrong_seq :: bool
  wrong_seq_drift_ack :: u32
  wrong_seq_drift_seq :: u32
  min_ttl :: u16
  auto_ttl :: bool
  auto_ttl_a1 :: u16
  auto_ttl_a2 :: u16
  auto_ttl_max :: u16
  doh_server :: string
  builtin_dns :: bool
  builtin_dns_ip :: string
  builtin_dns_port :: int
  split_at_sni :: bool
  desync_attacks :: bool
  doh :: bool
  desync_zero_attack :: Desync_zero_attacks
  desync_first_attack :: Desync_first_attacks

definition default_Profile :: Profile_s where
  "default_Profile = \<lparr>
     buffer_size = 512, split_position = 3, fake_packets_ttl = 0, window_size = 0,
     window_scale_factor = - 1, wrong_seq = False,
     wrong_seq_drift_ack = - 66000, wrong_seq_drift_seq = - 10000,
     min_ttl = 0, auto_ttl = False, auto_ttl_a1 = 1, auto_ttl_a2 = 4, auto_ttl_max = 10,
     doh_server = ''https://dns.google/dns-query'',
     builtin_dns = False, builtin_dns_ip = ''8.8.8.8'', builtin_dns_port = 53,
     split_at_sni = False, desync_attacks = False, doh = False,
     desync_zero_attack = DESYNC_ZERO_NONE, desync_first_attack = DESYNC_FIRST_NONE \<rparr>"

record Settings_perst_s =
  test_ssl_handshake_timeout :: u16
  packet_capture_timeout :: u16
  builtin_dns_req_timeout :: u32
  count_hops_connect_timeout :: u32
  server_port :: int
  server_address :: string
  proxy_mode :: Proxy_mode
  ca_bundle_path :: string
  ca_bundle :: string
  whitelist_path :: string
  whitelist_domains :: "string set"
  whitelist_ips :: "string set"
  custom_ips_path :: string
  custom_ips :: "string \<rightharpoonup> string"
  pid_file :: string
  daemon :: bool

definition default_Settings :: Settings_perst_s where
  "default_Settings = \<lparr>
     test_ssl_handshake_timeout = 5, packet_capture_timeout = 5000,
     builtin_dns_req_timeout = 10000, count_hops_connect_timeout = 1000,
     server_port = 8080, server_address = ''0.0.0.0'', proxy_mode = MODE_PROXY,
     ca_bundle_path = ''./ca.bundle'', ca_bundle = [],
     whitelist_path = [], whitelist_domains = {}, whitelist_ips = {},
     custom_ips_path = [], custom_ips = Map.empty, pid_file = [], daemon = False \<rparr>"

end
