(* ===== verification/Utils.thy ===== *)
theory Utils
  imports Settings
begin

text \<open>
  The helpers of \<open>utils.cpp\<close>: shell-style wildcard matching of profile names, host name
  matching for certificates, the SNI scanner of a TLS ClientHello, the automatic TTL of
  fake packets, and the whitelist and custom address tables.
\<close>

section \<open>Wildcard matching\<close>

fun wildcard_match :: "string \<Rightarrow> string \<Rightarrow> bool" where
  "wildcard_match [] haystack = (haystack = [])"
| "wildcard_match (n # needle) haystack =
     (if n = CHR ''?'' then
        (case haystack of [] \<Rightarrow> False | _ # h \<Rightarrow> wildcard_match needle h)
      else if n = CHR ''*'' then
        (if needle = [] then True
         else list_ex (\<lambda>i. wildcard_match needle (drop i haystack)) [0..<length haystack])
      else
        (case haystack of [] \<Rightarrow> False
         | c # h \<Rightarrow> if c \<noteq> n then False else wildcard_match needle h))"

section \<open>Host names of certificates\<close>

definition is_space_or_tab :: "char \<Rightarrow> bool" where
  "is_space_or_tab c = (c = CHR '' '' \<or> c = CHR 0x09)"

text \<open>\<open>trim\<close> moves the two ends over blanks; \<open>b\<close> is the whole text, \<open>e\<close> its end.\<close>

function trim_left :: "string \<Rightarrow> nat \<Rightarrow> nat" where
  "trim_left b left =
     (if left < length b \<and> is_space_or_tab (b ! left) then trim_left b (left + 1) else left)"
  by pat_completeness auto
termination by (relation "measure (\<lambda>(b, left). length b - left)") auto

fun trim_right :: "string \<Rightarrow> nat \<Rightarrow> nat" where
  "trim_right b 0 = 0"
| "trim_right b (Suc r) = (if is_space_or_tab (b ! r) then trim_right b r else Suc r)"

definition trim :: "string \<Rightarrow> nat \<Rightarrow> nat \<Rightarrow> nat \<times> nat" where
  "trim b left right = (trim_left b left, trim_right b right)"

definition emit_trimmed :: "string \<Rightarrow> nat \<Rightarrow> nat \<Rightarrow> string list" where
  "emit_trimmed b beg i =
     (let (l, r) = trim b beg i in if l < r then [take (r - l) (drop l b)] else [])"

function split_loop :: "string \<Rightarrow> char \<Rightarrow> nat \<Rightarrow> nat \<Rightarrow> string list" where
  "split_loop b d beg i =
     (if i < length b
      then if b ! i = d then emit_trimmed b beg i @ split_loop b d (i + 1) (i + 1)
           else split_loop b d beg (i + 1)
      else if i \<noteq> 0 then emit_trimmed b beg i else [])"
  by pat_completeness auto
termination by (relation "measure (\<lambda>(b, d, beg, i). length b - i)") auto

definition split :: "string \<Rightarrow> char \<Rightarrow> string list" where
  "split b d = split_loop b d 0 0"

definition component_match :: "string \<Rightarrow> string \<Rightarrow> bool" where
  "component_match p h =
     (if p \<noteq> h \<and> p \<noteq> ''*''
      then length p > 0 \<and> p ! (length p - 1) = CHR ''*'' \<and> take (length p - 1) p = h
      else True)"

definition check_host_name :: "string \<Rightarrow> string \<Rightarrow> bool" where
  "check_host_name pattern host =
     (if host = pattern then True
      else let pattern_components = split pattern (CHR ''.'');
               host_components = split host (CHR ''.'')
           in if length host_components \<noteq> length pattern_components then False
              else list_all2 component_match pattern_components host_components)"

definition last_n_chars :: "string \<Rightarrow> nat \<Rightarrow> string" where
  "last_n_chars input n =
     (if n > 0 \<and> length input > n then drop (length input - n) input else input)"

section \<open>The SNI of a ClientHello\<close>

text \<open>
  Reads of the buffer: index \<open>size()\<close> is the terminating NUL, anything beyond it is
  outside the string and makes the result None.
\<close>

definition rd8 :: "bytes \<Rightarrow> nat \<Rightarrow> u8 option" where
  "rd8 b i = (if i < length b then Some (b ! i) else if i = length b then Some 0 else None)"

definition rd16 :: "bytes \<Rightarrow> nat \<Rightarrow> nat option" where
  "rd16 b i = Option.bind (rd8 b i) (\<lambda>h. map_option (\<lambda>l. 256 * unat h + unat l) (rd8 b (i + 1)))"

text \<open>\<open>char\<close> is signed on the supported targets: a length byte of 128 or more widens to
  \<open>unsigned short\<close> with its sign.\<close>

definition char_to_ushort :: "u8 \<Rightarrow> nat" where
  "char_to_ushort c = unat (scast c :: u16)"

function sni_ext_loop :: "bytes \<Rightarrow> nat \<Rightarrow> nat \<Rightarrow> nat \<Rightarrow> nat \<Rightarrow> (nat \<times> nat) option" where
  "sni_ext_loop b last_char maxcharit ext_type it =
     (if it < maxcharit \<and> ext_type \<noteq> 0 then
        if last_char \<le> it + 9 then Some (0, 0)
        else case rd16 b it of None \<Rightarrow> None | Some ext_type' \<Rightarrow>
          (case rd16 b (it + 2) of None \<Rightarrow> None | Some ext_len \<Rightarrow>
            if ext_type' = 0 then
              (case rd16 b (it + 4 + 3) of None \<Rightarrow> None | Some namelen \<Rightarrow>
                 Some (it + 4 + 3 + 2, namelen))
            else sni_ext_loop b last_char maxcharit ext_type' (it + 4 + ext_len))
      else Some (0, 0))"
  by pat_completeness auto
termination
  by (relation "measure (\<lambda>(b, last_char, maxcharit, ext_type, it). maxcharit - it)") auto

text \<open>The pair is \<open>(start_pos, len)\<close>. Buffers are at most 65535 bytes long (\<open>parse_cmdline\<close>),
  so the \<open>unsigned int\<close> position does not wrap; \<open>maxcharit\<close> is an \<open>unsigned short\<close>.\<close>

definition get_tls_sni :: "bytes \<Rightarrow> nat \<Rightarrow> (nat \<times> nat) option" where
  "get_tls_sni b last_char =
     (if last_char \<le> 43 then Some (0, 0)
      else case rd8 b 43 of None \<Rightarrow> None | Some s \<Rightarrow>
        let it = 1 + 43 + char_to_ushort s in
        if last_char \<le> it then Some (0, 0)
        else case rd16 b it of None \<Rightarrow> None | Some cslen \<Rightarrow>
          let it = it + (2 + cslen) in
          if last_char \<le> it then Some (0, 0)
          else case rd8 b it of None \<Rightarrow> None | Some c \<Rightarrow>
            let it = it + (1 + char_to_ushort c) in
            if last_char \<le> it then Some (0, 0)
            else case rd16 b it of None \<Rightarrow> None | Some extlen \<Rightarrow>
              sni_ext_loop b last_char ((it + 2 + extlen) mod 65536) 1 (it + 2))"

section \<open>HTTP methods\<close>

definition toupper :: "char \<Rightarrow> char" where
  "toupper c = (if CHR ''a'' \<le> c \<and> c \<le> CHR ''z'' then char_of (of_char c - 32 :: nat) else c)"

definition tolower :: "char \<Rightarrow> char" where
  "tolower c = (if CHR ''A'' \<le> c \<and> c \<le> CHR ''Z'' then char_of (of_char c + 32 :: nat) else c)"

definition valid_http_methods :: "string list" where
  "valid_http_methods = [''CONNECT'', ''DELETE'', ''GET'', ''HEAD'', ''OPTIONS'', ''PATCH'',
     ''POST'', ''PUT'', ''TRACE'']"

definition validate_http_method :: "string \<Rightarrow> bool" where
  "validate_http_method method = (map toupper method \<in> set valid_http_methods)"

section \<open>The TTL of fake packets\<close>

text \<open>
  The interpolation is computed with \<open>float\<close> and truncated. For operands of \<open>uint8_t\<close> and at
  most nine hops, \<open>trunc((a2 - a1) * ((float) nhops / 10))\<close> is the quotient of
  \<open>(a2 - a1) * nhops\<close> by 10 rounded towards zero (all 5110 products were compared).
  The parameters are \<open>uint8_t\<close>, numbers below 256 here; a store to a \<open>uint8_t\<close> keeps the
  value modulo 256.
\<close>

definition trunc_div10 :: "int \<Rightarrow> int" where
  "trunc_div10 x = (if 0 \<le> x then x div 10 else - ((- x) div 10))"

definition tcp_get_auto_ttl :: "nat \<Rightarrow> nat \<Rightarrow> nat \<Rightarrow> nat \<Rightarrow> nat \<Rightarrow> nat" where
  "tcp_get_auto_ttl ttl autottl1 autottl2 minhops maxttl =
     (if 98 < ttl \<and> ttl < 128 \<or> 34 < ttl \<and> ttl < 64 then
        let nhops = (if 98 < ttl \<and> ttl < 128 then 128 - ttl else 64 - ttl)
        in if nhops \<le> autottl1 \<or> nhops < minhops then 0
           else let t = (nhops + 256 - autottl2) mod 256;
                    t' = (if t < autottl2 \<and> nhops \<le> 9
                          then nat ((int nhops - int autottl1
                                 - trunc_div10 ((int autottl2 - int autottl1) * int nhops)) mod 256)
                          else t)
                in if maxttl \<noteq> 0 \<and> t' > maxttl then maxttl else t'
      else 0)"

section \<open>Whitelist and custom addresses\<close>

definition match_whitelist_domain :: "Settings_perst_s \<Rightarrow> string \<Rightarrow> bool" where
  "match_whitelist_domain S domain = (domain \<in> whitelist_domains S)"

definition match_whitelist_ip :: "Settings_perst_s \<Rightarrow> string \<Rightarrow> bool" where
  "match_whitelist_ip S ip = (ip \<in> whitelist_ips S)"

text \<open>\<open>std::getline\<close> until the end of the file: a last line without a newline counts.\<close>

fun getlines :: "string \<Rightarrow> string \<Rightarrow> string list" where
  "getlines acc [] = (if acc = [] then [] else [acc])"
| "getlines acc (c # cs) = (if c = CHR 0x0A then acc # getlines [] cs else getlines (acc @ [c]) cs)"

definition split_entry :: "string \<Rightarrow> (string \<times> string) option" where
  "split_entry input = (case find_char (CHR '' '') input 0 of None \<Rightarrow> None
     | Some pos \<Rightarrow> Some (take pos input, drop (pos + 1) input))"

definition whitelist_line :: "string \<Rightarrow> Settings_perst_s \<Rightarrow> Settings_perst_s" where
  "whitelist_line input S = (case split_entry input of None \<Rightarrow> S
     | Some (kind, v) \<Rightarrow>
         if kind = ''ip'' then S\<lparr>whitelist_ips := insert v (whitelist_ips S)\<rparr>
         else if kind = ''domain'' then S\<lparr>whitelist_domains := insert v (whitelist_domains S)\<rparr>
         else S)"

text \<open>The file system is a parameter: the content of a path, or None when it cannot be opened.\<close>

definition load_whitelist :: "(string \<Rightarrow> string option) \<Rightarrow> Settings_perst_s \<Rightarrow> int \<times> Settings_perst_s" where
  "load_whitelist fs S = (case fs (whitelist_path S) of None \<Rightarrow> (- 1, S)
     | Some content \<Rightarrow> (0, fold whitelist_line (getlines [] content) S))"

definition find_custom_ip :: "Settings_perst_s \<Rightarrow> string \<Rightarrow> string" where
  "find_custom_ip S domain = (case custom_ips S domain of Some ip \<Rightarrow> ip | None \<Rightarrow> [])"

text \<open>\<open>std::map::insert\<close> keeps an existing entry.\<close>

definition custom_ip_line :: "string \<Rightarrow> Settings_perst_s \<Rightarrow> Settings_perst_s" where
  "custom_ip_line input S = (case split_entry input of None \<Rightarrow> S
     | Some (d, ip) \<Rightarrow>
         if d \<noteq> [] \<and> ip \<noteq> [] \<and> custom_ips S d = None
         then S\<lparr>custom_ips := (custom_ips S)(d \<mapsto> ip)\<rparr> else S)"

definition load_custom_ips :: "(string \<Rightarrow> string option) \<Rightarrow> Settings_perst_s \<Rightarrow> int \<times> Settings_perst_s" where
  "load_custom_ips fs S = (case fs (custom_ips_path S) of None \<Rightarrow> (- 1, S)
     | Some content \<Rightarrow> (0, fold custom_ip_line (getlines [] content) S))"

declare trim_left.simps [simp del] split_loop.simps [simp del] sni_ext_loop.simps [simp del]

section \<open>Wildcards: the reference language\<close>

text \<open>The usual reading of the patterns: a star stands for any text, also the empty one.\<close>

inductive glob :: "string \<Rightarrow> string \<Rightarrow> bool" where
  glob_nil: "glob [] []"
| glob_any: "glob p s \<Longrightarrow> glob (CHR ''?'' # p) (c # s)"
| glob_star_end: "glob p s \<Longrightarrow> glob (CHR ''*'' # p) s"
| glob_star_more: "glob (CHR ''*'' # p) s \<Longrightarrow> glob (CHR ''*'' # p) (c # s)"
| glob_char: "c \<noteq> CHR ''?'' \<Longrightarrow> c \<noteq> CHR ''*'' \<Longrightarrow> glob p s \<Longrightarrow> glob (c # p) (c # s)"

inductive_cases glob_NilE: "glob [] s"
inductive_cases glob_ConsE: "glob (c # p) s"
inductive_simps glob_Nil_simp: "glob [] s"

lemma glob_star_drop: "glob p (drop i s) \<Longrightarrow> glob (CHR ''*'' # p) s"
proof (induction i arbitrary: s)
  case 0
  then show ?case by (auto intro: glob_star_end)
next
  case (Suc i)
  then show ?case by (cases s) (auto intro: glob_star_end glob_star_more)
qed

lemma glob_star_imp: "glob q s \<Longrightarrow> q = CHR ''*'' # p \<Longrightarrow> \<exists>i\<le>length s. glob p (drop i s)"
proof (induction arbitrary: p rule: glob.induct)
  case (glob_star_end p' s)
  then show ?case by (intro exI [of _ 0]) simp
next
  case (glob_star_more p' s c)
  then obtain i where "i \<le> length s" "glob p (drop i s)" by blast
  then show ?case by (intro exI [of _ "Suc i"]) simp
qed auto

lemma glob_star_iff: "glob (CHR ''*'' # p) s \<longleftrightarrow> (\<exists>i\<le>length s. glob p (drop i s))"
  using glob_star_imp glob_star_drop by blast

lemma glob_any_iff: "glob (CHR ''?'' # p) s \<longleftrightarrow> (\<exists>c t. s = c # t \<and> glob p t)"
  by (auto elim: glob_ConsE intro: glob_any)

lemma glob_char_iff:
  "n \<noteq> CHR ''?'' \<Longrightarrow> n \<noteq> CHR ''*'' \<Longrightarrow> glob (n # p) s \<longleftrightarrow> (\<exists>t. s = n # t \<and> glob p t)"
  by (auto elim: glob_ConsE intro: glob_char)

lemma glob_star_only: "glob ''*'' s"
  by (rule glob_star_drop [of _ "length s"]) (simp add: glob_nil)

lemmas glob_simps = glob_star_iff glob_any_iff glob_char_iff glob_Nil_simp

fun single_stars :: "string \<Rightarrow> bool" where
  "single_stars (a # b # p) = (\<not> (a = CHR ''*'' \<and> b = CHR ''*'') \<and> single_stars (b # p))"
| "single_stars _ = True"

lemma single_stars_tl: "single_stars (n # p) \<Longrightarrow> single_stars p"
  by (cases p) auto

lemma glob_Nil_right: "single_stars (CHR ''*'' # p) \<Longrightarrow> p \<noteq> [] \<Longrightarrow> \<not> glob p []"
  by (cases p) (auto elim: glob_ConsE)

lemma wildcard_match_sound: "wildcard_match p s \<Longrightarrow> glob p s"
proof (induction p s rule: wildcard_match.induct)
  case (1 s)
  then show ?case by (simp add: glob_nil)
next
  case (2 n p s)
  show ?case
  proof (cases "n = CHR ''*''")
    case True
    show ?thesis
    proof (cases "p = []")
      case True
      with \<open>n = CHR ''*''\<close> show ?thesis by (simp add: glob_star_only)
    next
      case False
      with 2 True show ?thesis
        by (auto simp: list_ex_iff) (blast intro: glob_star_drop)
    qed
  next
    case False
    with 2 show ?thesis
      by (auto simp: glob_any_iff glob_char_iff split: list.splits if_splits)
  qed
qed

text \<open>C33: on patterns without two adjacent stars, wildcard_match decides exactly the
  glob language of the pattern.\<close>

theorem wildcard_match_glob: "single_stars p \<Longrightarrow> wildcard_match p s \<longleftrightarrow> glob p s"
proof (induction p s rule: wildcard_match.induct)
  case (1 s)
  then show ?case by (auto simp: glob_Nil_simp)
next
  case (2 n p s)
  note hyps = "2" and prem = "2.prems"
  from "2.prems" have st: "single_stars p" by (rule single_stars_tl)
  consider "n = CHR ''?''" | "n = CHR ''*''" "p = []" | "n = CHR ''*''" "p \<noteq> []"
    | "n \<noteq> CHR ''?''" "n \<noteq> CHR ''*''" by blast
  then show ?case
  proof cases
    case a: 1
    with hyps st show ?thesis by (auto simp: glob_any_iff split: list.splits)
  next
    case 2
    then show ?thesis by (simp add: glob_star_only)
  next
    case 3
    have "glob p (drop i s) \<Longrightarrow> i \<le> length s \<Longrightarrow> i < length s" for i
      using glob_Nil_right [of p] prem 3 by (cases "i = length s") auto
    then have "glob (n # p) s \<longleftrightarrow> (\<exists>i<length s. glob p (drop i s))"
      using 3 by (auto simp: glob_star_iff) (meson less_imp_le)
    with 3 hyps st show ?thesis by (auto simp: list_ex_iff)
  next
    case 4
    with hyps st show ?thesis by (auto simp: glob_char_iff split: list.splits)
  qed
qed

theorem wildcard_match_glob_witness:
  "wildcard_match ''eth?:*'' ''eth0:home'' \<longleftrightarrow> glob ''eth?:*'' ''eth0:home''"
  by (rule wildcard_match_glob) simp

lemma sni_ext_loop_safe: "last_char \<le> length b \<Longrightarrow> sni_ext_loop b last_char m t it \<noteq> None"
proof (induction b last_char m t it rule: sni_ext_loop.induct)
  case (1 b last_char m t it)
  then show ?case
    by (subst sni_ext_loop.simps) (auto simp: rd16_def rd8_def split: option.splits)
qed

text \<open>C21: whatever bytes a client sends, get_tls_sni reads no byte outside the received
  buffer and returns.\<close>

theorem get_tls_sni_safe: "last_char \<le> length b \<Longrightarrow> \<exists>start len. get_tls_sni b last_char = Some (start, len)"
  using sni_ext_loop_safe [of last_char b] 
  by (auto simp: get_tls_sni_def rd16_def rd8_def Let_def split: option.splits)

theorem get_tls_sni_safe_witness: "\<exists>start len. get_tls_sni (replicate 60 0x16) 50 = Some (start, len)"
  by (rule get_tls_sni_safe) simp

section \<open>Well-formed ClientHello messages\<close>

definition be16 :: "nat \<Rightarrow> bytes" where
  "be16 n = [word_of_nat (n div 256), word_of_nat (n mod 256)]"

definition ext_bytes :: "nat \<times> bytes \<Rightarrow> bytes" where
  "ext_bytes e = be16 (fst e) @ be16 (length (snd e)) @ snd e"

definition sni_ext :: "bytes \<Rightarrow> nat \<times> bytes" where
  "sni_ext name = (0, be16 (length name + 3) @ [0] @ be16 (length name) @ name)"

definition client_hello :: "bytes \<Rightarrow> bytes \<Rightarrow> bytes \<Rightarrow> bytes \<Rightarrow> (nat \<times> bytes) list \<Rightarrow> bytes" where
  "client_hello pre sid suites comps exts =
     (let eb = concat (map ext_bytes exts)
      in pre @ [word_of_nat (length sid)] @ sid @ be16 (length suites) @ suites
         @ [word_of_nat (length comps)] @ comps @ be16 (length eb) @ eb)"

lemma length_be16 [simp]: "length (be16 n) = 2" by (simp add: be16_def)

lemma length_ext_bytes: "length (ext_bytes e) = 4 + length (snd e)" by (simp add: ext_bytes_def)

lemma unat_byte_of_nat: "n < 256 \<Longrightarrow> unat (word_of_nat n :: byte) = n"
  by (simp add: unsigned_of_nat take_bit_eq_mod)

lemma rd16_be16: "n < 65536 \<Longrightarrow> rd16 (p @ be16 n @ q) (length p) = Some n"
  by (simp add: rd16_def rd8_def be16_def nth_append unat_byte_of_nat less_mult_imp_div_less)

lemma rd16_be16': "n < 65536 \<Longrightarrow> i = length p \<Longrightarrow> b = p @ be16 n @ q \<Longrightarrow> rd16 b i = Some n"
  by (simp add: rd16_be16)

lemma ushort_small: "n < 128 \<Longrightarrow> char_to_ushort (word_of_nat n) = n"
proof -
  have "\<forall>n\<in>set [0..<128]. char_to_ushort (word_of_nat n) = n" by code_simp
  then show "n < 128 \<Longrightarrow> char_to_ushort (word_of_nat n) = n" by simp
qed

lemma sni_loop_finds:
  assumes "\<forall>e\<in>set es. 0 < fst e \<and> fst e < 65536 \<and> length (snd e) < 65536"
    and "t \<noteq> 0" "name \<noteq> []" "length name < 65530"
    and "b = p @ concat (map ext_bytes es) @ ext_bytes (sni_ext name) @ rest"
    and "length p + length (concat (map ext_bytes es)) < m" "L = length b"
  shows "\<exists>start. sni_ext_loop b L m t (length p) = Some (start, length name)
    \<and> take (length name) (drop start b) = name"
  using assms
proof (induction es arbitrary: p t)
  case Nil
  let ?sn = "be16 (length name + 3) @ [0] @ be16 (length name) @ name"
  have b: "b = p @ be16 0 @ be16 (length ?sn) @ ?sn @ rest"
    using Nil.prems by (simp add: ext_bytes_def sni_ext_def)
  have L: "\<not> L \<le> length p + 9" using Nil.prems b by (cases name) auto
  have r1: "rd16 b (length p) = Some 0" by (rule rd16_be16' [of _ _ p _ "be16 (length ?sn) @ ?sn @ rest"]) (auto simp: b)
  have r2: "rd16 b (length p + 2) = Some (length ?sn)"
    using Nil.prems by (intro rd16_be16' [of _ _ "p @ be16 0" _ "?sn @ rest"]) (auto simp: b)
  have r3: "rd16 b (length p + 4 + 3) = Some (length name)"
    using Nil.prems by (intro rd16_be16' [of _ _ "p @ be16 0 @ be16 (length ?sn) @ be16 (length name + 3) @ [0]" _ "name @ rest"]) (auto simp: b)
  have "length p < m" using Nil.prems by simp
  then have "sni_ext_loop b L m t (length p) = Some (length p + 4 + 3 + 2, length name)"
    using Nil.prems(2) L by (subst sni_ext_loop.simps) (simp add: r1 r2 [simplified] r3 [simplified])
  moreover have "drop (length p + 4 + 3 + 2) b = name @ rest"
    by (simp add: b be16_def)
  ultimately show ?case by simp
next
  case (Cons e es)
  obtain ty d where e: "e = (ty, d)" by (cases e)
  let ?tail = "concat (map ext_bytes es) @ ext_bytes (sni_ext name) @ rest"
  have b: "b = p @ be16 ty @ be16 (length d) @ d @ ?tail"
    using Cons.prems(5) ext_bytes_def [of e] by (simp add: e)
  have ne: "name \<noteq> []" and ty: "0 < ty" "ty < 65536" "length d < 65536" using Cons.prems e by auto
  have L: "\<not> L \<le> length p + 9"
    using Cons.prems(7) ne b by (cases name) (auto simp: length_ext_bytes sni_ext_def)
  have r1: "rd16 b (length p) = Some ty"
    using ty by (intro rd16_be16' [of _ _ p _ "be16 (length d) @ d @ ?tail"]) (auto simp: b)
  have r2: "rd16 b (length p + 2) = Some (length d)"
    using ty by (intro rd16_be16' [of _ _ "p @ be16 ty" _ "d @ ?tail"]) (auto simp: b)
  have "length p < m" using Cons.prems by simp
  then have step: "sni_ext_loop b L m t (length p) = sni_ext_loop b L m ty (length p + 4 + length d)"
    using L ty Cons.prems(2) by (subst sni_ext_loop.simps) (simp add: r1 r2 [simplified])
  let ?p = "p @ be16 ty @ be16 (length d) @ d"
  have "\<exists>start. sni_ext_loop b L m ty (length ?p) = Some (start, length name)
      \<and> take (length name) (drop start b) = name"
  proof (rule Cons.IH)
    show "length ?p + length (concat (map ext_bytes es)) < m"
      using Cons.prems(6) by (simp add: e length_ext_bytes)
  qed (use Cons.prems ty b in auto)
  then show ?case by (simp add: step eval_nat_numeral)
qed

text \<open>C13: on a well-formed ClientHello with a server name extension at any
  position, get_tls_sni returns the length of the name and a position where exactly the name is found.\<close>

theorem get_tls_sni_client_hello:
  assumes "length pre = 43" "length sid < 128" "length suites < 65536" "length comps < 128"
    and "\<forall>e\<in>set es. 0 < fst e \<and> fst e < 65536 \<and> length (snd e) < 65536"
    and "name \<noteq> []" "b = client_hello pre sid suites comps (es @ sni_ext name # es')" "length b < 65536"
  shows "\<exists>start. get_tls_sni b (length b) = Some (start, length name)
    \<and> take (length name) (drop start b) = name"
proof -
  let ?eb = "concat (map ext_bytes (es @ sni_ext name # es'))"
  let ?p1 = "pre @ [word_of_nat (length sid)] @ sid"
  let ?p2 = "?p1 @ be16 (length suites) @ suites"
  let ?p3 = "?p2 @ [word_of_nat (length comps)] @ comps"
  let ?p4 = "?p3 @ be16 (length ?eb)"
  have b: "b = ?p4 @ ?eb" using assms(7) by (simp add: client_hello_def Let_def)
  have eb: "?eb = concat (map ext_bytes es) @ ext_bytes (sni_ext name) @ concat (map ext_bytes es')" by simp
  have l: "length ?p1 = 44 + length sid" "length ?p2 = 46 + length sid + length suites"
      "length ?p3 = 47 + length sid + length suites + length comps"
      "length ?p4 = 49 + length sid + length suites + length comps" using assms(1) by simp_all
  have lb: "length b = 49 + length sid + length suites + length comps + length ?eb"
    unfolding b by (simp add: assms(1))
  have ebl: "0 < length ?eb" "length ?eb < 65536" "length name < 65530" 
    using assms(8) lb by (auto simp: eb length_ext_bytes sni_ext_def)
  have r1: "rd8 b 43 = Some (word_of_nat (length sid))"
    using assms(1) by (simp add: b rd8_def nth_append)
  have r2: "rd16 b (44 + length sid) = Some (length suites)"
    using assms(1,3) by (intro rd16_be16' [of _ _ ?p1]) (auto simp: b)
  have r3: "rd8 b (46 + length sid + length suites) = Some (word_of_nat (length comps))"
    using assms(1) by (simp add: b rd8_def nth_append)
  have r4: "rd16 b (47 + length sid + length suites + length comps) = Some (length ?eb)"
    using assms(1) ebl by (intro rd16_be16' [of _ _ ?p3 _ ?eb]) (auto simp: b)
  have "\<exists>start. sni_ext_loop b (length b) (length b) 1 (length ?p4) = Some (start, length name)
    \<and> take (length name) (drop start b) = name"
    using assms(5,6) ebl by (intro sni_loop_finds [where es = es and rest = "concat (map ext_bytes es')"])
      (auto simp: b length_ext_bytes)
  moreover have "get_tls_sni b (length b) = sni_ext_loop b (length b) (length b) 1 (length ?p4)"
  proof -
    define i1 where "i1 = 44 + length sid"
    define i2 where "i2 = i1 + (2 + length suites)"
    define i3 where "i3 = i2 + (1 + length comps)"
    note r = r2 [unfolded i1_def [symmetric]]
    have s: "1 + 43 + char_to_ushort (word_of_nat (length sid)) = i1"
      "i2 + (1 + char_to_ushort (word_of_nat (length comps))) = i3"
      using assms(2,4) by (simp_all add: ushort_small i1_def i3_def)
    have i2: "i2 = 46 + length sid + length suites" and i3: "i3 = 47 + length sid + length suites + length comps"
      by (simp_all add: i1_def i2_def i3_def)
    have p4: "i3 + 2 = length ?p4" and lb': "length b = i3 + 2 + length ?eb"
      using lb l(4) i3 by linarith+
    have m: "(i3 + 2 + length ?eb) mod 65536 = length b"
      unfolding lb' [symmetric] using assms(8) by (rule mod_less)
    have g: "\<not> length b \<le> 43" "\<not> length b \<le> i1" "\<not> length b \<le> i2" "\<not> length b \<le> i3"
      using lb i1_def i2 i3 by linarith+
    note q = r3 [folded i2] r4 [folded i3]
    show ?thesis
      by (simp only: get_tls_sni_def Let_def g r1 option.case s r i2_def [symmetric] q m [unfolded p4] p4 if_False)
  qed
  ultimately show ?thesis by simp
qed

theorem get_tls_sni_client_hello_witness:
  "\<exists>start. get_tls_sni (client_hello (replicate 43 3) [] [0x13, 1] [0] ([(23, [])] @ sni_ext [0x61, 0x62] # []))
      (length (client_hello (replicate 43 3) [] [0x13, 1] [0] ([(23, [])] @ sni_ext [0x61, 0x62] # [])))
      = Some (start, length [0x61, 0x62 :: byte])
    \<and> take (length [0x61, 0x62 :: byte])
        (drop start (client_hello (replicate 43 3) [] [0x13, 1] [0] ([(23, [])] @ sni_ext [0x61, 0x62] # []))) = [0x61, 0x62]"
  by (rule get_tls_sni_client_hello [OF _ _ _ _ _ _ refl])
    (simp_all add: client_hello_def ext_bytes_def sni_ext_def Let_def)

section \<open>Distance and TTL\<close>

text \<open>How far a server is, from the TTL of its reply: replies start at 64 or 128.\<close>

definition hop_distance :: "nat \<Rightarrow> nat option" where
  "hop_distance ttl = (if 98 < ttl \<and> ttl < 128 then Some (128 - ttl)
     else if 34 < ttl \<and> ttl < 64 then Some (64 - ttl) else None)"

definition auto_ttl_at :: "nat \<Rightarrow> nat \<Rightarrow> nat \<Rightarrow> nat \<Rightarrow> nat \<Rightarrow> nat" where
  "auto_ttl_at n a1 a2 mh mx =
    (if n \<le> a1 \<or> n < mh then 0
     else let t = (n + 256 - a2) mod 256;
              t' = (if t < a2 \<and> n \<le> 9 then nat ((int n - int a1 - trunc_div10 ((int a2 - int a1) * int n)) mod 256) else t)
          in if mx \<noteq> 0 \<and> t' > mx then mx else t')"

lemma tcp_get_auto_ttl_at:
  "tcp_get_auto_ttl ttl a1 a2 mh mx =
    (case hop_distance ttl of None \<Rightarrow> 0 | Some n \<Rightarrow> auto_ttl_at n a1 a2 mh mx)"
  by (cases "98 < ttl \<and> ttl < 128"; cases "34 < ttl \<and> ttl < 64")
    (simp_all only: tcp_get_auto_ttl_def hop_distance_def auto_ttl_at_def if_True if_False
       option.case Let_def simp_thms)

lemma trunc_div10_bounds: "0 \<le> x \<Longrightarrow> 0 \<le> trunc_div10 x \<and> 10 * trunc_div10 x \<le> x"
  unfolding trunc_div10_def using mult_div_mod_eq [of 10 x] pos_mod_sign [of 10 x]
  by (auto simp: pos_imp_zdiv_nonneg_iff)

lemma auto_ttl_at_below:
  assumes "a1 \<le> a2" "a2 \<le> n" "0 < a1" "n < 256"
  shows "auto_ttl_at n a1 a2 mh mx < n"
proof -
  define d where "d = trunc_div10 ((int a2 - int a1) * int n)"
  have t: "(n + 256 - a2) mod 256 = n - a2" using assms by (simp add: le_mod_geq)
  have d0: "0 \<le> d" "10 * d \<le> (int a2 - int a1) * int n"
    using trunc_div10_bounds [of "(int a2 - int a1) * int n"] assms by (auto simp: d_def)
  have d1: "d \<le> int a2 - int a1" if "n \<le> 9"
  proof -
    have "(int a2 - int a1) * int n \<le> (int a2 - int a1) * 10" using that assms by (intro mult_left_mono) auto
    then have "10 * d \<le> (int a2 - int a1) * 10" using d0 by simp
    then show ?thesis by simp
  qed
  have "nat ((int n - int a1 - d) mod 256) < n" if "n \<le> 9"
  proof -
    have "0 \<le> int n - int a1 - d" "int n - int a1 - d < int n" using d0(1) d1 that assms by linarith+
    moreover from this have "(int n - int a1 - d) mod 256 = int n - int a1 - d"
      using assms(4) by (intro mod_pos_pos_trivial) auto
    ultimately show ?thesis by linarith
  qed
  then show ?thesis using assms t by (auto simp: auto_ttl_at_def d_def [symmetric] Let_def)
qed

lemma auto_ttl_at_max: "mx \<noteq> 0 \<Longrightarrow> auto_ttl_at n a1 a2 mh mx \<le> mx"
  by (auto simp: auto_ttl_at_def Let_def)

text \<open>C23: The TTL chosen for fake packets when the bounds of \<open>--auto-ttl\<close> are in order, \<open>0 < a1 \<le> a2\<close>, the maximum is not
  zero and the server is at least \<open>a2\<close> hops away: it is smaller than the distance, so a fake never reaches the server,
  and it respects the maximum. Nothing in \<open>parse_cmdline\<close> makes sure of these conditions, and each of the first two is
  needed: \<open>tcp_get_auto_ttl_no_a2\<close>, \<open>tcp_get_auto_ttl_overshoots\<close>.\<close>

theorem tcp_get_auto_ttl_below:
  assumes "hop_distance ttl = Some n" "a1 \<le> a2" "a2 \<le> n" "0 < a1" "mx \<noteq> 0"
  shows "tcp_get_auto_ttl ttl a1 a2 mh mx < n \<and> tcp_get_auto_ttl ttl a1 a2 mh mx \<le> mx"
proof -
  have "n < 256" using assms(1) by (auto simp: hop_distance_def split: if_splits)
  then show ?thesis
    using auto_ttl_at_below assms(2-4) auto_ttl_at_max [OF assms(5)] by (simp add: tcp_get_auto_ttl_at assms(1))
qed

theorem tcp_get_auto_ttl_below_witness:
  "tcp_get_auto_ttl 56 1 4 3 10 < 8 \<and> tcp_get_auto_ttl 56 1 4 3 10 \<le> 10"
  by (rule tcp_get_auto_ttl_below) (simp_all add: hop_distance_def)

text \<open>when the server is nearer than auto_ttl_a2 hops, the 8-bit subtraction
  wraps and the fake packets get the maximal TTL: they travel further than the server.\<close>

theorem tcp_get_auto_ttl_overshoots:
  assumes "hop_distance ttl = Some n" "a1 < n" "n < a2" "mh \<le> n" "a2 \<le> 128" "mx \<le> 128" "n < mx"
  shows "tcp_get_auto_ttl ttl a1 a2 mh mx = mx \<and> n < mx"
proof -
  have "(n + 256 - a2) mod 256 = n + 256 - a2" using assms by simp
  then have "auto_ttl_at n a1 a2 mh mx = mx" using assms by (auto simp: auto_ttl_at_def Let_def)
  then show ?thesis using assms by (simp add: tcp_get_auto_ttl_at)
qed

theorem tcp_get_auto_ttl_overshoots_witness: "tcp_get_auto_ttl 61 1 4 3 10 = 10 \<and> 3 < (10::nat)"
  by (rule tcp_get_auto_ttl_overshoots [where ?a1.0 = 1 and ?a2.0 = 4 and mh = 3]) (simp_all add: hop_distance_def)

text \<open>With \<open>a2 = 0\<close>, as \<open>--auto-ttl=1-0-10\<close> sets it, the TTL is the distance: the fakes reach the server.\<close>

theorem tcp_get_auto_ttl_no_a2:
  assumes "hop_distance ttl = Some n" "a1 < n" "mh \<le> n" "n \<le> mx"
  shows "tcp_get_auto_ttl ttl a1 0 mh mx = n"
proof -
  have "n < 256" using assms(1) by (auto simp: hop_distance_def split: if_splits)
  then have "auto_ttl_at n a1 0 mh mx = n" using assms(2-4) by (simp add: auto_ttl_at_def Let_def)
  then show ?thesis by (simp add: tcp_get_auto_ttl_at assms(1))
qed

theorem tcp_get_auto_ttl_no_a2_witness: "tcp_get_auto_ttl 59 1 0 3 10 = 5"
  by (rule tcp_get_auto_ttl_no_a2) (simp_all add: hop_distance_def)

section \<open>Loading the tables\<close>
lemma whitelist_line_domains:
  "whitelist_domains (whitelist_line l S) = whitelist_domains S \<union> {d. split_entry l = Some (''domain'', d)}"
  by (auto simp: whitelist_line_def split: option.splits prod.splits if_splits)

lemma whitelist_line_ips:
  "whitelist_ips (whitelist_line l S) = whitelist_ips S \<union> {d. split_entry l = Some (''ip'', d)}"
  by (auto simp: whitelist_line_def split: option.splits prod.splits if_splits)

lemma split_entry_Some: "split_entry l = Some (k, v) \<longleftrightarrow> l = k @ CHR '' '' # v \<and> CHR '' '' \<notin> set k"
proof
  assume "split_entry l = Some (k, v)"
  then obtain i where i: "find_idx ((=) (CHR '' '')) l = Some i" "k = take i l" "v = drop (Suc i) l"
    by (auto simp: split_entry_def find_char_def split: option.splits)
  then have "i < length l" "l ! i = CHR '' ''" "\<forall>j<i. l ! j \<noteq> CHR '' ''" by (auto simp: find_idx_Some)
  with i show "l = k @ CHR '' '' # v \<and> CHR '' '' \<notin> set k"
    using id_take_nth_drop [of i l] by (auto simp: in_set_conv_nth)
next
  assume "l = k @ CHR '' '' # v \<and> CHR '' '' \<notin> set k"
  then have "find_idx ((=) (CHR '' '')) l = Some (length k)"
    using find_idx_append [of k "(=) (CHR '' '')" "CHR '' '' # v"] by auto
  with \<open>l = _ \<and> _\<close> show "split_entry l = Some (k, v)"
    by (simp add: split_entry_def find_char_def)
qed

lemma fold_whitelist:
  "whitelist_domains (fold whitelist_line ls S) = whitelist_domains S \<union> {d. ''domain '' @ d \<in> set ls}"
  "whitelist_ips (fold whitelist_line ls S) = whitelist_ips S \<union> {d. ''ip '' @ d \<in> set ls}"
  by (induction ls arbitrary: S) (auto simp: whitelist_line_domains whitelist_line_ips split_entry_Some)

text \<open>C37: after loading a readable whitelist, a domain or an address matches exactly
  if it matched before or the file has its line.\<close>

theorem load_whitelist_match:
  assumes "fs (whitelist_path S) = Some content" "load_whitelist fs S = (r, S')"
  shows "r = 0 \<and> (match_whitelist_domain S' d \<longleftrightarrow> match_whitelist_domain S d \<or> ''domain '' @ d \<in> set (getlines [] content))
    \<and> (match_whitelist_ip S' d \<longleftrightarrow> match_whitelist_ip S d \<or> ''ip '' @ d \<in> set (getlines [] content))"
  using assms by (auto simp: load_whitelist_def match_whitelist_domain_def match_whitelist_ip_def fold_whitelist)

theorem load_whitelist_match_witness:
  "(0::int) = 0 \<and> (match_whitelist_domain (snd (load_whitelist (\<lambda>_. Some ''domain a.b'') default_Settings)) ''a.b''
      \<longleftrightarrow> match_whitelist_domain default_Settings ''a.b'' \<or> ''domain '' @ ''a.b'' \<in> set (getlines [] ''domain a.b''))
    \<and> (match_whitelist_ip (snd (load_whitelist (\<lambda>_. Some ''domain a.b'') default_Settings)) ''a.b''
      \<longleftrightarrow> match_whitelist_ip default_Settings ''a.b'' \<or> ''ip '' @ ''a.b'' \<in> set (getlines [] ''domain a.b''))"
  by (rule load_whitelist_match [of "\<lambda>_. Some ''domain a.b''" default_Settings "''domain a.b''" 0
        "snd (load_whitelist (\<lambda>_. Some ''domain a.b'') default_Settings)" "''a.b''"])
    (simp_all add: load_whitelist_def)

definition custom_entry :: "string \<Rightarrow> string \<Rightarrow> string option" where
  "custom_entry d l = (case split_entry l of Some (d', ip) \<Rightarrow> if d' = d \<and> d \<noteq> [] \<and> ip \<noteq> [] then Some ip else None | None \<Rightarrow> None)"

fun first_entry :: "string \<Rightarrow> string list \<Rightarrow> string option" where
  "first_entry d [] = None"
| "first_entry d (l # ls) = (case custom_entry d l of Some ip \<Rightarrow> Some ip | None \<Rightarrow> first_entry d ls)"

lemma fold_custom:
  "custom_ips (fold custom_ip_line ls S) d = (case custom_ips S d of Some ip \<Rightarrow> Some ip | None \<Rightarrow> first_entry d ls)"
  by (induction ls arbitrary: S)
    (auto simp: custom_ip_line_def custom_entry_def split: option.splits if_splits prod.splits)

lemma load_custom_ips_first:
  assumes "fs (custom_ips_path S) = Some content" "custom_ips S = Map.empty" "load_custom_ips fs S = (r, S')"
  shows "r = 0 \<and> find_custom_ip S' d = (case first_entry d (getlines [] content) of Some ip \<Rightarrow> ip | None \<Rightarrow> [])"
  using assms by (auto simp: load_custom_ips_def find_custom_ip_def fold_custom)

section \<open>Host names made of labels\<close>

fun join_dots :: "string list \<Rightarrow> string" where
  "join_dots [] = []"
| "join_dots [w] = w"
| "join_dots (w # ws) = w @ CHR ''.'' # join_dots ws"

definition label :: "string \<Rightarrow> bool" where
  "label w \<longleftrightarrow> w \<noteq> [] \<and> (\<forall>c\<in>set w. c \<noteq> CHR ''.'' \<and> \<not> is_space_or_tab c)"

lemma split_loop_skip:
  "i \<le> j \<Longrightarrow> j \<le> length b \<Longrightarrow> \<forall>k. i \<le> k \<and> k < j \<longrightarrow> b ! k \<noteq> d \<Longrightarrow> split_loop b d beg i = split_loop b d beg j"
proof (induction "j - i" arbitrary: i)
  case 0
  then show ?case by simp
next
  case (Suc n)
  have "i < length b" "b ! i \<noteq> d" using Suc.hyps(2) Suc.prems by auto
  then have "split_loop b d beg i = split_loop b d beg (i + 1)"
    by (subst split_loop.simps) simp
  also have "\<dots> = split_loop b d beg j" using Suc by (intro Suc.hyps(1)) auto
  finally show ?case .
qed

lemma emit_label:
  assumes "label w"
  shows "emit_trimmed (p @ w @ q) (length p) (length p + length w) = [w]"
proof -
  have "\<not> is_space_or_tab (hd w)" "\<not> is_space_or_tab (last w)" "w \<noteq> []"
    using assms by (auto simp: label_def)
  then obtain c u where w: "w = c # u" and c: "\<not> is_space_or_tab c" by (cases w) auto
  have "trim_left (p @ w @ q) (length p) = length p"
    using c by (subst trim_left.simps) (simp add: w nth_append)
  moreover have "(p @ w @ q) ! (length p + length u) = last w"
    by (simp add: nth_append w last_conv_nth)
  then have "trim_right (p @ w @ q) (length p + length w) = length p + length w"
    using \<open>\<not> is_space_or_tab (last w)\<close> by (simp add: w)
  ultimately show ?thesis using w by (simp add: emit_trimmed_def trim_def)
qed

lemma label_nth: "label w \<Longrightarrow> length p \<le> k \<Longrightarrow> k < length p + length w \<Longrightarrow> (p @ w @ q) ! k \<noteq> CHR ''.''"
  by (auto simp: nth_append label_def)

lemma split_loop_labels:
  "\<forall>w\<in>set ws. label w \<Longrightarrow> ws \<noteq> [] \<Longrightarrow> b = p @ join_dots ws \<Longrightarrow> split_loop b (CHR ''.'') (length p) (length p) = ws"
proof (induction ws arbitrary: p rule: join_dots.induct)
  case (2 w)
  then have w: "label w" "w \<noteq> []" and b: "b = p @ w @ []" by (auto simp: label_def)
  have "split_loop b (CHR ''.'') (length p) (length p) = split_loop b (CHR ''.'') (length p) (length b)"
    unfolding b by (intro split_loop_skip) (simp, simp, use label_nth [OF w(1), of p _ "[]"] in simp)
  also have "\<dots> = emit_trimmed b (length p) (length b)"
  proof -
    have "length b \<noteq> 0" using b w by simp
    then show ?thesis by (subst split_loop.simps) simp
  qed
  also have "length b = length p + length w" using b by simp
  finally show ?case using emit_label [OF w(1), of p "[]"] b by simp
next
  case (3 w v ws)
  let ?r = "join_dots (v # ws)"
  let ?j = "length p + length w"
  have w: "label w" and b: "b = p @ w @ CHR ''.'' # ?r" using "3.prems" by auto
  have "split_loop b (CHR ''.'') (length p) (length p) = split_loop b (CHR ''.'') (length p) ?j"
    unfolding b by (intro split_loop_skip) (simp, simp, use label_nth [OF w] in blast)
  also have "\<dots> = emit_trimmed b (length p) ?j @ split_loop b (CHR ''.'') (?j + 1) (?j + 1)"
  proof -
    have "?j < length b" "b ! ?j = CHR ''.''" by (simp_all add: b nth_append)
    then show ?thesis by (subst split_loop.simps) simp
  qed
  also have "split_loop b (CHR ''.'') (?j + 1) (?j + 1) = v # ws"
  proof -
    have "split_loop b (CHR ''.'') (length (p @ w @ ''.'')) (length (p @ w @ ''.'')) = v # ws"
      using "3.prems"(1) b by (intro "3.IH") auto
    then show ?thesis by simp
  qed
  finally show ?case using emit_label [OF w, of p "CHR ''.'' # ?r"] b by simp
qed simp

lemma split_join: "\<forall>w\<in>set ws. label w \<Longrightarrow> ws \<noteq> [] \<Longrightarrow> split (join_dots ws) (CHR ''.'') = ws"
  using split_loop_labels [of ws "join_dots ws" "[]"] by (simp add: split_def)

lemma component_match_plain: "CHR ''*'' \<notin> set p \<Longrightarrow> component_match p h \<longleftrightarrow> p = h"
  by (auto simp: component_match_def in_set_conv_nth)

lemma component_match_star: "component_match ''*'' h" by (simp add: component_match_def)

text \<open>C35: a certificate name with a leading star label matches a host name exactly
  when the remaining labels are the same: the star stands for one label, never for several.\<close>

theorem check_host_name_wildcard:
  assumes "\<forall>w\<in>set ds \<union> set hs. label w \<and> CHR ''*'' \<notin> set w" "hs \<noteq> []"
  shows "check_host_name (join_dots (''*'' # ds)) (join_dots hs) \<longleftrightarrow> tl hs = ds"
proof -
  have star: "label ''*''" by (simp add: label_def is_space_or_tab_def)
  have sp: "split (join_dots hs) (CHR ''.'') = hs"
    "split (join_dots (''*'' # ds)) (CHR ''.'') = ''*'' # ds"
    using assms star by (auto intro!: split_join)
  have ne: "join_dots hs \<noteq> join_dots (''*'' # ds)"
  proof
    assume "join_dots hs = join_dots (''*'' # ds)"
    then have "hs = ''*'' # ds" using sp by metis
    with assms show False by auto
  qed
  have "list_all2 component_match ds t \<longleftrightarrow> t = ds" if "length t = length ds" for t
  proof -
    have "component_match (ds ! i) h \<longleftrightarrow> ds ! i = h" if "i < length ds" for i h
      using assms(1) that by (intro component_match_plain) auto
    then show ?thesis using \<open>length t = length ds\<close>
      by (auto simp: list_all2_conv_all_nth list_eq_iff_nth_eq)
  qed
  then show ?thesis using assms(2) ne sp
    by (cases hs) (auto simp: check_host_name_def Let_def component_match_star)
qed

theorem check_host_name_wildcard_witness:
  "check_host_name (join_dots (''*'' # [''example'', ''com''])) (join_dots [''www'', ''example'', ''com''])
    \<longleftrightarrow> tl [''www'', ''example'', ''com''] = [''example'', ''com'']"
  by (rule check_host_name_wildcard) (auto simp: label_def is_space_or_tab_def)

text \<open>a label that ends in a star matches the text before the star or itself, and
  nothing longer: the code compares the prefix of the pattern with the whole label.\<close>

theorem partial_wildcard:
  assumes "p \<noteq> []"
  shows "component_match (p @ ''*'') h \<longleftrightarrow> h = p \<or> h = p @ ''*''"
  using assms by (auto simp: component_match_def nth_append)

theorem partial_wildcard_witness: "component_match (''foo'' @ ''*'') ''foobar'' \<longleftrightarrow> ''foobar'' = ''foo'' \<or> ''foobar'' = ''foo'' @ ''*''"
  by (rule partial_wildcard) simp
end
