(* ===== verification/Effects.thy ===== *)
theory Effects
  imports Prelude
begin

text \<open>
  How the development writes code that talks to the operating system. An action runs on a
  history, the list of the calls made so far, and returns a value or leaves early with an
  exception value, together with the longer history. What a call returns is an oracle: a function
  of the history that belongs to the environment the theorems quantify over, so every result the
  system may give at that moment is covered. The triples \<open>hoare\<close>, computed backwards by \<open>wp\<close>, carry the proofs about the
  histories of an action.
\<close>

type_synonym ('v, 'e, 'a) act = "'v list \<Rightarrow> ('e + 'a) \<times> 'v list"

definition ret :: "'a \<Rightarrow> ('v, 'e, 'a) act" where
  "ret x = (\<lambda>h. (Inr x, h))"

definition raise :: "'e \<Rightarrow> ('v, 'e, 'a) act" where
  "raise e = (\<lambda>h. (Inl e, h))"

definition bnd :: "('v, 'e, 'a) act \<Rightarrow> ('a \<Rightarrow> ('v, 'e, 'b) act) \<Rightarrow> ('v, 'e, 'b) act" where
  "bnd m f = (\<lambda>h. case m h of (Inl e, h') \<Rightarrow> (Inl e, h') | (Inr x, h') \<Rightarrow> f x h')"

definition then_do :: "('v, 'e, 'a) act \<Rightarrow> ('v, 'e, 'b) act \<Rightarrow> ('v, 'e, 'b) act" where
  "then_do m n = bnd m (\<lambda>_. n)"

definition emit :: "'v \<Rightarrow> ('v, 'e, unit) act" where
  "emit v = (\<lambda>h. (Inr (), h @ [v]))"

text \<open>A call: its result is what the oracle answers after the history, its event carries the
  arguments and the result.\<close>

definition sys :: "('a \<Rightarrow> 'v) \<Rightarrow> ('v list \<Rightarrow> 'a) \<Rightarrow> ('v, 'e, 'a) act" where
  "sys v f = (\<lambda>h. (Inr (f h), h @ [v (f h)]))"

definition ask :: "('v list \<Rightarrow> 'a) \<Rightarrow> ('v, 'e, 'a) act" where
  "ask f = (\<lambda>h. (Inr (f h), h))"

definition cond :: "bool \<Rightarrow> ('v, 'e, unit) act \<Rightarrow> ('v, 'e, unit) act" where
  "cond b m = (if b then m else ret ())"

definition the_or :: "'e \<Rightarrow> 'a option \<Rightarrow> ('v, 'e, 'a) act" where
  "the_or e x = (case x of None \<Rightarrow> raise e | Some y \<Rightarrow> ret y)"

lemmas act_defs = ret_def raise_def bnd_def then_do_def emit_def sys_def ask_def cond_def the_or_def

lemma bnd_laws [simp]:
  "bnd (ret x) f = f x" "bnd (raise e) f = raise e" "bnd m ret = m"
  "bnd (bnd m f) g = bnd m (\<lambda>x. bnd (f x) g)"
  by (auto simp: act_defs fun_eq_iff split: prod.splits sum.splits)

section \<open>Weakest preconditions and triples\<close>

text \<open>From the history \<open>h\<close> the action ends in \<open>Q\<close> of its value, or in \<open>E\<close> of its exception.
  The rewrite rules \<open>wp_simps\<close> compute the condition for straight code; a loop is proved once as a
  triple and used by \<open>wp_use\<close>.\<close>

definition wp :: "('v, 'e, 'a) act \<Rightarrow> ('a \<Rightarrow> 'v list \<Rightarrow> bool) \<Rightarrow> ('e \<Rightarrow> 'v list \<Rightarrow> bool)
    \<Rightarrow> 'v list \<Rightarrow> bool" where
  "wp m Q E h = (case m h of (Inl e, h') \<Rightarrow> E e h' | (Inr x, h') \<Rightarrow> Q x h')"

definition hoare :: "('v list \<Rightarrow> bool) \<Rightarrow> ('v, 'e, 'a) act \<Rightarrow> ('a \<Rightarrow> 'v list \<Rightarrow> bool)
    \<Rightarrow> ('e \<Rightarrow> 'v list \<Rightarrow> bool) \<Rightarrow> bool" where
  "hoare P m Q E = (\<forall>h. P h \<longrightarrow> wp m Q E h)"

lemma wp_basic:
  "wp (ret x) Q E h = Q x h" "wp (raise e) Q E h = E e h" "wp (emit u) R E h = R () (h @ [u])"
  "wp (sys v f) Q E h = Q (f h) (h @ [v (f h)])" "wp (ask g) Q E h = Q (g h) h"
  by (simp_all add: wp_def act_defs)

lemma wp_bnd: "wp (bnd m f) Q E h = wp m (\<lambda>x. wp (f x) Q E) E h"
  by (auto simp: wp_def bnd_def split: prod.splits sum.splits)

lemma wp_then_do: "wp (then_do m n) Q E h = wp m (\<lambda>_. wp n Q E) E h"
  by (simp add: then_do_def wp_bnd)

lemma wp_choice:
  "wp (if b then m else n) Q E h = (if b then wp m Q E h else wp n Q E h)"
  "wp (cond b u) R E h = (if b then wp u R E h else R () h)"
  by (simp_all add: cond_def wp_basic)

lemma wp_the_or: "wp (the_or e x) Q E h = (case x of None \<Rightarrow> E e h | Some y \<Rightarrow> Q y h)"
  by (auto simp: the_or_def wp_basic split: option.splits)

lemma wp_option:
  "wp (case x of None \<Rightarrow> m | Some y \<Rightarrow> n y) Q E h
    = (case x of None \<Rightarrow> wp m Q E h | Some y \<Rightarrow> wp (n y) Q E h)"
  by (simp split: option.splits)

lemma wp_prod: "wp (case x of (a, b) \<Rightarrow> n a b) Q E h = (case x of (a, b) \<Rightarrow> wp (n a b) Q E h)"
  by (simp split: prod.splits)

lemma wp_let: "wp (Let x f) Q E h = wp (f x) Q E h"
  by simp

lemmas wp_simps = wp_basic wp_bnd wp_then_do wp_choice wp_the_or wp_option wp_prod wp_let

lemma wp_mono:
  assumes "wp m Q' E' h" "\<And>x h. Q' x h \<Longrightarrow> Q x h" "\<And>e h. E' e h \<Longrightarrow> E e h"
  shows "wp m Q E h"
  using assms by (auto simp: wp_def split: prod.splits sum.splits)

lemma wp_any: "(\<And>x h. wp (f x) Q (\<lambda>_ _. True) h) \<Longrightarrow> wp (bnd m f) Q (\<lambda>_ _. True) h"
  by (simp add: wp_bnd) (simp add: wp_def split: prod.splits sum.splits)

lemma wp_bnd_ret: "wp (bnd m (\<lambda>x. ret (f x))) Q E h = wp m (\<lambda>x h. Q (f x) h) E h"
  by (auto simp: wp_def bnd_def ret_def split: prod.splits sum.splits)

lemma wp_use:
  assumes "hoare P m Q' E'" "P h" "\<And>x h. Q' x h \<Longrightarrow> Q x h" "\<And>e h. E' e h \<Longrightarrow> E e h"
  shows "wp m Q E h"
proof -
  have "wp m Q' E' h" using assms(1,2) by (simp add: hoare_def)
  then show ?thesis using assms(3,4) by (auto simp: wp_def split: prod.splits sum.splits)
qed

lemma hoareI: "(\<And>h. P h \<Longrightarrow> wp m Q E h) \<Longrightarrow> hoare P m Q E"
  by (simp add: hoare_def)

lemma hoareD: "hoare P m Q E \<Longrightarrow> P h \<Longrightarrow> wp m Q E h"
  by (simp add: hoare_def)

lemma wp_run: "wp m Q E h \<Longrightarrow> m h = (Inr x, h') \<Longrightarrow> Q x h'" "wp m Q E h \<Longrightarrow> m h = (Inl e, h') \<Longrightarrow> E e h'"
  by (simp_all add: wp_def)

lemma hoare_ret: "(\<And>h. P h \<Longrightarrow> Q x h) \<Longrightarrow> hoare P (ret x) Q E"
  by (simp add: hoare_def wp_basic)

lemma hoare_then_do:
  assumes "hoare P m (\<lambda>_. R) E" "hoare R n Q E"
  shows "hoare P (then_do m n) Q E"
proof (rule hoareI)
  fix h assume "P h"
  then show "wp (then_do m n) Q E h"
    unfolding wp_then_do by (rule wp_use [OF assms(1)]) (use assms(2) in \<open>simp_all add: hoare_def\<close>)
qed

lemma hoare_bnd:
  assumes "hoare P m R E" "\<And>x. hoare (R x) (f x) Q E"
  shows "hoare P (bnd m f) Q E"
proof (rule hoareI)
  fix h assume "P h"
  then show "wp (bnd m f) Q E h"
    unfolding wp_bnd by (rule wp_use [OF assms(1)]) (use assms(2) in \<open>simp_all add: hoare_def\<close>)
qed

section \<open>Histories only grow\<close>

definition grows :: "('v, 'e, 'a) act \<Rightarrow> bool" where
  "grows m = (\<forall>h. \<exists>t. snd (m h) = h @ t)"

named_theorems growth \<open>actions that only add to the history\<close>

lemma grows_basic [growth]:
  "grows (ret x)" "grows (raise e)" "grows (emit u)" "grows (sys v f)" "grows (ask g)"
  "grows (the_or e y)"
  by (auto simp: grows_def act_defs split: option.splits)

lemma grows_bnd [growth]:
  assumes "grows m" "\<And>x. grows (f x)"
  shows "grows (bnd m f)"
proof -
  have "\<exists>t. snd (bnd m f h) = h @ t" for h
  proof (cases "m h")
    case (Pair r h')
    obtain t where t: "h' = h @ t" using assms(1) Pair by (auto simp: grows_def) (metis snd_conv)
    show ?thesis
    proof (cases r)
      case (Inr x)
      obtain u where "snd (f x h') = h' @ u" using assms(2) by (auto simp: grows_def)
      then show ?thesis using Pair Inr t by (simp add: bnd_def)
    qed (use Pair t in \<open>simp add: bnd_def\<close>)
  qed
  then show ?thesis by (simp add: grows_def)
qed

lemma grows_more [growth]:
  "grows m \<Longrightarrow> grows n \<Longrightarrow> grows (then_do m n)"
  "(b \<Longrightarrow> grows m) \<Longrightarrow> (\<not> b \<Longrightarrow> grows n) \<Longrightarrow> grows (if b then m else n)"
  "grows u \<Longrightarrow> grows (cond b u)"
  by (auto simp: then_do_def cond_def intro: growth)

end
