(* ===== verification/Strings.thy ===== *)
theory Strings
  imports Prelude
begin

text \<open>
  Numbers in strings, as the C++ library reads and writes them: \<open>std::to_string\<close>, \<open>std::stoi\<close>
  with its two exceptions, \<open>atoi\<close> and \<open>strtol\<close> on decimal digits, and the character classes
  of the C locale. The round trip of \<open>to_string\<close> and \<open>stoi\<close> is what the users of ports rely on.
\<close>

definition is_c_space :: "char \<Rightarrow> bool" where
  "is_c_space c = (c \<in> {CHR '' '', CHR 0x09, CHR 0x0A, CHR 0x0B, CHR 0x0C, CHR 0x0D})"

definition is_digit :: "char \<Rightarrow> bool" where
  "is_digit c = (48 \<le> (of_char c :: int) \<and> (of_char c :: int) \<le> 57)"

definition digit_of :: "char \<Rightarrow> int" where
  "digit_of c = of_char c - 48"

definition digit_char :: "nat \<Rightarrow> char" where
  "digit_char d = char_of (48 + d)"

fun show_nat :: "nat \<Rightarrow> string" where
  "show_nat n = (if n < 10 then [digit_char n] else show_nat (n div 10) @ [digit_char (n mod 10)])"

declare show_nat.simps [simp del]

definition to_string :: "int \<Rightarrow> string" where
  "to_string n = (if n < 0 then CHR ''-'' # show_nat (nat (- n)) else show_nat (nat n))"

definition read_digits :: "string \<Rightarrow> int" where
  "read_digits s = foldl (\<lambda>a c. a * 10 + digit_of c) 0 s"

text \<open>The value of \<open>strtol\<close> in base 10 before its range check; None when there is no digit.\<close>

definition strtol10 :: "string \<Rightarrow> int option" where
  "strtol10 s =
     (let s1 = dropWhile is_c_space s;
          neg = (s1 \<noteq> [] \<and> hd s1 = CHR ''-'');
          s2 = (if s1 \<noteq> [] \<and> hd s1 \<in> {CHR ''-'', CHR ''+''} then tl s1 else s1);
          ds = takeWhile is_digit s2
      in if ds = [] then None else Some (if neg then - read_digits ds else read_digits ds))"

datatype 'a throws = Throws string | Returns 'a

definition stoi :: "string \<Rightarrow> int throws" where
  "stoi s = (case strtol10 s of
     None \<Rightarrow> Throws ''invalid_argument''
   | Some v \<Rightarrow> if v < - 2147483648 \<or> 2147483647 < v then Throws ''out_of_range'' else Returns v)"

text \<open>\<open>atoi\<close> is \<open>strtol\<close>, saturating at the limits of \<open>long\<close>, converted to \<open>int\<close>.\<close>

definition atoi :: "string \<Rightarrow> int" where
  "atoi s = (case strtol10 s of
     None \<Rightarrow> 0
   | Some v \<Rightarrow> sint (word_of_int (max (- (2 ^ 63)) (min (2 ^ 63 - 1) v)) :: 32 word))"

fun split_on :: "char \<Rightarrow> string \<Rightarrow> string \<Rightarrow> string list" where
  "split_on sep acc [] = [acc]"
| "split_on sep acc (c # cs) = (if c = sep then acc # split_on sep [] cs else split_on sep (acc @ [c]) cs)"

definition bytes_of :: "string \<Rightarrow> bytes" where
  "bytes_of s = map of_char s"

definition string_of :: "bytes \<Rightarrow> string" where
  "string_of b = map (\<lambda>x. char_of (unat x)) b"

lemma unat_of_char: "unat (of_char c :: byte) = of_char c"
proof -
  have "unat (word_of_nat (of_char c) :: byte) = of_char c"
    by (simp only: unsigned_of_nat) (simp add: take_bit_eq_mod)
  then show ?thesis by (simp only: of_nat_of_char)
qed

lemma string_of_bytes [simp]: "string_of (bytes_of s) = s"
  by (simp add: string_of_def bytes_of_def unat_of_char comp_def)

lemma bytes_of_string [simp]: "bytes_of (string_of b) = b"
proof -
  have "(of_char (char_of (unat x)) :: byte) = x" for x :: byte
    using unat_byte [of x] by (simp add: word_unat_eq_iff unat_of_char del: unat_byte)
  then show ?thesis by (simp add: string_of_def bytes_of_def comp_def map_idI)
qed

lemma string_lengths [simp]: "length (string_of b) = length b" "length (bytes_of s) = length s"
  by (simp_all add: string_of_def bytes_of_def)

text \<open>What a C function sees of a string: the characters before the first zero.\<close>

definition c_str :: "string \<Rightarrow> string" where
  "c_str s = takeWhile (\<lambda>c. c \<noteq> CHR 0x00) s"

definition CRLF :: string where
  "CRLF = [CHR 0x0D, CHR 0x0A]"

section \<open>Reading back what was written\<close>

lemma of_char_digit: "d < 10 \<Longrightarrow> (of_char (digit_char d) :: int) = 48 + int d"
proof -
  assume d: "d < 10"
  have "(of_char (char_of (48 + d)) :: nat) = 48 + d"
    using d by simp
  then have "int (of_char (digit_char d)) = 48 + int d" by (simp add: digit_char_def)
  then show ?thesis by (simp only: of_nat_of_char)
qed

lemma digit_char_props:
  "d < 10 \<Longrightarrow> is_digit (digit_char d)" "d < 10 \<Longrightarrow> digit_of (digit_char d) = int d"
  by (simp_all add: is_digit_def digit_of_def of_char_digit)

lemma digit_not_space: "is_digit c \<Longrightarrow> \<not> is_c_space c"
  by (auto simp: is_digit_def is_c_space_def)

lemma show_nat_digits: "show_nat n \<noteq> [] \<and> (\<forall>c\<in>set (show_nat n). is_digit c)"
proof (induction n rule: show_nat.induct)
  case (1 n)
  show ?case by (subst (1 2) show_nat.simps) (use 1 in \<open>auto simp: digit_char_props\<close>)
qed

lemma read_show_nat: "read_digits (show_nat n) = int n"
proof (induction n rule: show_nat.induct)
  case (1 n)
  show ?case
  proof (cases "n < 10")
    case True
    then show ?thesis by (subst show_nat.simps) (simp add: read_digits_def digit_char_props)
  next
    case False
    have "int (n div 10) * 10 + int (n mod 10) = int n" by presburger
    then show ?thesis using 1 False
      by (subst show_nat.simps) (simp add: read_digits_def digit_char_props)
  qed
qed

lemma takeWhile_id: "\<forall>c\<in>set s. P c \<Longrightarrow> takeWhile P s = s"
  by (simp add: takeWhile_eq_all_conv)

lemma digits_not_sign: "\<forall>c\<in>set s. is_digit c \<Longrightarrow> s \<noteq> [] \<Longrightarrow> hd s \<notin> {CHR ''-'', CHR ''+''} \<and> \<not> is_c_space (hd s)"
  by (cases s) (auto simp: is_digit_def is_c_space_def)

lemma strtol10_digits: "\<forall>c\<in>set s. is_digit c \<Longrightarrow> s \<noteq> [] \<Longrightarrow> strtol10 s = Some (read_digits s)"
  using digits_not_sign [of s] by (cases s) (auto simp: strtol10_def Let_def takeWhile_id)

lemma stoi_to_string:
  assumes "0 \<le> n" "n \<le> 2147483647"
  shows "stoi (to_string n) = Returns n"
  using assms show_nat_digits [of "nat n"]
  by (simp add: to_string_def stoi_def strtol10_digits read_show_nat)

end
