(* ===== verification/Os.thy ===== *)
theory Os
  imports Effects Strings
begin

text \<open>
  The operating system as the sources see it: the calls they make as events, their results as
  oracle functions of the history. The accessors \<open>recv_of\<close> and \<open>send_of\<close> keep the documented
  bound of the socket calls: no call transfers more bytes than it was asked to.
\<close>

datatype errno = EAGAIN | EINTR | EINPROGRESS | ETIMEDOUT | Errno nat

datatype 'a sysres = Ok 'a | Err errno

datatype sock_kind = SOCK_STREAM | SOCK_RAW | SOCK_DGRAM

datatype sockopt =
  SO_SNDBUF | IP_HDRINCL | IP_TTL | TCP_MAXSEG | SO_RCVBUFFORCE | SO_SNDTIMEO | SO_RCVTIMEO
  | SO_REUSEADDR | SO_ERROR | SO_ORIGINAL_DST | TCP_NODELAY

datatype sockaddr_in = Sockaddr (sin_addr: u32) (sin_port: u16)

text \<open>\<open>poll\<close>: an error, a timeout, or the returned events of each descriptor (whether one of
  POLLERR, POLLHUP and POLLNVAL is set, and whether POLLIN is).\<close>

datatype pollres = Poll_error errno | Poll_timeout | Poll_ready "(bool \<times> bool) list"

text \<open>The calls of \<open>libnl\<close>: the socket, the callbacks and the message it allocates, and the messages it
  delivers, with whether the callback for the end of a dump ran.\<close>

datatype nl_call =
    Nl_socket_alloc bool
  | Nl_socket_free
  | Genl_connect bool
  | Nl_close
  | Ctrl_resolve int
  | Nl_cb_alloc bool
  | Nl_cb_put
  | Nlmsg_alloc bool
  | Nlmsg_free
  | Nl_send bytes
  | Nl_recvmsgs "bytes list" bool

text \<open>The calls that concern the process: its start as a daemon, the pipe and the handlers of the signals, the
  file with its number, and the two threads beside the main one.\<close>

datatype proc_call =
    Fork int
  | Setsid bool
  | Chdir bool
  | Open_null "int option"
  | Dup int "int option"
  | Open_pipe "int option"
  | Handle_signal int bool
  | Write_pid string bool
  | Set_stop_flag bool
  | Spawn_monitor
  | Spawn_accept int
  | Join_accept
  | Join_monitor

datatype os_event =
    Socket sock_kind "int option"
  | Close int
  | Setsockopt int sockopt int bool
  | Getsockopt int sockopt "int option"
  | Fcntl_getfl int "u32 option"
  | Fcntl_setfl int u32 bool
  | Connect int sockaddr_in "unit sysres"
  | Clock_gettime "(int \<times> int) option"
  | Clock_ms int
  | Poll "int list" int pollres
  | Recv int nat "bytes sysres"
  | Send int bytes "nat sysres"
  | Sendto int sockaddr_in bytes bool
  | Getsockname int "u16 option"
  | Sleep_ms nat
  | Rand nat
  | Https_get string "string option" string "bytes option"
  | Sniff_start
  | Sniff_join
  | Bind int bool
  | Listen int bool
  | Ioctl int bool
  | Netlink nl_call
  | Process proc_call

type_synonym hist = "os_event list"

record os =
  os_socket :: "hist \<Rightarrow> sock_kind \<Rightarrow> int option"
  os_setsockopt :: "hist \<Rightarrow> int \<Rightarrow> sockopt \<Rightarrow> int \<Rightarrow> bool"
  os_getsockopt :: "hist \<Rightarrow> int \<Rightarrow> sockopt \<Rightarrow> int option"
  os_getfl :: "hist \<Rightarrow> int \<Rightarrow> u32 option"
  os_setfl :: "hist \<Rightarrow> int \<Rightarrow> u32 \<Rightarrow> bool"
  os_connect :: "hist \<Rightarrow> int \<Rightarrow> sockaddr_in \<Rightarrow> unit sysres"
  os_clock :: "hist \<Rightarrow> (int \<times> int) option"
  os_now_ms :: "hist \<Rightarrow> int"
  os_poll :: "hist \<Rightarrow> int list \<Rightarrow> int \<Rightarrow> pollres"
  os_recv :: "hist \<Rightarrow> int \<Rightarrow> nat \<Rightarrow> bytes sysres"
  os_send :: "hist \<Rightarrow> int \<Rightarrow> bytes \<Rightarrow> nat sysres"
  os_sendto :: "hist \<Rightarrow> int \<Rightarrow> sockaddr_in \<Rightarrow> bytes \<Rightarrow> bool"
  os_getsockname :: "hist \<Rightarrow> int \<Rightarrow> u16 option"
  os_rand :: "hist \<Rightarrow> nat"

definition recv_of :: "os \<Rightarrow> hist \<Rightarrow> int \<Rightarrow> nat \<Rightarrow> bytes sysres" where
  "recv_of e h fd n = (case os_recv e h fd n of Ok d \<Rightarrow> Ok (take n d) | Err x \<Rightarrow> Err x)"

definition send_of :: "os \<Rightarrow> hist \<Rightarrow> int \<Rightarrow> bytes \<Rightarrow> nat sysres" where
  "send_of e h fd d = (case os_send e h fd d of Ok k \<Rightarrow> Ok (min k (length d)) | Err x \<Rightarrow> Err x)"

text \<open>The numbers of \<open>errno\<close> that the sources compare with, as Linux has them.\<close>

definition errno_of :: "int \<Rightarrow> errno" where
  "errno_of n = (if n = 4 then EINTR else if n = 11 then EAGAIN else if n = 115 then EINPROGRESS
     else if n = 110 then ETIMEDOUT else Errno (nat n))"

definition O_NONBLOCK :: u32 where
  "O_NONBLOCK = 0x800"

text \<open>Conversion to \<open>int\<close>, and the division of C.\<close>

definition c_int :: "int \<Rightarrow> int" where
  "c_int x = sint (word_of_int x :: 32 word)"

definition c_div :: "int \<Rightarrow> int \<Rightarrow> int" where
  "c_div a b = (if (a < 0) = (b < 0) then \<bar>a\<bar> div \<bar>b\<bar> else - (\<bar>a\<bar> div \<bar>b\<bar>))"

text \<open>How a function ends early: it returns, it meets undefined behaviour, an exception leaves
  it, the process ends in \<open>std::terminate\<close>, it waits for an event that never comes, or the given
  fuel is used up.\<close>

datatype stop = Return int | Undefined | Throw string | Terminate | Blocked | Out_of_fuel

type_synonym 'a io = "(os_event, stop, 'a) act"

definition socket :: "os \<Rightarrow> sock_kind \<Rightarrow> int option io" where
  "socket e k = sys (Socket k) (\<lambda>h. os_socket e h k)"

definition close :: "int \<Rightarrow> unit io" where
  "close fd = emit (Close fd)"

definition setsockopt :: "os \<Rightarrow> int \<Rightarrow> sockopt \<Rightarrow> int \<Rightarrow> bool io" where
  "setsockopt e fd opt v = sys (Setsockopt fd opt v) (\<lambda>h. os_setsockopt e h fd opt v)"

definition getsockopt :: "os \<Rightarrow> int \<Rightarrow> sockopt \<Rightarrow> int option io" where
  "getsockopt e fd opt = sys (Getsockopt fd opt) (\<lambda>h. os_getsockopt e h fd opt)"

definition connect :: "os \<Rightarrow> int \<Rightarrow> sockaddr_in \<Rightarrow> unit sysres io" where
  "connect e fd a = sys (Connect fd a) (\<lambda>h. os_connect e h fd a)"

definition clock_gettime :: "os \<Rightarrow> (int \<times> int) option io" where
  "clock_gettime e = sys Clock_gettime (os_clock e)"

definition now_ms :: "os \<Rightarrow> int io" where
  "now_ms e = sys Clock_ms (os_now_ms e)"

definition poll :: "os \<Rightarrow> int list \<Rightarrow> int \<Rightarrow> pollres io" where
  "poll e fds t = sys (Poll fds t) (\<lambda>h. os_poll e h fds t)"

definition recv :: "os \<Rightarrow> int \<Rightarrow> nat \<Rightarrow> bytes sysres io" where
  "recv e fd n = sys (Recv fd n) (\<lambda>h. recv_of e h fd n)"

definition send :: "os \<Rightarrow> int \<Rightarrow> bytes \<Rightarrow> nat sysres io" where
  "send e fd d = sys (Send fd d) (\<lambda>h. send_of e h fd d)"

definition sendto :: "os \<Rightarrow> int \<Rightarrow> sockaddr_in \<Rightarrow> bytes \<Rightarrow> bool io" where
  "sendto e fd a d = sys (Sendto fd a d) (\<lambda>h. os_sendto e h fd a d)"

definition getsockname :: "os \<Rightarrow> int \<Rightarrow> u16 option io" where
  "getsockname e fd = sys (Getsockname fd) (\<lambda>h. os_getsockname e h fd)"

definition fcntl_getfl :: "os \<Rightarrow> int \<Rightarrow> u32 option io" where
  "fcntl_getfl e fd = sys (Fcntl_getfl fd) (\<lambda>h. os_getfl e h fd)"

definition fcntl_setfl :: "os \<Rightarrow> int \<Rightarrow> u32 \<Rightarrow> bool io" where
  "fcntl_setfl e fd fl = sys (Fcntl_setfl fd fl) (\<lambda>h. os_setfl e h fd fl)"

definition sleep_ms :: "nat \<Rightarrow> unit io" where
  "sleep_ms n = emit (Sleep_ms n)"

definition rand :: "os \<Rightarrow> nat io" where
  "rand e = sys Rand (os_rand e)"

text \<open>The value of a function whose body may return early.\<close>

definition returning :: "int io \<Rightarrow> int io" where
  "returning m = (\<lambda>h. case m h of (Inl (Return r), h') \<Rightarrow> (Inr r, h') | x \<Rightarrow> x)"

lemma wp_returning:
  "wp (returning m) Q E h = wp m Q (\<lambda>x h. case x of Return r \<Rightarrow> Q r h | _ \<Rightarrow> E x h) h"
  by (auto simp: wp_def returning_def split: prod.splits sum.splits stop.splits)

lemmas os_calls = socket_def close_def setsockopt_def getsockopt_def connect_def clock_gettime_def
  now_ms_def poll_def recv_def send_def sendto_def getsockname_def rand_def
  fcntl_getfl_def fcntl_setfl_def sleep_ms_def

lemma os_grows [growth]:
  "grows (socket e k)" "grows (close fd)" "grows (setsockopt e fd opt v)" "grows (getsockopt e fd opt)"
  "grows (connect e fd a)" "grows (clock_gettime e)" "grows (now_ms e)" "grows (poll e fds t)"
  "grows (recv e fd n)" "grows (send e fd d)" "grows (sendto e fd a d)" "grows (getsockname e fd)"
  "grows (rand e)" "grows (fcntl_getfl e fd)" "grows (fcntl_setfl e fd fl)" "grows (sleep_ms n)"
  by (simp_all add: os_calls growth)

text \<open>\<open>inet_pton(AF_INET, ...)\<close>: four decimal numbers up to 255 without leading zeros. The address
  is the number of the four bytes in network order.\<close>

fun pton_loop :: "string \<Rightarrow> int option \<Rightarrow> int list \<Rightarrow> int list option" where
  "pton_loop [] cur parts = (case cur of None \<Rightarrow> None
     | Some v \<Rightarrow> if length parts = 3 then Some (parts @ [v]) else None)"
| "pton_loop (c # cs) cur parts =
     (if 48 \<le> (of_char c :: int) \<and> (of_char c :: int) \<le> 57 then
        (let d = of_char c - 48
         in case cur of
              None \<Rightarrow> pton_loop cs (Some d) parts
            | Some v \<Rightarrow> if v = 0 \<or> 255 < v * 10 + d then None else pton_loop cs (Some (v * 10 + d)) parts)
      else if c = CHR ''.'' then
        (case cur of
           None \<Rightarrow> None
         | Some v \<Rightarrow> if length parts = 3 then None else pton_loop cs None (parts @ [v]))
      else None)"

definition inet_pton :: "string \<Rightarrow> u32 option" where
  "inet_pton s = map_option (\<lambda>p. word_of_int (foldl (\<lambda>a b. a * 256 + b) 0 p)) (pton_loop (c_str s) None [])"

text \<open>\<open>inet_aton\<close> and \<open>inet_addr\<close>: one to four numbers, decimal, octal or hexadecimal, the last of
  which fills the remaining bytes; a white space character ends the address.\<close>

fun parse_digits :: "int \<Rightarrow> string \<Rightarrow> int \<Rightarrow> int option" where
  "parse_digits base [] acc = Some acc"
| "parse_digits base (c # cs) acc =
     (let n = of_char c;
          d = (if 48 \<le> n \<and> n \<le> 57 then n - 48 else if 97 \<le> n \<and> n \<le> 102 then n - 87
               else if 65 \<le> n \<and> n \<le> 70 then n - 55 else 99)
      in if d < base then parse_digits base cs (acc * base + d) else None)"

definition parse_ul :: "string \<Rightarrow> int option" where
  "parse_ul s = (case s of
     [] \<Rightarrow> None
   | c # cs \<Rightarrow>
       if c = CHR ''0'' \<and> 2 < length s \<and> (s ! 1 = CHR ''x'' \<or> s ! 1 = CHR ''X'')
       then parse_digits 16 (drop 2 s) 0
       else if c = CHR ''0'' then parse_digits 8 cs 0 else parse_digits 10 s 0)"

fun aton_combine :: "int \<Rightarrow> int \<Rightarrow> int option list \<Rightarrow> int option" where
  "aton_combine limit acc [Some v] = (if v < limit then Some (acc * limit + v) else None)"
| "aton_combine limit acc (Some v # p # ps) =
     (if v < 256 \<and> 256 < limit then aton_combine (limit div 256) (acc * 256 + v) (p # ps) else None)"
| "aton_combine limit acc _ = None"

definition inet_aton :: "string \<Rightarrow> u32 option" where
  "inet_aton s = map_option word_of_int
     (aton_combine 0x100000000 0 (map parse_ul (split_on (CHR ''.'') [] (takeWhile (Not \<circ> is_c_space) (c_str s)))))"

definition inet_addr :: "string \<Rightarrow> u32" where
  "inet_addr s = (case inet_aton s of None \<Rightarrow> 0xFFFFFFFF | Some a \<Rightarrow> a)"

section \<open>Reasoning about calls\<close>

lemma wp_sysres:
  "wp (case x of Ok y \<Rightarrow> m y | Err r \<Rightarrow> n r) Q E h
    = (case x of Ok y \<Rightarrow> wp (m y) Q E h | Err r \<Rightarrow> wp (n r) Q E h)"
  by (simp split: sysres.splits)

lemma wp_pollres:
  "wp (case x of Poll_error er \<Rightarrow> a er | Poll_timeout \<Rightarrow> b | Poll_ready rs \<Rightarrow> c rs) Q E h
    = (case x of Poll_error er \<Rightarrow> wp (a er) Q E h | Poll_timeout \<Rightarrow> wp b Q E h | Poll_ready rs \<Rightarrow> wp (c rs) Q E h)"
  by (simp split: pollres.splits)

lemmas os_wp = wp_simps wp_returning wp_sysres wp_pollres os_calls

lemma recv_of_bound: "recv_of e h fd n = Ok d \<Longrightarrow> length d \<le> n"
  by (auto simp: recv_of_def split: sysres.splits)

lemma send_of_bound: "send_of e h fd d = Ok k \<Longrightarrow> k \<le> length d"
  by (auto simp: send_of_def split: sysres.splits)

text \<open>A system on which every call succeeds: sockets are numbered, the peer accepts all bytes
  and has nothing to say, the clock ticks with each call.\<close>

definition willing_os :: os where
  "willing_os = \<lparr> os_socket = \<lambda>h k. Some (3 + int (length h)), os_setsockopt = \<lambda>h fd opt v. True,
     os_getsockopt = \<lambda>h fd opt. Some (if opt = TCP_MAXSEG then 1460 else if opt = IP_TTL then 64 else 0),
     os_getfl = \<lambda>h fd. Some 0x802, os_setfl = \<lambda>h fd fl. True, os_connect = \<lambda>h fd a. Ok (),
     os_clock = \<lambda>h. Some (int (length h), 0), os_now_ms = \<lambda>h. int (length h),
     os_poll = \<lambda>h fds t. Poll_timeout, os_recv = \<lambda>h fd n. Ok [], os_send = \<lambda>h fd d. Ok (length d),
     os_sendto = \<lambda>h fd a d. True, os_getsockname = \<lambda>h fd. Some 40000, os_rand = \<lambda>h. 7 * length h \<rparr>"

end
