(* ===== verification/Socket.thy ===== *)
theory Socket
  imports Os Settings
begin

text \<open>
  The stream side of \<open>socket.cpp\<close>: \<open>connect_with_timeout\<close>, \<open>recv_string\<close>, \<open>send_string\<close> and
  \<open>send_string_raw\<close>. The loops have no bound of their own (a call may be interrupted for
  ever), so they take fuel; the theorems say when it is enough. \<open>accepted\<close> is the byte
  stream that the peer of a descriptor gets.
\<close>

section \<open>\<open>connect_with_timeout\<close>\<close>

text \<open>The inner loop: wait until the deadline for the connection, again when interrupted. Its
  value is the variable \<open>rc\<close> after the loop.\<close>

fun wait_connected :: "nat \<Rightarrow> os \<Rightarrow> int \<Rightarrow> int \<times> int \<Rightarrow> int io" where
  "wait_connected 0 e fd deadline = raise Out_of_fuel"
| "wait_connected (Suc n) e fd deadline =
     bnd (clock_gettime e) (\<lambda>now.
       case now of
         None \<Rightarrow> ret (-1)
       | Some (s, ns) \<Rightarrow>
           (let ms = c_int ((fst deadline - s) * 1000 + c_div (snd deadline - ns) 1000000)
            in if ms < 0 then ret 0
               else bnd (poll e [fd] ms) (\<lambda>p.
                 case p of
                   Poll_error er \<Rightarrow>
                     if er = EINTR then wait_connected n e fd deadline else ret (-1)
                 | Poll_timeout \<Rightarrow> ret 0
                 | Poll_ready rs \<Rightarrow>
                     bnd (getsockopt e fd SO_ERROR) (\<lambda>r.
                       case r of
                         None \<Rightarrow> ret 1
                       | Some err \<Rightarrow>
                           if err = 0 then ret 1
                           else if errno_of err = EINTR then wait_connected n e fd deadline
                           else ret (-1)))))"

definition start_connect :: "nat \<Rightarrow> os \<Rightarrow> int \<Rightarrow> sockaddr_in \<Rightarrow> u32 \<Rightarrow> int io" where
  "start_connect fuel e fd addr timeout_ms =
     bnd (connect e fd addr) (\<lambda>c.
       case c of
         Ok _ \<Rightarrow> ret 0
       | Err er \<Rightarrow>
           if er \<noteq> EAGAIN \<and> er \<noteq> EINPROGRESS then ret (-1)
           else bnd (clock_gettime e) (\<lambda>now.
             case now of
               None \<Rightarrow> ret (-1)
             | Some (s, ns) \<Rightarrow>
                 bnd (wait_connected fuel e fd (s, ns + uint timeout_ms * 1000000)) (\<lambda>rc.
                   ret (if rc = 0 then -1 else rc))))"

text \<open>\<open>sockfd_flags_before = fcntl(...) < 0\<close> stores the comparison, not the flags.\<close>

definition connect_with_timeout :: "nat \<Rightarrow> os \<Rightarrow> int \<Rightarrow> sockaddr_in \<Rightarrow> u32 \<Rightarrow> int io" where
  "connect_with_timeout fuel e fd addr timeout_ms =
     bnd (fcntl_getfl e fd) (\<lambda>fl.
       let flags_before = (if fl = None then 1 else 0 :: u32)
       in if flags_before \<noteq> 0 then ret (-1)
          else bnd (fcntl_setfl e fd (flags_before OR O_NONBLOCK)) (\<lambda>ok.
            if \<not> ok then ret (-1)
            else bnd (start_connect fuel e fd addr timeout_ms) (\<lambda>rc.
              bnd (fcntl_setfl e fd flags_before) (\<lambda>ok.
                if \<not> ok then ret (-1) else ret rc))))"

section \<open>\<open>recv_string\<close>\<close>

text \<open>The receive loop: the value of \<open>read_size\<close> it leaves with, as the bytes read (empty when
  the call would block), or an early return. \<open>message\<close> keeps what the call did not overwrite.\<close>

definition overwrite :: "bytes \<Rightarrow> bytes \<Rightarrow> bytes" where
  "overwrite d message = d @ drop (length d) message"

record recv_out =
  r_ret :: int
  r_message :: bytes
  r_last_char :: u32
  r_recv_time :: "u32 option"

definition recv_done :: "os \<Rightarrow> int \<Rightarrow> int option \<Rightarrow> bytes \<Rightarrow> int \<Rightarrow> int \<Rightarrow> recv_out \<Rightarrow> recv_out io" where
  "recv_done e fd timeout d start stop o' =
     (let o1 = o'\<lparr>r_message := overwrite d (r_message o'),
            r_recv_time := (case r_recv_time o' of
                None \<Rightarrow> None
              | Some t \<Rightarrow> Some (if t \<noteq> 0 then word_of_int (stop - start) else t))\<rparr>;
          done = o1\<lparr>r_ret := 0, r_last_char := word_of_nat (length d)\<rparr>
      in if timeout \<noteq> None then
           bnd (setsockopt e fd SO_RCVTIMEO 10) (\<lambda>ok.
             if \<not> ok then ret (o1\<lparr>r_ret := -1\<rparr>) else ret done)
         else ret done)"

fun recv_loop :: "nat \<Rightarrow> os \<Rightarrow> int \<Rightarrow> int option \<Rightarrow> int \<Rightarrow> recv_out \<Rightarrow> recv_out io" where
  "recv_loop 0 e fd timeout start o' = raise Out_of_fuel"
| "recv_loop (Suc n) e fd timeout start o' =
     bnd (recv e fd (length (r_message o'))) (\<lambda>r.
     bnd (if r_recv_time o' \<noteq> None then now_ms e else ret 0) (\<lambda>stop.
       case r of
         Err er \<Rightarrow>
           if er = EAGAIN then ret (o'\<lparr>r_ret := 0, r_last_char := 0\<rparr>)
           else if er = EINTR then recv_loop n e fd timeout start o'
           else ret (o'\<lparr>r_ret := -1\<rparr>)
       | Ok [] \<Rightarrow> ret (o'\<lparr>r_ret := -1, r_last_char := 0\<rparr>)
       | Ok d \<Rightarrow> recv_done e fd timeout d start stop o'))"

definition recv_string :: "nat \<Rightarrow> os \<Rightarrow> int \<Rightarrow> bytes \<Rightarrow> u32 \<Rightarrow> int option \<Rightarrow> u32 option \<Rightarrow> recv_out io" where
  "recv_string fuel e fd message last_char timeout recv_time =
     (let o' = \<lparr>r_ret = 0, r_message = message, r_last_char = last_char, r_recv_time = recv_time\<rparr>
      in bnd (if recv_time \<noteq> None then now_ms e else ret 0) (\<lambda>start.
         case timeout of
           None \<Rightarrow> recv_loop fuel e fd timeout start o'
         | Some t \<Rightarrow>
             bnd (setsockopt e fd SO_RCVTIMEO t) (\<lambda>ok.
               if \<not> ok then ret (o'\<lparr>r_ret := -1\<rparr>)
               else recv_loop fuel e fd timeout start o')))"

section \<open>\<open>send_string\<close>\<close>

text \<open>The size of the next \<open>send\<close>. The conditional operator binds weaker than the comparison in
  its middle, which is therefore a truth value: a rest shorter than the split position goes out
  one byte at a time.\<close>

definition chunk_size :: "nat \<Rightarrow> nat \<Rightarrow> nat" where
  "chunk_size rest split_pos =
     (if split_pos = 0 then rest
      else if rest < split_pos then (if rest < split_pos then 1 else 0)
      else split_pos)"

fun send_loop :: "nat \<Rightarrow> os \<Rightarrow> int \<Rightarrow> bytes \<Rightarrow> nat \<Rightarrow> nat \<Rightarrow> nat \<Rightarrow> int io" where
  "send_loop 0 e fd s last_char split_pos offset = raise Out_of_fuel"
| "send_loop (Suc n) e fd s last_char split_pos offset =
     (if last_char - offset = 0 then ret 0
      else let size = chunk_size (last_char - offset) split_pos
      in if length s + 1 < offset + size then raise Undefined
         else bnd (send e fd (take size (drop offset (s @ [0])))) (\<lambda>r.
           case r of
             Err er \<Rightarrow>
               if er = EAGAIN then
                 then_do (sleep_ms 5) (send_loop n e fd s last_char split_pos offset)
               else if er = EINTR then send_loop n e fd s last_char split_pos offset
               else ret (-1)
           | Ok k \<Rightarrow>
               if k = 0 then ret (-1)
               else send_loop n e fd s last_char split_pos (offset + k)))"

definition send_string :: "nat \<Rightarrow> os \<Rightarrow> int \<Rightarrow> bytes \<Rightarrow> u32 \<Rightarrow> u32 \<Rightarrow> int io" where
  "send_string fuel e fd s last_char split_pos =
     (if last_char = 0 then ret 0
      else send_loop fuel e fd s (unat last_char) (unat split_pos) 0)"

definition send_string_raw :: "os \<Rightarrow> int \<Rightarrow> bytes \<Rightarrow> u32 \<Rightarrow> sockaddr_in \<Rightarrow> int io" where
  "send_string_raw e fd s last_char serv_addr =
     (if last_char = 0 then ret 0
      else bnd (sendto e fd serv_addr (take (unat last_char) s)) (\<lambda>ok. if ok then ret 0 else ret (-1)))"

section \<open>What the peer gets\<close>

text \<open>\<open>accepted\<close> is the byte stream the system took over on a descriptor, \<open>interrupted\<close> the number
  of its sends that had to be repeated.\<close>

definition piece :: "int \<Rightarrow> os_event \<Rightarrow> bytes" where
  "piece fd ev = (case ev of Send fd' d (Ok k) \<Rightarrow> if fd' = fd then take k d else [] | _ \<Rightarrow> [])"

definition accepted :: "int \<Rightarrow> hist \<Rightarrow> bytes" where
  "accepted fd h = concat (map (piece fd) h)"

definition stalled :: "int \<Rightarrow> os_event \<Rightarrow> nat" where
  "stalled fd ev = (case ev of Send fd' d (Err x) \<Rightarrow> (if fd' = fd \<and> (x = EAGAIN \<or> x = EINTR) then 1 else 0)
     | _ \<Rightarrow> 0)"

definition interrupted :: "int \<Rightarrow> hist \<Rightarrow> nat" where
  "interrupted fd h = sum_list (map (stalled fd) h)"

lemma accepted_append [simp]:
  "accepted fd (h @ t) = accepted fd h @ accepted fd t"
  "accepted fd (ev # t) = piece fd ev @ accepted fd t" "accepted fd [] = []"
  by (simp_all add: accepted_def)

lemma interrupted_append [simp]:
  "interrupted fd (h @ t) = interrupted fd h + interrupted fd t"
  "interrupted fd (ev # t) = stalled fd ev + interrupted fd t" "interrupted fd [] = 0"
  by (simp_all add: interrupted_def)

lemma piece_simps [simp]:
  "piece fd (Send fd d (Ok k)) = take k d" "piece fd (Send fd' d (Err x)) = []"
  "piece fd (Sleep_ms n) = []" "stalled fd (Sleep_ms n) = 0" "stalled fd (Send fd' d (Ok k)) = 0"
  "stalled fd (Send fd d (Err EAGAIN)) = 1" "stalled fd (Send fd d (Err EINTR)) = 1"
  by (simp_all add: piece_def stalled_def)

definition delivered :: "bytes \<Rightarrow> bytes \<Rightarrow> nat \<Rightarrow> int \<Rightarrow> hist \<Rightarrow> bool" where
  "delivered A s n fd h = (accepted fd h = A @ take n s)"

lemma chunk_size_bound: "0 < rest \<Longrightarrow> 0 < chunk_size rest p \<and> chunk_size rest p \<le> rest"
  by (simp add: chunk_size_def)

lemma send_loop_hoare:
  assumes "lc \<le> length s"
  shows "offset \<le> lc \<Longrightarrow> hoare (\<lambda>h. delivered A s offset fd h \<and> interrupted fd h = I)
     (send_loop fuel e fd s lc sp offset)
     (\<lambda>r h. r = 0 \<and> delivered A s lc fd h \<or> r = -1 \<and> (\<exists>k\<le>lc. delivered A s k fd h))
     (\<lambda>x h. x = Out_of_fuel \<and> (\<exists>k\<le>lc. delivered A s k fd h \<and> fuel + offset + I \<le> k + interrupted fd h))"
proof (induction fuel arbitrary: offset I)
  case 0
  then show ?case by (auto simp: hoare_def wp_simps)
next
  case (Suc n)
  show ?case
  proof (cases "lc = offset")
    case True
    then show ?thesis using assms by (auto simp: hoare_def wp_simps)
  next
    case False
    let ?size = "chunk_size (lc - offset) sp"
    have sz: "0 < ?size" "offset + ?size \<le> lc" using chunk_size_bound [of "lc - offset" sp] False Suc.prems by auto
    let ?d = "take ?size (drop offset (s @ [0]))"
    have d: "?d = take ?size (drop offset s)" "length ?d = ?size" using sz assms by auto
    have tk: "take offset s @ take k ?d = take (offset + k) s" if "k \<le> ?size" for k
      using that by (simp only: d(1) take_take min.absorb1 take_add)
    show ?thesis
    proof (rule hoareI)
      fix h assume h: "delivered A s offset fd h \<and> interrupted fd h = I"
      show "wp (send_loop (Suc n) e fd s lc sp offset)
         (\<lambda>r h. r = 0 \<and> delivered A s lc fd h \<or> r = -1 \<and> (\<exists>k\<le>lc. delivered A s k fd h))
     (\<lambda>x h. x = Out_of_fuel \<and> (\<exists>k\<le>lc. delivered A s k fd h \<and> Suc n + offset + I \<le> k + interrupted fd h)) h"
      proof (cases "send_of e h fd ?d")
        case (Ok k)
        then have k: "k \<le> ?size" using send_of_bound [OF Ok] d by simp
        show ?thesis
        proof (cases "k = 0")
          case True
          show ?thesis using False sz assms h Ok True Suc.prems
            by (auto simp: os_wp delivered_def intro!: exI [of _ offset])
        next
          case k0: False
          have "wp (send_loop n e fd s lc sp (offset + k)) 
         (\<lambda>r h. r = 0 \<and> delivered A s lc fd h \<or> r = -1 \<and> (\<exists>k\<le>lc. delivered A s k fd h))
     (\<lambda>x h. x = Out_of_fuel \<and> (\<exists>k\<le>lc. delivered A s k fd h \<and> Suc n + offset + I \<le> k + interrupted fd h)) (h @ [Send fd ?d (Ok k)])"
          proof (rule wp_use [OF Suc.IH [where I = I]])
            show "offset + k \<le> lc" using k sz by simp
            show "delivered A s (offset + k) fd (h @ [Send fd ?d (Ok k)]) \<and> interrupted fd (h @ [Send fd ?d (Ok k)]) = I"
              using h tk [OF k] by (simp add: delivered_def)
          qed (use k0 in force)+
          then show ?thesis using False sz assms h Ok k0 Suc.prems
            by (simp add: os_wp)
        qed
      next
        case (Err er)
        have "wp (send_loop n e fd s lc sp offset) 
         (\<lambda>r h. r = 0 \<and> delivered A s lc fd h \<or> r = -1 \<and> (\<exists>k\<le>lc. delivered A s k fd h))
     (\<lambda>x h. x = Out_of_fuel \<and> (\<exists>k\<le>lc. delivered A s k fd h \<and> Suc n + offset + I \<le> k + interrupted fd h)) h'"
          if "delivered A s offset fd h' \<and> interrupted fd h' = Suc I" for h'
          by (rule wp_use [OF Suc.IH [where I = "Suc I"]]) (use Suc.prems that in force)+
        then show ?thesis using False sz assms h Err Suc.prems
          by (auto simp: os_wp delivered_def intro!: exI [of _ offset])
      qed
    qed
  qed
qed
text \<open>C7: \<open>send_string\<close> delivers. However the sends are cut, interrupted or refused, the peer gets a
  prefix of the string; when the call returns 0 it got exactly the first \<open>last_char\<close> bytes, each
  once and in order. The loop runs out of its fuel only if at least \<open>fuel - last_char\<close> sends were
  interrupted: every other send makes progress.\<close>

theorem send_string_delivers:
  assumes "unat lc \<le> length s"
  shows "hoare (\<lambda>h. h = h0) (send_string fuel e fd s lc sp)
    (\<lambda>r h. r = 0 \<and> accepted fd h = accepted fd h0 @ take (unat lc) s
       \<or> r = -1 \<and> (\<exists>k\<le>unat lc. accepted fd h = accepted fd h0 @ take k s))
    (\<lambda>x h. x = Out_of_fuel \<and> fuel + interrupted fd h0 \<le> unat lc + interrupted fd h)"
proof (rule hoareI)
  fix h assume h: "h = h0"
  show "wp (send_string fuel e fd s lc sp)
    (\<lambda>r h. r = 0 \<and> accepted fd h = accepted fd h0 @ take (unat lc) s
       \<or> r = -1 \<and> (\<exists>k\<le>unat lc. accepted fd h = accepted fd h0 @ take k s))
    (\<lambda>x h. x = Out_of_fuel \<and> fuel + interrupted fd h0 \<le> unat lc + interrupted fd h) h"
  proof (cases "lc = 0")
    case True
    then show ?thesis using h by (simp add: send_string_def wp_simps)
  next
    case False
    have "wp (send_loop fuel e fd s (unat lc) (unat sp) 0)
    (\<lambda>r h. r = 0 \<and> accepted fd h = accepted fd h0 @ take (unat lc) s
       \<or> r = -1 \<and> (\<exists>k\<le>unat lc. accepted fd h = accepted fd h0 @ take k s))
    (\<lambda>x h. x = Out_of_fuel \<and> fuel + interrupted fd h0 \<le> unat lc + interrupted fd h) h"
      by (rule wp_use [OF send_loop_hoare [OF assms, of 0 "accepted fd h0" fd "interrupted fd h0"]])
        (use h in \<open>auto simp: delivered_def\<close>)
    then show ?thesis using False by (simp add: send_string_def)
  qed
qed

lemma send_string_delivers_witness:
  "hoare (\<lambda>h. h = []) (send_string 5 willing_os 3 [71, 69, 84, 32] 3 2)
    (\<lambda>r h. r = 0 \<and> accepted 3 h = accepted 3 [] @ take (unat (3::u32)) [71, 69, 84, 32]
       \<or> r = -1 \<and> (\<exists>k\<le>unat (3::u32). accepted 3 h = accepted 3 [] @ take k [71, 69, 84, 32]))
    (\<lambda>x h. x = Out_of_fuel \<and> 5 + interrupted 3 [] \<le> unat (3::u32) + interrupted 3 h)"
  by (rule send_string_delivers) simp

section \<open>The connection\<close>

lemma wait_connected_hoare:
  "hoare (\<lambda>h. True) (wait_connected n e fd dl)
    (\<lambda>rc h. rc = 0 \<or> rc = -1 \<or> rc = 1 \<and> (last h = Getsockopt fd SO_ERROR (Some 0) \<or> last h = Getsockopt fd SO_ERROR None))
    (\<lambda>x h. x = Out_of_fuel)"
proof (induction n)
  case 0
  then show ?case by (auto simp: hoare_def wp_simps)
next
  case (Suc n)
  note IH = wp_use [OF Suc.IH TrueI]
  show ?case by (rule hoareI) (auto simp: os_wp errno_of_def split: option.splits pollres.splits intro!: IH)
qed

text \<open>\<open>connect_with_timeout\<close> returns a nonnegative value only if the connection is up (at once, or
  after a wait with no pending socket error), and then the last thing it did was to set the flags of
  the socket to 0. It means to restore the flags it has read, but it has stored the result of a
  comparison: whatever flags the socket had are gone.\<close>

theorem connect_with_timeout_flags:
  "hoare (\<lambda>h. True) (connect_with_timeout fuel e fd addr t)
    (\<lambda>rc h. rc = -1 \<or> 0 \<le> rc \<and> last h = Fcntl_setfl fd 0 True
      \<and> (last (butlast h) = Connect fd addr (Ok ())
          \<or> (\<exists>r. last (butlast h) = Getsockopt fd SO_ERROR r \<and> r \<in> {None, Some 0})))
    (\<lambda>x h. x = Out_of_fuel)"
proof (rule hoareI)
  fix h :: hist
  note W = wp_use [OF wait_connected_hoare TrueI]
  show "wp (connect_with_timeout fuel e fd addr t)
    (\<lambda>rc h. rc = -1 \<or> 0 \<le> rc \<and> last h = Fcntl_setfl fd 0 True
      \<and> (last (butlast h) = Connect fd addr (Ok ())
          \<or> (\<exists>r. last (butlast h) = Getsockopt fd SO_ERROR r \<and> r \<in> {None, Some 0})))
    (\<lambda>x h. x = Out_of_fuel) h"
    by (auto simp: connect_with_timeout_def start_connect_def os_wp butlast_append split: option.splits sysres.splits
        intro!: W)
qed

section \<open>Receiving\<close>

text \<open>What \<open>recv_string\<close> leaves behind: an error, nothing to read, or the bytes of one call.\<close>

definition received :: "int \<Rightarrow> bytes \<Rightarrow> recv_out \<Rightarrow> hist \<Rightarrow> bool" where
  "received fd message r h =
     (r_ret r = -1 \<and> length (r_message r) = length message
      \<or> r_ret r = 0 \<and> r_last_char r = 0 \<and> r_message r = message
      \<or> r_ret r = 0 \<and> 0 < unat (r_last_char r) \<and> unat (r_last_char r) \<le> length message
        \<and> Recv fd (length message) (Ok (take (unat (r_last_char r)) (r_message r))) \<in> set h
        \<and> drop (unat (r_last_char r)) (r_message r) = drop (unat (r_last_char r)) message
        \<and> length (r_message r) = length message)"

lemma recv_done_hoare:
  assumes "length message < 2 ^ 32" "r_message r0 = message" "d \<noteq> []" "length d \<le> length message"
  shows "hoare (\<lambda>h. Recv fd (length message) (Ok d) \<in> set h) (recv_done e fd timeout d start stop r0)
    (received fd message) (\<lambda>x h. x = Out_of_fuel)"
proof -
  have u: "unat (word_of_nat (length d) :: u32) = length d"
    using assms(1,4) by (simp add: unsigned_of_nat take_bit_nat_eq_self)
  show ?thesis using assms(2-4)
    by (auto simp: hoare_def recv_done_def Let_def os_wp received_def u overwrite_def)
qed

lemma recv_loop_hoare:
  assumes "length message < 2 ^ 32" "r_message r0 = message"
  shows "hoare (\<lambda>h. True) (recv_loop n e fd timeout start r0) (received fd message) (\<lambda>x h. x = Out_of_fuel)"
proof (induction n)
  case 0
  then show ?case by (auto simp: hoare_def wp_simps)
next
  case (Suc n)
  note IH = wp_use [OF Suc.IH TrueI]
  show ?case
  proof (rule hoareI)
    fix h :: hist
    show "wp (recv_loop (Suc n) e fd timeout start r0) (received fd message) (\<lambda>x h. x = Out_of_fuel) h"
    proof (cases "recv_of e h fd (length message)")
      case (Ok d)
      show ?thesis
      proof (cases d)
        case Nil
        then show ?thesis using Ok assms(2) by (simp add: os_wp received_def)
      next
        case (Cons a t)
        have "length d \<le> length message" by (rule recv_of_bound [OF Ok])
        note W = wp_use [OF recv_done_hoare [OF assms(1,2) _ this]]
        show ?thesis using Ok Cons assms(2) by (auto simp: os_wp intro!: W [unfolded Cons])
      qed
    next
      case (Err er)
      then show ?thesis using assms(2) by (auto simp: os_wp received_def intro!: IH)
    qed
  qed
qed

text \<open>C19: \<open>recv_string\<close> reports exactly what one receive call delivered: its bytes are the first
  \<open>last_char\<close> bytes of the message, the rest of the buffer and its size are unchanged, and it never
  reports bytes after an error, an end of stream or a timeout.\<close>

theorem recv_string_result:
  assumes "length message < 2 ^ 32"
  shows "hoare (\<lambda>h. True) (recv_string fuel e fd message lc timeout rt) (received fd message)
    (\<lambda>x h. x = Out_of_fuel)"
proof -
  note W = wp_use [OF recv_loop_hoare [OF assms] TrueI]
  show ?thesis
    by (rule hoareI) (auto simp: recv_string_def os_wp received_def Let_def split: option.splits intro!: W)
qed

lemma recv_string_result_witness:
  "hoare (\<lambda>h. True) (recv_string 3 willing_os 4 [0, 0, 0] 0 None None)
    (received 4 [0, 0, 0]) (\<lambda>x h. x = Out_of_fuel)"
  by (rule recv_string_result) simp

text \<open>The receive timeout in force on a descriptor.\<close>

definition set_timeo :: "int \<Rightarrow> os_event \<Rightarrow> int option \<Rightarrow> int option" where
  "set_timeo fd ev cur = (case ev of
     Setsockopt fd' opt v ok \<Rightarrow> if fd' = fd \<and> opt = SO_RCVTIMEO \<and> ok then Some v else cur
   | _ \<Rightarrow> cur)"

definition rcvtimeo :: "int \<Rightarrow> hist \<Rightarrow> int option" where
  "rcvtimeo fd h = fold (set_timeo fd) h None"

lemma rcvtimeo_append [simp]: "rcvtimeo fd (h @ t) = fold (set_timeo fd) t (rcvtimeo fd h)"
  by (simp add: rcvtimeo_def)

lemma set_timeo_simps [simp]:
  "set_timeo fd (Recv fd' n r) cur = cur" "set_timeo fd (Clock_ms m) cur = cur"
  "set_timeo fd (Setsockopt fd SO_RCVTIMEO v True) cur = Some v"
  by (simp_all add: set_timeo_def)

lemma recv_loop_timeout:
  "hoare (\<lambda>h. rcvtimeo fd h = Some t) (recv_loop n e fd (Some t) start r0)
    (\<lambda>r h. r_ret r = 0 \<and> r_last_char r = 0 \<longrightarrow> (rcvtimeo fd h = Some t \<or> 2 ^ 32 \<le> length (r_message r0)))
    (\<lambda>x h. x = Out_of_fuel)"
proof (induction n)
  case 0
  then show ?case by (auto simp: hoare_def wp_simps)
next
  case (Suc n)
  note IH = wp_use [OF Suc.IH]
  have u: "2 ^ 32 \<le> l" if "word_of_nat (Suc k) = (0 :: u32)" "Suc k \<le> l" for k l
  proof (rule ccontr)
    assume "\<not> 2 ^ 32 \<le> l"
    then have "unat (word_of_nat (Suc k) :: u32) = Suc k"
      using that(2) by (simp add: unsigned_of_nat take_bit_nat_eq_self del: of_nat_Suc)
    then show False using that(1) by (metis Zero_not_Suc unsigned_0)
  qed
  show ?case
  proof (rule hoareI)
    fix h :: hist assume h: "rcvtimeo fd h = Some t"
    show "wp (recv_loop (Suc n) e fd (Some t) start r0)
       (\<lambda>r h. r_ret r = 0 \<and> r_last_char r = 0 \<longrightarrow> (rcvtimeo fd h = Some t \<or> 2 ^ 32 \<le> length (r_message r0)))
       (\<lambda>x h. x = Out_of_fuel) h"
    proof (cases "recv_of e h fd (length (r_message r0))")
      case (Ok d)
      with recv_of_bound [OF Ok] show ?thesis using h 
        by (cases d) (auto simp: os_wp recv_done_def Let_def simp del: of_nat_Suc dest!: u)
    next
      case (Err er)
      then show ?thesis using h by (auto simp: os_wp intro!: IH)
    qed
  qed
qed

text \<open>A caller of \<open>recv_string\<close> that sets a timeout and gets nothing within it leaves the socket
  with that timeout: the loop is left before the default of 10 microseconds is set again.\<close>

theorem recv_string_timeout_stays:
  assumes "length message < 2 ^ 32"
  shows "hoare (\<lambda>h. True) (recv_string fuel e fd message lc (Some t) rt)
    (\<lambda>r h. r_ret r = 0 \<and> r_last_char r = 0 \<longrightarrow> rcvtimeo fd h = Some t) (\<lambda>x h. x = Out_of_fuel)"
proof -
  note W = wp_use [OF recv_loop_timeout [where t = t]]
  show ?thesis
    by (rule hoareI) (use assms in \<open>auto simp: recv_string_def os_wp Let_def intro!: W\<close>)
qed
lemma recv_string_timeout_stays_witness:
  "hoare (\<lambda>h. True) (recv_string 3 willing_os 4 [0, 0, 0] 0 (Some 500000) None)
    (\<lambda>r h. r_ret r = 0 \<and> r_last_char r = 0 \<longrightarrow> rcvtimeo 4 h = Some 500000) (\<lambda>x h. x = Out_of_fuel)"
  by (rule recv_string_timeout_stays) simp

section \<open>\<open>init_remote_server_socket\<close>\<close>

text \<open>The receive buffer that makes the kernel announce the window scale: an \<open>int\<close> shifted by the
  \<open>short\<close> of the profile less one, undefined for a count outside of the width.\<close>

definition rcvbuf_for_scale :: "16 word \<Rightarrow> int option" where
  "rcvbuf_for_scale scale =
     (let n = sint scale - 1 in if n < 0 \<or> 32 \<le> n then None else Some (c_int (65536 * 2 ^ nat n)))"

text \<open>The result and the descriptor that is left in \<open>server_socket\<close>; on an error the caller closes it.\<close>

definition init_remote_server_socket :: "os \<Rightarrow> Profile_s \<Rightarrow> string \<Rightarrow> int \<Rightarrow> (int \<times> int) io" where
  "init_remote_server_socket e P server_ip port =
     bnd (socket e SOCK_STREAM) (\<lambda>s.
       case s of
         None \<Rightarrow> ret (-1, -1)
       | Some fd \<Rightarrow>
           (case inet_pton server_ip of
              None \<Rightarrow> ret (-1, fd)
            | Some a \<Rightarrow>
                bnd (if window_scale_factor P \<noteq> - 1 then
                       (case rcvbuf_for_scale (window_scale_factor P) of
                          None \<Rightarrow> raise Undefined
                        | Some buflen \<Rightarrow> setsockopt e fd SO_RCVBUFFORCE buflen)
                     else ret True) (\<lambda>ok.
                  if \<not> ok then ret (-1, fd)
                  else bnd (connect e fd (Sockaddr a (word_of_int port))) (\<lambda>c.
                    case c of
                      Err er \<Rightarrow> ret (-1, fd)
                    | Ok u \<Rightarrow>
                        bnd (setsockopt e fd SO_SNDTIMEO 10) (\<lambda>ok1.
                          if \<not> ok1 then ret (-1, fd)
                          else bnd (setsockopt e fd SO_RCVTIMEO 10) (\<lambda>ok2.
                            ret (if ok2 then 0 else -1, fd)))))))"

end
