(* ===== verification/Desync.thy ===== *)
theory Desync
  imports Socket CheckSum Utils "HOL-Library.Sublist"
begin

text \<open>
  \<open>desync.cpp\<close>: the packets that confuse a deep packet inspection box. \<open>form_packet\<close> turns the
  sniffed SYN-ACK of the server into a segment of the client, the sniff loops catch that SYN-ACK,
  and \<open>do_desync_attack\<close> sends the segments of the configured attack through a raw socket. A
  packet is its bytes; a memory access outside of it is the value None (\<open>form_packet\<close>) or the
  early end Undefined.
\<close>

section \<open>Forging a segment\<close>

definition FAKE_TLS_PACKET :: bytes where
  "FAKE_TLS_PACKET = [
     0x16, 0x03, 0x01, 0x02, 0x00, 0x01, 0x00, 0x01, 0xfc, 0x03, 0x03, 0x9a, 0x8f, 0xa7, 0x6a, 0x5d,
     0x57, 0xf3, 0x62, 0x19, 0xbe, 0x46, 0x82, 0x45, 0xe2, 0x59, 0x5c, 0xb4, 0x48, 0x31, 0x12, 0x15,
     0x14, 0x79, 0x2c, 0xaa, 0xcd, 0xea, 0xda, 0xf0, 0xe1, 0xfd, 0xbb, 0x20, 0xf4, 0x83, 0x2a, 0x94,
     0xf1, 0x48, 0x3b, 0x9d, 0xb6, 0x74, 0xba, 0x3c, 0x81, 0x63, 0xbc, 0x18, 0xcc, 0x14, 0x45, 0x57,
     0x6c, 0x80, 0xf9, 0x25, 0xcf, 0x9c, 0x86, 0x60, 0x50, 0x31, 0x2e, 0xe9, 0x00, 0x22, 0x13, 0x01,
     0x13, 0x03, 0x13, 0x02, 0xc0, 0x2b, 0xc0, 0x2f, 0xcc, 0xa9, 0xcc, 0xa8, 0xc0, 0x2c, 0xc0, 0x30,
     0xc0, 0x0a, 0xc0, 0x09, 0xc0, 0x13, 0xc0, 0x14, 0x00, 0x33, 0x00, 0x39, 0x00, 0x2f, 0x00, 0x35,
     0x01, 0x00, 0x01, 0x91, 0x00, 0x00, 0x00, 0x0f, 0x00, 0x0d, 0x00, 0x00, 0x0a, 0x77, 0x77, 0x77,
     0x2e, 0x77, 0x33, 0x2e, 0x6f, 0x72, 0x67, 0x00, 0x17, 0x00, 0x00, 0xff, 0x01, 0x00, 0x01, 0x00,
     0x00, 0x0a, 0x00, 0x0e, 0x00, 0x0c, 0x00, 0x1d, 0x00, 0x17, 0x00, 0x18, 0x00, 0x19, 0x01, 0x00,
     0x01, 0x01, 0x00, 0x0b, 0x00, 0x02, 0x01, 0x00, 0x00, 0x23, 0x00, 0x00, 0x00, 0x10, 0x00, 0x0e,
     0x00, 0x0c, 0x02, 0x68, 0x32, 0x08, 0x68, 0x74, 0x74, 0x70, 0x2f, 0x31, 0x2e, 0x31, 0x00, 0x05,
     0x00, 0x05, 0x01, 0x00, 0x00, 0x00, 0x00, 0x00, 0x33, 0x00, 0x6b, 0x00, 0x69, 0x00, 0x1d, 0x00,
     0x20, 0xb0, 0xe4, 0xda, 0x34, 0xb4, 0x29, 0x8d, 0xd3, 0x5c, 0x70, 0xd3, 0xbe, 0xe8, 0xa7, 0x2a,
     0x6b, 0xe4, 0x11, 0x19, 0x8b, 0x18, 0x9d, 0x83, 0x9a, 0x49, 0x7c, 0x83, 0x7f, 0xa9, 0x03, 0x8c,
     0x3c, 0x00, 0x17, 0x00, 0x41, 0x04, 0x4c, 0x04, 0xa4, 0x71, 0x4c, 0x49, 0x75, 0x55, 0xd1, 0x18,
     0x1e, 0x22, 0x62, 0x19, 0x53, 0x00, 0xde, 0x74, 0x2f, 0xb3, 0xde, 0x13, 0x54, 0xe6, 0x78, 0x07,
     0x94, 0x55, 0x0e, 0xb2, 0x6c, 0xb0, 0x03, 0xee, 0x79, 0xa9, 0x96, 0x1e, 0x0e, 0x98, 0x17, 0x78,
     0x24, 0x44, 0x0c, 0x88, 0x80, 0x06, 0x8b, 0xd4, 0x80, 0xbf, 0x67, 0x7c, 0x37, 0x6a, 0x5b, 0x46,
     0x4c, 0xa7, 0x98, 0x6f, 0xb9, 0x22, 0x00, 0x2b, 0x00, 0x09, 0x08, 0x03, 0x04, 0x03, 0x03, 0x03,
     0x02, 0x03, 0x01, 0x00, 0x0d, 0x00, 0x18, 0x00, 0x16, 0x04, 0x03, 0x05, 0x03, 0x06, 0x03, 0x08,
     0x04, 0x08, 0x05, 0x08, 0x06, 0x04, 0x01, 0x05, 0x01, 0x06, 0x01, 0x02, 0x03, 0x02, 0x01, 0x00,
     0x2d, 0x00, 0x02, 0x01, 0x01, 0x00, 0x1c, 0x00, 0x02, 0x40, 0x01, 0x00, 0x15, 0x00, 0x96] @ replicate 150 0"

definition FAKE_HTTP_PACKET :: bytes where
  "FAKE_HTTP_PACKET = bytes_of (
     ''GET / HTTP/1.1'' @ CRLF @ ''Host: www.w3.org'' @ CRLF @
     ''User-Agent: Mozilla/5.0 (Windows NT 10.0; Win64; x64; rv:70.0) Gecko/20100101 Firefox/70.0'' @ CRLF @
     ''Accept: text/html,application/xhtml+xml,application/xml;q=0.9,*/*;q=0.8'' @ CRLF @
     ''Accept-Encoding: gzip, deflate'' @ CRLF @ CRLF)"

definition swap16 :: "nat \<Rightarrow> nat \<Rightarrow> bytes \<Rightarrow> bytes" where
  "swap16 i j b = put16 j (get16 b i) (put16 i (get16 b j) b)"

definition swap32 :: "nat \<Rightarrow> nat \<Rightarrow> bytes \<Rightarrow> bytes" where
  "swap32 i j b = put32 j (get32 b i) (put32 i (get32 b j) b)"

text \<open>The appended data: \<open>packet_data_size\<close> bytes from a pointer into a C string, its terminating
  zero included.\<close>

definition payload_of :: "bytes option \<Rightarrow> u32 \<Rightarrow> bytes option" where
  "payload_of packet_data data_size =
     (case packet_data of
        None \<Rightarrow> Some []
      | Some d \<Rightarrow> if data_size = 0 then Some []
                   else if unat data_size \<le> length d + 1 then Some (take (unat data_size) (d @ [0])) else None)"

text \<open>The IP header at 0 and its fields: tos 1, tot_len 2, id 4, frag_off 6, ttl 8, check 10, saddr 12,
  daddr 16.\<close>

definition fill_ip :: "u32 \<Rightarrow> u16 \<Rightarrow> u16 \<Rightarrow> bool \<Rightarrow> bytes \<Rightarrow> bytes" where
  "fill_ip data_size ident ttl is_swap_addr p0 =
     (let p1 = p0[1 := 0];
          p2 = put16 2 (word_of_nat (40 + unat data_size)) p1;
          p3 = put16 4 ident p2;
          p4 = put16 6 0x4000 p3;
          p5 = p4[8 := ucast ttl];
          p6 = put16 10 0 p5;
          p7 = (if is_swap_addr then swap32 12 16 p6 else p6)
      in put16 10 (cksumIp p7) p7)"

text \<open>The TCP header at \<open>t\<close>: source 0, dest 2, seq 4, ack_seq 8, data offset 12, flags 13, window 14,
  check 16, urg_ptr 18.\<close>

definition tcp_flags :: "u8 option \<Rightarrow> u8 \<Rightarrow> u8" where
  "tcp_flags flags old =
     (case flags of
        None \<Rightarrow> (old AND NOT 0x07) OR 0x18
      | Some f \<Rightarrow> f) AND NOT 0x20"

definition fill_tcp :: "nat \<Rightarrow> u32 \<Rightarrow> u32 \<Rightarrow> u32 \<Rightarrow> bool \<Rightarrow> u8 option \<Rightarrow> bytes \<Rightarrow> bytes" where
  "fill_tcp t seq ack_seq win is_swap_addr flags q0 =
     (let q1 = (if is_swap_addr then swap32 (t + 4) (t + 8) (swap16 t (t + 2) q0) else q0);
          q2 = put32 (t + 8) (get32 q1 (t + 8) + ack_seq) q1;
          q3 = put32 (t + 4) (get32 q2 (t + 4) + seq) q2;
          q4 = put16 (t + 14) (ucast win) q3;
          q5 = q4[t + 12 := (q4 ! (t + 12) AND 0x0F) OR 0x50];
          q6 = q5[t + 13 := tcp_flags flags (q5 ! (t + 13))];
          q7 = put16 (t + 16) 0 q6;
          q8 = put16 (t + 18) 0 q7
      in q8)"

text \<open>The pointer to the TCP header is \<open>ihl * 4\<close> behind the start, before anything is stored; a small \<open>ihl\<close> makes
  the headers overlap, and the stores go one over the other in their order. The checksum reads the two lengths
  again. None: the TCP header or the bytes that the checksum reads are not inside of the packet and its
  terminator, which counts as the zero byte that it is.\<close>

definition form_packet :: "bytes \<Rightarrow> bytes option \<Rightarrow> u32 \<Rightarrow> u16 \<Rightarrow> u16 \<Rightarrow> u32 \<Rightarrow> u32 \<Rightarrow> u32 \<Rightarrow> bool
    \<Rightarrow> u8 option \<Rightarrow> bytes option" where
  "form_packet packet_raw packet_data data_size ident ttl seq ack_seq win is_swap_addr flags =
     (case payload_of packet_data data_size of
        None \<Rightarrow> None
      | Some payload \<Rightarrow>
          (let p = resize 0 40 packet_raw @ payload;
               t = ihl p * 4
           in if length p < t + 20 then None
              else
                (let q = fill_tcp t seq ack_seq win is_swap_addr flags
                           (fill_ip data_size ident ttl is_swap_addr p)
                 in if length q + 1 < t + (tot_len q - ihl q * 4) then None
                    else Some (put16 (t + 16) (cksumTcp t q) q))))"

lemma fill_ip_spec:
  fixes dsz :: u32 and ident ttl :: u16
  assumes "40 \<le> length p" "ihl p = 5"
  defines "q \<equiv> fill_ip dsz ident ttl True p"
  shows "length q = length p" "ihl q = 5" "get16 q 2 = word_of_nat (40 + unat dsz)" "get16 q 4 = ident"
    "q ! 8 = ucast ttl" "get32 q 12 = get32 p 16" "get32 q 16 = get32 p 12" "drop 20 q = drop 20 p"
    "cksum_finish (CalSum (take 20 q)) = 0"
proof -
  define p7 where "p7 = swap32 12 16 (put16 10 0 ((put16 6 0x4000 (put16 4 ident (put16 2 (word_of_nat (40 + unat dsz)) (p[1 := 0]))))[8 := ucast ttl]))"
  have q: "q = put16 10 (cksumIp p7) p7" by (simp add: q_def fill_ip_def p7_def Let_def)
  have l: "length p7 = length p" by (simp add: p7_def swap32_def)
  have i: "ihl p7 = 5" using assms(2) by (simp add: p7_def swap32_def ihl_def)
  show "length q = length p" using l by (simp add: q)
  show "ihl q = 5" using i by (simp add: q ihl_def)
  show "get16 q 2 = word_of_nat (40 + unat dsz)" "get16 q 4 = ident" "q ! 8 = ucast ttl"
    "get32 q 12 = get32 p 16" "get32 q 16 = get32 p 12" "drop 20 q = drop 20 p"
    using assms(1) by (simp_all add: q p7_def swap32_def)
  show "cksum_finish (CalSum (take 20 q)) = 0"
    using cksumIp_valid [of p7] i l assms(1) by (simp add: q)
qed

lemma fill_tcp_spec:
  fixes seq_add ack_add win :: u32 and flags :: "u8 option"
  assumes "40 \<le> length p"
  defines "q \<equiv> fill_tcp 20 seq_add ack_add win True flags p"
  shows "length q = length p" "take 20 q = take 20 p" "drop 40 q = drop 40 p"
    "get16 q 20 = get16 p 22" "get16 q 22 = get16 p 20" "get32 q 24 = get32 p 28 + seq_add"
    "get32 q 28 = get32 p 24 + ack_add" "q ! 33 = tcp_flags flags (p ! 33)" "q ! 32 = (p ! 32 AND 0x0F) OR 0x50"
    "get16 q 34 = ucast win"
  using assms(1) unfolding q_def fill_tcp_def Let_def swap16_def swap32_def
  by (simp_all)

text \<open>What the peer and the boxes on the way see of a segment.\<close>

definition well_formed :: "bytes \<Rightarrow> bool" where
  "well_formed p \<longleftrightarrow> 40 \<le> length p \<and> ihl p = 5 \<and> tot_len p = length p
     \<and> cksum_finish (CalSum (take 20 p)) = 0 \<and> cksum_finish (tcp_sum p) = 0"

definition seg_seq :: "bytes \<Rightarrow> u32" where "seg_seq p = get32 p 24"
definition seg_ack :: "bytes \<Rightarrow> u32" where "seg_ack p = get32 p 28"
definition seg_ttl :: "bytes \<Rightarrow> u8" where "seg_ttl p = p ! 8"
definition seg_flags :: "bytes \<Rightarrow> u8" where "seg_flags p = p ! 33"
definition seg_payload :: "bytes \<Rightarrow> bytes" where "seg_payload p = drop 40 p"

text \<open>The four fields that name the connection: source and destination address and port.\<close>

definition endpoints :: "bytes \<Rightarrow> u32 \<times> u32 \<times> u16 \<times> u16" where
  "endpoints p = (get32 p 12, get32 p 16, get16 p 20, get16 p 22)"

definition reversed :: "u32 \<times> u32 \<times> u16 \<times> u16 \<Rightarrow> u32 \<times> u32 \<times> u16 \<times> u16" where
  "reversed = (\<lambda>(sa, da, sp, dp). (da, sa, dp, sp))"

lemma ihl_append: "0 < length a \<Longrightarrow> ihl (a @ b) = ihl a"
  by (simp add: ihl_def nth_append)

lemma form_packet_answers:
  assumes raw: "40 \<le> length raw" "ihl raw = 5" and dsz: "unat dsz \<le> 65495"
    and pay: "payload_of d dsz = Some payload" "length payload = unat dsz"
  obtains p where "form_packet raw d dsz ident ttl seq_add ack_add win True flags = Some p"
    "well_formed p" "endpoints p = reversed (endpoints raw)" "seg_payload p = payload"
    "seg_seq p = seg_ack raw + seq_add" "seg_ack p = seg_seq raw + ack_add"
    "seg_ttl p = ucast ttl" "seg_flags p = tcp_flags flags (raw ! 33)" "length p = 40 + unat dsz"
proof -
  define b where "b = resize 0 40 raw @ payload"
  have b0: "length b = 40 + unat dsz" using pay by (simp add: b_def)
  have bn: "b ! i = raw ! i" if "i < 40" for i
    using that raw by (simp add: b_def nth_append resize_def)
  have b: "40 \<le> length b" "ihl b = 5" using b0 bn [of 0] raw by (simp_all add: ihl_def)
  define q0 where "q0 = fill_ip dsz ident ttl True b"
  note i = fill_ip_spec [OF b, of dsz ident ttl, folded q0_def]
  have q0: "40 \<le> length q0" using i b by simp
  define q where "q = fill_tcp 20 seq_add ack_add win True flags q0"
  note t = fill_tcp_spec [OF q0, of seq_add ack_add win flags, folded q_def]
  have lq: "length q = 40 + unat dsz" using i t b0 by simp
  have same: "q ! k = q0 ! k" if "k < 20" for k using t(2) that by (metis nth_take)
  have same0: "q0 ! k = b ! k" if "20 \<le> k" "k < 40" for k
  proof -
    have "drop 20 q0 ! (k - 20) = drop 20 b ! (k - 20)" by (simp only: i(8))
    then show ?thesis using that b i(1) by simp
  qed
  have h: "ihl q = 5" using i(2) same [of 0] by (simp add: ihl_def)
  have "get16 q 2 = get16 q0 2" by (rule f16.get_local) (simp add: same)
  moreover have "unat (word_of_nat (40 + unat dsz) :: u16) = 40 + unat dsz"
    using dsz by (simp add: unsigned_of_nat take_bit_nat_eq_self del: of_nat_add)
  ultimately have tl: "tot_len q = length q" by (simp only: tot_len_def i lq)
  define p where "p = put16 36 (cksumTcp 20 q) q"
  have f: "form_packet raw d dsz ident ttl seq_add ack_add win True flags = Some p"
    using pay b b0 lq tl h unfolding form_packet_def
    by (simp add: b_def [symmetric] q0_def [symmetric] q_def [symmetric] p_def Let_def)
  have "cksum_finish (tcp_sum p) = 0"
    using cksumTcp_valid [of q] h tl lq by (simp add: p_def)
  moreover have "cksum_finish (CalSum (take 20 p)) = 0" using i(9) t(2) by (simp add: p_def)
  moreover have "ihl p = 5" "tot_len p = length p" using h tl by (simp_all add: p_def put16_header)
  ultimately have wf: "well_formed p" using lq by (simp add: well_formed_def p_def)
  have g32: "get32 p k = get32 q0 k" if "k + 4 \<le> 20" for k
    using that by (auto simp: p_def intro!: f32.get_local same)
  have r32: "get32 q0 k = get32 raw k" if "20 \<le> k" "k + 4 \<le> 40" for k
    using that by (intro f32.get_local) (simp add: same0 bn)
  have r16: "get16 q0 k = get16 raw k" if "20 \<le> k" "k + 2 \<le> 40" for k
    using that by (intro f16.get_local) (simp add: same0 bn)
  have br: "get32 b k = get32 raw k" if "k + 4 \<le> 40" for k
    using that by (intro f32.get_local) (simp add: bn)
  have e: "endpoints p = reversed (endpoints raw)"
    using g32 by (simp add: endpoints_def reversed_def i t r16 br, simp add: p_def t r16)
  have dr: "seg_payload p = payload"
  proof -
    have "drop 40 q = drop 20 (drop 20 q0)" using t(3) by simp
    also have "\<dots> = drop 40 b" by (simp only: i(8)) simp
    finally show ?thesis by (simp add: seg_payload_def p_def b_def)
  qed
  show thesis
  proof (rule that [OF f wf e dr])
    show "seg_seq p = seg_ack raw + seq_add" "seg_ack p = seg_seq raw + ack_add"
      by (simp_all add: seg_seq_def seg_ack_def p_def t r32)
    show "seg_ttl p = ucast ttl" using same [of 8] i(5) by (simp add: seg_ttl_def p_def)
    show "seg_flags p = tcp_flags flags (raw ! 33)"
      by (simp add: seg_flags_def p_def t same0 bn)
    show "length p = 40 + unat dsz" by (simp add: p_def lq)
  qed
qed

section \<open>The attack\<close>

record desync_ctx =
  c_fd :: int
  c_addr :: sockaddr_in
  c_raw :: bytes
  c_data :: bytes
  c_last :: u32
  c_split :: u32
  c_default_ttl :: int
  c_mss :: int
  c_fake_ttl :: u8
  c_id_first :: u16

definition rand_id :: "os \<Rightarrow> u16 io" where
  "rand_id e = bnd (rand e) (\<lambda>r. ret (word_of_nat (r mod 65535)))"

definition send_packet :: "os \<Rightarrow> desync_ctx \<Rightarrow> bytes \<Rightarrow> unit io" where
  "send_packet e c p =
     bnd (send_string_raw e (c_fd c) p (word_of_nat (length p)) (c_addr c)) (\<lambda>r.
       if r = -1 then then_do (close (c_fd c)) (raise (Return (-1))) else ret ())"

definition drift_seq :: "Profile_s \<Rightarrow> u32" where
  "drift_seq P = (if wrong_seq P then wrong_seq_drift_seq P else 0)"

definition drift_ack :: "Profile_s \<Rightarrow> u32" where
  "drift_ack P = (if wrong_seq P then wrong_seq_drift_ack P else 1)"

definition data_window :: "Profile_s \<Rightarrow> desync_ctx \<Rightarrow> u32" where
  "data_window P c = (if window_size P = 0 then word_of_int (c_mss c) else ucast (window_size P))"

text \<open>A fake segment with the given payload, and a segment of the client's data from \<open>off\<close> on.\<close>

definition fake_packet :: "Profile_s \<Rightarrow> desync_ctx \<Rightarrow> bytes option \<Rightarrow> u32 \<Rightarrow> u8 option \<Rightarrow> u16 \<Rightarrow> bytes io" where
  "fake_packet P c d n flags ident =
     the_or Undefined (form_packet (c_raw c) d n ident (ucast (c_fake_ttl c))
       (drift_seq P) (drift_ack P) (word_of_int (c_mss c)) True flags)"

definition data_packet :: "Profile_s \<Rightarrow> desync_ctx \<Rightarrow> u32 \<Rightarrow> u32 \<Rightarrow> u16 \<Rightarrow> bytes io" where
  "data_packet P c off n ident =
     (if length (c_data c) < unat off then raise Undefined
      else the_or Undefined (form_packet (c_raw c) (Some (drop (unat off) (c_data c))) n ident
        (word_of_int (c_default_ttl c)) off 1 (data_window P c) True None))"

definition send_data :: "os \<Rightarrow> Profile_s \<Rightarrow> desync_ctx \<Rightarrow> u32 \<Rightarrow> u32 \<Rightarrow> u16 \<Rightarrow> unit io" where
  "send_data e P c off n ident = bnd (data_packet P c off n ident) (send_packet e c)"

definition TH_RST :: u8 where "TH_RST = 0x04"
definition TH_ACK :: u8 where "TH_ACK = 0x10"

definition zero_attack :: "os \<Rightarrow> Profile_s \<Rightarrow> desync_ctx \<Rightarrow> bool \<Rightarrow> unit io" where
  "zero_attack e P c is_https =
     (case desync_zero_attack P of
        DESYNC_ZERO_FAKE \<Rightarrow>
          (let d = (if is_https then FAKE_TLS_PACKET else FAKE_HTTP_PACKET)
           in bnd (rand_id e) (\<lambda>ident.
              bnd (fake_packet P c (Some d) (word_of_nat (length d)) None ident) (send_packet e c)))
      | DESYNC_ZERO_NONE \<Rightarrow> ret ()
      | a \<Rightarrow>
          (let flags = (if a = DESYNC_ZERO_RSTACK then TH_RST OR TH_ACK else TH_RST)
           in bnd (rand_id e) (\<lambda>ident.
              bnd (fake_packet P c None 0 (Some flags) ident) (send_packet e c))))"

definition first_fake :: "Profile_s \<Rightarrow> desync_ctx \<Rightarrow> bytes io" where
  "first_fake P c =
     fake_packet P c (Some (replicate (unat (c_last c)) 0)) (c_split c) None (c_id_first c)"

definition send_second :: "os \<Rightarrow> Profile_s \<Rightarrow> desync_ctx \<Rightarrow> unit io" where
  "send_second e P c = bnd (rand_id e) (\<lambda>ident.
     send_data e P c (c_split c) (c_last c - c_split c) ident)"

definition send_first :: "os \<Rightarrow> Profile_s \<Rightarrow> desync_ctx \<Rightarrow> unit io" where
  "send_first e P c = send_data e P c 0 (c_split c) (c_id_first c)"

definition send_whole :: "os \<Rightarrow> Profile_s \<Rightarrow> desync_ctx \<Rightarrow> unit io" where
  "send_whole e P c = bnd (rand_id e) (\<lambda>ident. send_data e P c 0 (c_last c) ident)"

text \<open>The first data segment between two copies of the same fake.\<close>

definition send_first_faked :: "os \<Rightarrow> Profile_s \<Rightarrow> desync_ctx \<Rightarrow> unit io" where
  "send_first_faked e P c =
     bnd (first_fake P c) (\<lambda>fake.
       then_do (send_packet e c fake) (then_do (send_first e P c) (send_packet e c fake)))"

definition first_attack :: "os \<Rightarrow> Profile_s \<Rightarrow> desync_ctx \<Rightarrow> unit io" where
  "first_attack e P c =
     (case desync_first_attack P of
        DESYNC_FIRST_DISORDER \<Rightarrow> then_do (send_second e P c) (send_first e P c)
      | DESYNC_FIRST_DISORDER_FAKE \<Rightarrow> then_do (send_second e P c) (send_first_faked e P c)
      | DESYNC_FIRST_SPLIT \<Rightarrow> then_do (send_first e P c) (send_second e P c)
      | DESYNC_FIRST_SPLIT_FAKE \<Rightarrow> then_do (send_first_faked e P c) (send_second e P c)
      | DESYNC_FIRST_NONE \<Rightarrow> send_whole e P c)"

text \<open>A raw socket that sends without buffer and takes packets with their IP header.\<close>

definition close_and_fail :: "int \<Rightarrow> 'a io" where
  "close_and_fail fd = then_do (close fd) (raise (Return (-1)))"

definition need :: "int \<Rightarrow> bool \<Rightarrow> unit io" where
  "need fd ok = (if ok then ret () else close_and_fail fd)"

definition need_some :: "int \<Rightarrow> 'a option \<Rightarrow> 'a io" where
  "need_some fd r = (case r of None \<Rightarrow> close_and_fail fd | Some v \<Rightarrow> ret v)"

definition open_raw_socket :: "os \<Rightarrow> int io" where
  "open_raw_socket e =
     bnd (socket e SOCK_RAW) (\<lambda>s.
     bnd (the_or (Return (-1)) s) (\<lambda>fd.
     bnd (setsockopt e fd SO_SNDBUF 0) (\<lambda>ok.
     then_do (need fd ok) (
     bnd (setsockopt e fd IP_HDRINCL 1) (\<lambda>ok.
     then_do (need fd ok) (ret fd))))))"

definition set_ttl :: "os \<Rightarrow> int \<Rightarrow> int \<Rightarrow> int io" where
  "set_ttl e fd ttl = bnd (setsockopt e fd IP_TTL ttl) (\<lambda>ok. ret (if ok then 0 else -1))"

definition srv_ttl :: "bytes \<Rightarrow> nat" where
  "srv_ttl raw = unat (raw ! 8)"

definition low8 :: "u16 \<Rightarrow> nat" where
  "low8 w = unat (ucast w :: u8)"

definition choose_fake_ttl :: "Profile_s \<Rightarrow> bytes \<Rightarrow> int \<Rightarrow> u8" where
  "choose_fake_ttl P raw default_ttl =
     (if auto_ttl P then
        word_of_nat (tcp_get_auto_ttl (srv_ttl raw) (low8 (auto_ttl_a1 P)) (low8 (auto_ttl_a2 P))
          (low8 (min_ttl P)) (low8 (auto_ttl_max P)))
      else if fake_packets_ttl P \<noteq> 0 then ucast (fake_packets_ttl P) else word_of_int default_ttl)"

text \<open>The branch of \<open>--min-ttl\<close> without \<open>--auto-ttl\<close> in which no fakes are sent.\<close>

definition no_fakes :: "Profile_s \<Rightarrow> bytes \<Rightarrow> bool" where
  "no_fakes P raw = (\<not> auto_ttl P \<and> min_ttl P \<noteq> 0
     \<and> tcp_get_auto_ttl (srv_ttl raw) 0 0 (low8 (min_ttl P)) 0 \<noteq> 0)"

definition send_plan :: "os \<Rightarrow> Profile_s \<Rightarrow> desync_ctx \<Rightarrow> bool \<Rightarrow> int io" where
  "send_plan e P c is_https =
     (if no_fakes P (c_raw c) then then_do (send_whole e P c) (close_and_fail (c_fd c))
      else then_do (zero_attack e P c is_https)
             (then_do (first_attack e P c) (then_do (close (c_fd c)) (ret 0))))"

definition do_desync_attack :: "os \<Rightarrow> Profile_s \<Rightarrow> int \<Rightarrow> string \<Rightarrow> int \<Rightarrow> bool \<Rightarrow> bytes \<Rightarrow> bytes
    \<Rightarrow> u32 \<Rightarrow> u32 \<Rightarrow> int io" where
  "do_desync_attack e P socket_srv ip_srv port_srv is_https packet_raw packet_data last_char split_pos =
     returning (
       bnd (open_raw_socket e) (\<lambda>fd.
       bnd (getsockopt e socket_srv IP_TTL) (\<lambda>r.
       bnd (need_some fd r) (\<lambda>default_ttl.
       bnd (getsockopt e socket_srv TCP_MAXSEG) (\<lambda>r.
       bnd (need_some fd r) (\<lambda>mss.
       bnd (rand_id e) (\<lambda>ip_id_first.
         if (auto_ttl P \<or> min_ttl P \<noteq> 0) \<and> length packet_raw < 9 then raise Undefined
         else
           send_plan e P \<lparr>c_fd = fd, c_addr = Sockaddr (inet_addr ip_srv) (word_of_int port_srv),
             c_raw = packet_raw, c_data = packet_data, c_last = last_char, c_split = split_pos,
             c_default_ttl = default_ttl, c_mss = mss,
             c_fake_ttl = choose_fake_ttl P packet_raw default_ttl, c_id_first = ip_id_first\<rparr> is_https)))))))"

section \<open>The plan of an attack\<close>

text \<open>What an attack is meant to put on the wire: fakes with their payload and flags, and ranges of
  the client's data.\<close>

datatype segment = Fake bytes "u8 option" | Data nat nat

definition zero_plan :: "Profile_s \<Rightarrow> bool \<Rightarrow> segment list" where
  "zero_plan P is_https = (case desync_zero_attack P of
     DESYNC_ZERO_FAKE \<Rightarrow> [Fake (if is_https then FAKE_TLS_PACKET else FAKE_HTTP_PACKET) None]
   | DESYNC_ZERO_RST \<Rightarrow> [Fake [] (Some TH_RST)]
   | DESYNC_ZERO_RSTACK \<Rightarrow> [Fake [] (Some (TH_RST OR TH_ACK))]
   | DESYNC_ZERO_NONE \<Rightarrow> [])"

definition first_plan :: "Profile_s \<Rightarrow> nat \<Rightarrow> nat \<Rightarrow> segment list" where
  "first_plan P last_char split_pos =
     (let fst_part = Data 0 split_pos; snd_part = Data split_pos (last_char - split_pos);
          fake = Fake (replicate split_pos 0) None
      in case desync_first_attack P of
           DESYNC_FIRST_DISORDER \<Rightarrow> [snd_part, fst_part]
         | DESYNC_FIRST_DISORDER_FAKE \<Rightarrow> [snd_part, fake, fst_part, fake]
         | DESYNC_FIRST_SPLIT \<Rightarrow> [fst_part, snd_part]
         | DESYNC_FIRST_SPLIT_FAKE \<Rightarrow> [fake, fst_part, fake, snd_part]
         | DESYNC_FIRST_NONE \<Rightarrow> [Data 0 last_char])"

definition attack_plan :: "Profile_s \<Rightarrow> bool \<Rightarrow> bytes \<Rightarrow> nat \<Rightarrow> nat \<Rightarrow> segment list" where
  "attack_plan P is_https raw last_char split_pos =
     (if no_fakes P raw then [Data 0 last_char]
      else zero_plan P is_https @ first_plan P last_char split_pos)"

text \<open>A packet that carries out a step of the plan.\<close>

definition matches :: "Profile_s \<Rightarrow> desync_ctx \<Rightarrow> segment \<Rightarrow> bytes \<Rightarrow> bool" where
  "matches P c s p \<longleftrightarrow> well_formed p \<and> endpoints p = reversed (endpoints (c_raw c)) \<and>
     (case s of
        Fake d flags \<Rightarrow> seg_payload p = d \<and> seg_ttl p = c_fake_ttl c
          \<and> seg_seq p = seg_ack (c_raw c) + drift_seq P \<and> seg_ack p = seg_seq (c_raw c) + drift_ack P
          \<and> seg_flags p = tcp_flags flags (c_raw c ! 33)
      | Data off n \<Rightarrow> seg_payload p = take n (drop off (c_data c)) \<and> seg_ttl p = word_of_int (c_default_ttl c)
          \<and> seg_seq p = seg_ack (c_raw c) + word_of_nat off \<and> seg_ack p = seg_seq (c_raw c) + 1
          \<and> seg_flags p = tcp_flags None (c_raw c ! 33))"

definition ctx_ok :: "desync_ctx \<Rightarrow> bool" where
  "ctx_ok c \<longleftrightarrow> 40 \<le> length (c_raw c) \<and> ihl (c_raw c) = 5 \<and> c_split c \<le> c_last c
     \<and> unat (c_last c) \<le> length (c_data c) \<and> unat (c_last c) \<le> 65495"

definition sent :: "hist \<Rightarrow> bytes list" where
  "sent h = concat (map (\<lambda>ev. case ev of Sendto fd a p True \<Rightarrow> [p] | _ \<Rightarrow> []) h)"

lemma sent_simps [simp]:
  "sent [] = []" "sent (h @ t) = sent h @ sent t" "sent (Sendto fd a p True # t) = p # sent t"
  "sent (Sendto fd a p False # t) = sent t" "sent (Rand r # t) = sent t" "sent (Close fd # t) = sent t"
  "sent (Getsockopt fd opt v # t) = sent t" "sent (Setsockopt fd opt w ok # t) = sent t"
  "sent (Socket k s # t) = sent t"
  by (simp_all add: sent_def)

lemma ucast_ucast_8_16 [simp]: "(ucast (ucast (b :: u8) :: u16) :: u8) = b"
  by (rule bit_word_eqI) (auto simp: bit_simps)

lemma payload_of_Some: "unat n \<le> length d \<Longrightarrow> payload_of (Some d) n = Some (take (unat n) d)"
  by (auto simp: payload_of_def)

lemma fake_packet_ok:
  assumes c: "ctx_ok c" and n: "unat n \<le> 65495" and pay: "payload_of d n = Some payload" "length payload = unat n"
  obtains p where "fake_packet P c d n flags ident = ret p" "matches P c (Fake payload flags) p"
    "length p = 40 + unat n"
proof -
  have raw: "40 \<le> length (c_raw c)" "ihl (c_raw c) = 5" using c by (simp_all add: ctx_ok_def)
  show thesis
    by (rule form_packet_answers [OF raw n pay, of ident "ucast (c_fake_ttl c)" "drift_seq P" "drift_ack P" "word_of_int (c_mss c)" flags])
      (rule that, simp_all add: fake_packet_def the_or_def matches_def)
qed

lemma ucast_ttl: "(ucast (word_of_int k :: u16) :: u8) = word_of_int k"
  by (rule bit_word_eqI) (auto simp: bit_simps)

lemma data_packet_ok:
  assumes c: "ctx_ok c" and n: "unat off + unat n \<le> unat (c_last c)"
  obtains p where "data_packet P c off n ident = ret p" "matches P c (Data (unat off) (unat n)) p"
    "length p = 40 + unat n"
proof -
  have raw: "40 \<le> length (c_raw c)" "ihl (c_raw c) = 5" and l: "unat (c_last c) \<le> length (c_data c)"
    "unat n \<le> 65495" using c n by (auto simp: ctx_ok_def)
  have pay: "payload_of (Some (drop (unat off) (c_data c))) n = Some (take (unat n) (drop (unat off) (c_data c)))"
    "length (take (unat n) (drop (unat off) (c_data c))) = unat n"
    using l n by (auto intro: payload_of_Some)
  show thesis
    by (rule form_packet_answers [OF raw l(2) pay, of ident "word_of_int (c_default_ttl c)" "off" "1" "data_window P c" None])
      (rule that, use l n in \<open>simp_all add: data_packet_def the_or_def matches_def ucast_ttl\<close>)
qed

text \<open>Since \<open>h1\<close> exactly the packets for \<open>dn\<close> went out and the raw socket is open; or a send failed
  after a part of the plan, the socket is closed and the function returns -1.\<close>

definition tried :: "Profile_s \<Rightarrow> desync_ctx \<Rightarrow> hist \<Rightarrow> segment list \<Rightarrow> hist \<Rightarrow> bool" where
  "tried P c h1 dn h = (\<exists>t. h = h1 @ t \<and> list_all2 (matches P c) dn (sent t) \<and> Close (c_fd c) \<notin> set t)"

definition gave_up :: "Profile_s \<Rightarrow> desync_ctx \<Rightarrow> hist \<Rightarrow> segment list \<Rightarrow> stop \<Rightarrow> hist \<Rightarrow> bool" where
  "gave_up P c h1 plan x h = (x = Return (-1) \<and>
     (\<exists>t dn. h = h1 @ t @ [Close (c_fd c)] \<and> prefix dn plan
       \<and> list_all2 (matches P c) dn (sent t) \<and> Close (c_fd c) \<notin> set t))"

lemma send_packet_hoare:
  assumes "matches P c s p" "0 < length p" "length p < 2 ^ 32" "prefix (dn @ [s]) plan"
  shows "hoare (tried P c h1 dn) (send_packet e c p) (\<lambda>_. tried P c h1 (dn @ [s])) (gave_up P c h1 plan)"
proof (rule hoareI)
  fix h assume "tried P c h1 dn h"
  then obtain t where t: "h = h1 @ t" "list_all2 (matches P c) dn (sent t)" "Close (c_fd c) \<notin> set t"
    by (auto simp: tried_def)
  have l: "(word_of_nat (length p) :: u32) \<noteq> 0" "unat (word_of_nat (length p) :: u32) = length p"
  proof -
    show u: "unat (word_of_nat (length p) :: u32) = length p"
      using assms(3) by (simp add: unsigned_of_nat take_bit_nat_eq_self)
    then show "(word_of_nat (length p) :: u32) \<noteq> 0" using assms(2) by (metis less_numeral_extra(3) unsigned_0)
  qed
  have pr: "prefix dn plan" using assms(4) by (meson prefix_order.trans prefixI)
  let ?s = "\<lambda>ok. Sendto (c_fd c) (c_addr c) p ok"
  have "tried P c h1 (dn @ [s]) (h @ [?s True])"
    unfolding tried_def using t assms(1) by (intro exI [of _ "t @ [?s True]"]) (simp add: list_all2_appendI)
  moreover have "gave_up P c h1 plan (Return (-1)) (h @ [?s False, Close (c_fd c)])"
    unfolding gave_up_def using t pr by (intro conjI refl exI [of _ "t @ [?s False]"] exI [of _ "dn"]) simp_all
  ultimately show "wp (send_packet e c p) (\<lambda>_. tried P c h1 (dn @ [s])) (gave_up P c h1 plan) h"
    using l by (simp add: send_packet_def send_string_raw_def os_wp)
qed

lemma tried_rand [simp]: "tried P c h1 dn h \<Longrightarrow> tried P c h1 dn (h @ [Rand r])"
  unfolding tried_def by (elim exE conjE, rule_tac x = "t @ [Rand r]" in exI) simp


text \<open>A step of the plan: the action builds the packet for it and sends it.\<close>

lemma step_hoare:
  assumes "m = bnd (ret p) (send_packet e c)" "matches P c s p" "length p = 40 + unat (n :: u32)"
    "unat n \<le> 65495" "prefix (dn @ [s]) plan"
  shows "hoare (tried P c h1 dn) m (\<lambda>_. tried P c h1 (dn @ [s])) (gave_up P c h1 plan)"
  unfolding assms(1) bnd_laws by (rule send_packet_hoare [OF assms(2) _ _ assms(5)]) (use assms(3,4) in simp_all)

lemma hoare_rand_id:
  assumes "\<And>ident. hoare (tried P c h1 dn) (m ident) Q E"
  shows "hoare (tried P c h1 dn) (bnd (rand_id e) m) Q E"
proof (rule hoareI)
  fix h assume "tried P c h1 dn h"
  then have "tried P c h1 dn (h @ [Rand r])" for r by simp
  then show "wp (bnd (rand_id e) m) Q E h"
    using assms by (simp add: rand_id_def os_wp hoare_def)
qed

lemma fake_lengths: "length FAKE_TLS_PACKET = 517" "length FAKE_HTTP_PACKET < 1000"
  by (simp_all add: FAKE_TLS_PACKET_def FAKE_HTTP_PACKET_def bytes_of_def CRLF_def)

lemma zero_attack_hoare:
  assumes c: "ctx_ok c" and pre: "prefix (zero_plan P is_https) plan"
  shows "hoare (tried P c h1 []) (zero_attack e P c is_https)
    (\<lambda>_. tried P c h1 (zero_plan P is_https)) (gave_up P c h1 plan)"
proof -
  have fl: "length FAKE_TLS_PACKET < 1000" using fake_lengths by simp
  have data: "hoare (tried P c h1 []) (bnd (fake_packet P c (Some d) (word_of_nat (length d)) None ident) (send_packet e c))
      (\<lambda>_. tried P c h1 [Fake d None]) (gave_up P c h1 plan)"
    if d: "length d < 1000" "prefix [Fake d None] plan" for d ident
  proof -
    have u: "unat (word_of_nat (length d) :: u32) = length d"
      using d(1) by (simp add: unsigned_of_nat take_bit_nat_eq_self)
    have pay: "payload_of (Some d) (word_of_nat (length d)) = Some d" using payload_of_Some [of "word_of_nat (length d)" d] u by simp
    obtain p where p: "fake_packet P c (Some d) (word_of_nat (length d)) None ident = ret p"
      "matches P c (Fake d None) p" "length p = 40 + unat (word_of_nat (length d) :: u32)"
      by (rule fake_packet_ok [OF c _ pay]) (use u d(1) in auto)
    show ?thesis using step_hoare [OF _ p(2,3), where e = e and dn = "[]" and plan = plan] p(1) u d by simp
  qed
  have rst: "hoare (tried P c h1 []) (bnd (fake_packet P c None 0 (Some f) ident) (send_packet e c))
      (\<lambda>_. tried P c h1 [Fake [] (Some f)]) (gave_up P c h1 plan)"
    if "prefix [Fake [] (Some f)] plan" for f ident
  proof -
    obtain p where p: "fake_packet P c None 0 (Some f) ident = ret p"
      "matches P c (Fake [] (Some f)) p" "length p = 40 + unat (0 :: u32)"
      by (rule fake_packet_ok [OF c, of 0 None "[]"]) (auto simp: payload_of_def)
    show ?thesis using step_hoare [of _ p e c P "Fake [] (Some f)" 0 "[]"] p that by simp
  qed
  show ?thesis
    using pre fl fake_lengths(2)
    by (auto simp: zero_attack_def zero_plan_def Let_def split: Desync_zero_attacks.splits
        intro!: hoare_rand_id data rst hoare_ret)
qed

lemma split_sizes: "ctx_ok c \<Longrightarrow> unat (c_last c - c_split c) = unat (c_last c) - unat (c_split c)"
  "ctx_ok c \<Longrightarrow> unat (c_split c) \<le> unat (c_last c)"
  by (auto simp: ctx_ok_def unat_sub word_le_nat_alt)

lemma send_data_hoare:
  assumes c: "ctx_ok c" and n: "unat off + unat n \<le> unat (c_last c)"
    and pre: "prefix (dn @ [Data (unat off) (unat n)]) plan"
  shows "hoare (tried P c h1 dn) (send_data e P c off n ident)
    (\<lambda>_. tried P c h1 (dn @ [Data (unat off) (unat n)])) (gave_up P c h1 plan)"
proof -
  obtain p where p: "data_packet P c off n ident = ret p" "matches P c (Data (unat off) (unat n)) p"
    "length p = 40 + unat n" by (rule data_packet_ok [OF c n])
  have "unat n \<le> 65495" using c n by (auto simp: ctx_ok_def)
  then show ?thesis using step_hoare [OF _ p(2,3) _ pre] p(1) by (simp add: send_data_def)
qed

lemma first_attack_hoare:
  assumes c: "ctx_ok c" and pre: "prefix (dn @ first_plan P (unat (c_last c)) (unat (c_split c))) plan"
  shows "hoare (tried P c h1 dn) (first_attack e P c)
    (\<lambda>_. tried P c h1 (dn @ first_plan P (unat (c_last c)) (unat (c_split c)))) (gave_up P c h1 plan)"
proof -
  note sz = split_sizes [OF c]
  define f s fk where "f = Data 0 (unat (c_split c))"
    and "s = Data (unat (c_split c)) (unat (c_last c) - unat (c_split c))"
    and "fk = Fake (replicate (unat (c_split c)) 0) None"
  have first: "hoare (tried P c h1 d) (send_first e P c) (\<lambda>_. tried P c h1 (d @ [f])) (gave_up P c h1 plan)"
    if "prefix (d @ [f]) plan" for d
    using send_data_hoare [OF c, of 0 "c_split c" d plan P h1 e] sz that by (simp add: f_def send_first_def)
  have second: "hoare (tried P c h1 d) (send_second e P c) (\<lambda>_. tried P c h1 (d @ [s])) (gave_up P c h1 plan)"
    if "prefix (d @ [s]) plan" for d
    using send_data_hoare [OF c, of "c_split c" "c_last c - c_split c" d plan P h1 e] sz that
    by (auto simp: s_def send_second_def intro!: hoare_rand_id)
  have whole: "hoare (tried P c h1 d) (send_whole e P c) (\<lambda>_. tried P c h1 (d @ [Data 0 (unat (c_last c))])) (gave_up P c h1 plan)"
    if "prefix (d @ [Data 0 (unat (c_last c))]) plan" for d
    using send_data_hoare [OF c, of 0 "c_last c" d plan P h1 e] that
    by (auto simp: send_whole_def intro!: hoare_rand_id)
  have pay: "payload_of (Some (replicate (unat (c_last c)) 0)) (c_split c) = Some (replicate (unat (c_split c)) 0)"
    using payload_of_Some [of "c_split c" "replicate (unat (c_last c)) 0"] sz by (simp add: min_absorb1)
  obtain p where p: "first_fake P c = ret p" "matches P c fk p" "length p = 40 + unat (c_split c)"
    by (rule fake_packet_ok [OF c _ pay, where flags = None and ident = "c_id_first c" and P = P])
      (use c sz in \<open>auto simp: first_fake_def fk_def ctx_ok_def\<close>)
  have fake: "hoare (tried P c h1 d) (send_packet e c p) (\<lambda>_. tried P c h1 (d @ [fk])) (gave_up P c h1 plan)"
    if "prefix (d @ [fk]) plan" for d
    by (rule send_packet_hoare [OF p(2) _ _ that]) (use p(3) c sz in \<open>auto simp: ctx_ok_def\<close>)
  have pl: "prefix (dn @ take k l) plan" if "first_plan P (unat (c_last c)) (unat (c_split c)) = l" for k l
    using pre that by (metis prefix_order.trans same_prefix_prefix take_is_prefix)
  show ?thesis
  proof (cases "desync_first_attack P")
    case DESYNC_FIRST_DISORDER
    then have l: "first_plan P (unat (c_last c)) (unat (c_split c)) = [s, f]" by (simp add: first_plan_def s_def f_def)
    show ?thesis using hoare_then_do [OF second [of "dn"] first [of "dn @ [s]"]] pl [OF l, of 1] pl [OF l, of 2] DESYNC_FIRST_DISORDER
      by (simp add: first_attack_def l)
  next
    case DESYNC_FIRST_DISORDER_FAKE
    then have l: "first_plan P (unat (c_last c)) (unat (c_split c)) = [s, fk, f, fk]" by (simp add: first_plan_def s_def f_def fk_def Let_def)
    show ?thesis using hoare_then_do [OF second [of "dn"] hoare_then_do [OF fake [of "dn @ [s]"] hoare_then_do [OF first [of "(dn @ [s]) @ [fk]"] fake [of "((dn @ [s]) @ [fk]) @ [f]"]]]] pl [OF l, of 1] pl [OF l, of 2] pl [OF l, of 3] pl [OF l, of 4] DESYNC_FIRST_DISORDER_FAKE
      by (simp add: first_attack_def l send_first_faked_def p(1))
  next
    case DESYNC_FIRST_SPLIT
    then have l: "first_plan P (unat (c_last c)) (unat (c_split c)) = [f, s]" by (simp add: first_plan_def s_def f_def)
    show ?thesis using hoare_then_do [OF first [of "dn"] second [of "dn @ [f]"]] pl [OF l, of 1] pl [OF l, of 2] DESYNC_FIRST_SPLIT
      by (simp add: first_attack_def l)
  next
    case DESYNC_FIRST_SPLIT_FAKE
    then have l: "first_plan P (unat (c_last c)) (unat (c_split c)) = [fk, f, fk, s]" by (simp add: first_plan_def s_def f_def fk_def Let_def)
    show ?thesis using hoare_then_do [OF hoare_then_do [OF fake [of "dn"] hoare_then_do [OF first [of "dn @ [fk]"] fake [of "(dn @ [fk]) @ [f]"]]] second [of "((dn @ [fk]) @ [f]) @ [fk]"]] pl [OF l, of 1] pl [OF l, of 2] pl [OF l, of 3] pl [OF l, of 4] DESYNC_FIRST_SPLIT_FAKE
      by (simp add: first_attack_def l send_first_faked_def p(1))
  next
    case DESYNC_FIRST_NONE
    then have l: "first_plan P (unat (c_last c)) (unat (c_split c)) = [Data 0 (unat (c_last c))]" by (simp add: first_plan_def)
    show ?thesis using whole [of "dn"] pl [OF l, of 1] DESYNC_FIRST_NONE by (simp add: first_attack_def l)
  qed
qed

text \<open>The course of an attack: the raw socket could not be opened, or it was opened and closed again
  at the end, exactly once, and what went out in between carries out a part of the plan. The result
  is 0 for the whole plan, and -1 otherwise and in the case without fakes.\<close>

definition attack_course :: "os \<Rightarrow> Profile_s \<Rightarrow> int \<Rightarrow> bool \<Rightarrow> bytes \<Rightarrow> bytes \<Rightarrow> u32 \<Rightarrow> u32 \<Rightarrow> int
    \<Rightarrow> hist \<Rightarrow> bool" where
  "attack_course e P socket_srv is_https raw data last_char split_pos r t \<longleftrightarrow>
     (r = -1 \<and> t = [Socket SOCK_RAW None]) \<or>
     (\<exists>fd u. t = Socket SOCK_RAW (Some fd) # u @ [Close fd] \<and> Close fd \<notin> set u
        \<and> (r = -1 \<and> sent u = [] \<or>
           (\<exists>c dn. c_raw c = raw \<and> c_data c = data \<and> c_last c = last_char \<and> c_split c = split_pos
              \<and> (\<exists>h. os_getsockopt e h socket_srv IP_TTL = Some (c_default_ttl c))
              \<and> c_fake_ttl c = choose_fake_ttl P raw (c_default_ttl c)
              \<and> prefix dn (attack_plan P is_https raw (unat last_char) (unat split_pos))
              \<and> list_all2 (matches P c) dn (sent u)
              \<and> (if r = 0 then dn = attack_plan P is_https raw (unat last_char) (unat split_pos)
                      \<and> \<not> no_fakes P raw
                 else r = -1))))"

lemma attack_body_hoare:
  assumes c: "ctx_ok c" and h1: "h1 = h0 @ Socket SOCK_RAW (Some (c_fd c)) # u" "Close (c_fd c) \<notin> set u" "sent u = []"
    and e: "os_getsockopt e h' socket_srv IP_TTL = Some (c_default_ttl c)"
    "c_fake_ttl c = choose_fake_ttl P (c_raw c) (c_default_ttl c)"
  shows "wp (send_plan e P c is_https)
    (\<lambda>r h. \<exists>t. h = h0 @ t \<and> attack_course e P socket_srv is_https (c_raw c) (c_data c) (c_last c) (c_split c) r t)
    (\<lambda>x h. \<exists>t. x = Return (-1) \<and> h = h0 @ t \<and> attack_course e P socket_srv is_https (c_raw c) (c_data c) (c_last c) (c_split c) (-1) t) h1"
    (is "wp ?m ?Q ?E h1")
proof -
  let ?l = "unat (c_last c)" and ?s = "unat (c_split c)"
  let ?plan = "attack_plan P is_https (c_raw c) ?l ?s"
  have t0: "tried P c h1 [] h1" by (auto simp: tried_def)
  have course: "attack_course e P socket_srv is_https (c_raw c) (c_data c) (c_last c) (c_split c) r
      (Socket SOCK_RAW (Some (c_fd c)) # (u @ t) @ [Close (c_fd c)])"
    if "prefix dn ?plan" "list_all2 (matches P c) dn (sent t)" "Close (c_fd c) \<notin> set t"
      "if r = 0 then dn = ?plan \<and> \<not> no_fakes P (c_raw c) else r = -1" for dn t r
    unfolding attack_course_def using that h1(2,3) e
    by (intro disjI2 exI [of _ "c_fd c"] exI [of _ "u @ t"] conjI exI [of _ c] exI [of _ dn] exI [of _ h']) auto
  have E: "?E x h" if g: "gave_up P c h1 ?plan x h" for x h
  proof -
    obtain t dn where "x = Return (-1)" "h = h1 @ t @ [Close (c_fd c)]" "prefix dn ?plan"
      "list_all2 (matches P c) dn (sent t)" "Close (c_fd c) \<notin> set t" using g by (auto simp: gave_up_def)
    with course [of dn t "-1"] h1(1) show ?thesis by auto
  qed
  have fin: "\<exists>t. h @ [Close (c_fd c)] = h0 @ t \<and> attack_course e P socket_srv is_https (c_raw c) (c_data c) (c_last c) (c_split c) r t"
    if g: "tried P c h1 ?plan h" "if r = 0 then \<not> no_fakes P (c_raw c) else r = -1" for h r
  proof -
    obtain t where "h = h1 @ t" "list_all2 (matches P c) ?plan (sent t)" "Close (c_fd c) \<notin> set t"
      using g(1) by (auto simp: tried_def)
    with course [of ?plan t r] h1(1) g(2) show ?thesis by auto
  qed
  show ?thesis
  proof (cases "no_fakes P (c_raw c)")
    case True
    then have pl: "?plan = [Data 0 ?l]" by (simp add: attack_plan_def)
    have W: "hoare (tried P c h1 []) (send_whole e P c) (\<lambda>_. tried P c h1 ?plan) (gave_up P c h1 ?plan)"
      unfolding send_whole_def by (rule hoare_rand_id) (use send_data_hoare [OF c, of 0 "c_last c" "[]" ?plan P h1 e] pl in simp)
    have "wp (then_do (send_whole e P c) (close_and_fail (c_fd c))) ?Q ?E h1"
      unfolding wp_then_do
    proof (rule wp_use [where h = h1, OF W t0])
      fix h assume "tried P c h1 ?plan h"
      with fin [of h "-1"] True show "wp (close_and_fail (c_fd c)) ?Q ?E h"
        by (simp add: close_and_fail_def os_wp)
    qed (rule E)
    with True show ?thesis by (simp add: send_plan_def)
  next
    case False
    then have pl: "?plan = zero_plan P is_https @ first_plan P ?l ?s" by (simp add: attack_plan_def)
    have z: "hoare (tried P c h1 []) (zero_attack e P c is_https) (\<lambda>_. tried P c h1 (zero_plan P is_https)) (gave_up P c h1 ?plan)"
      by (rule zero_attack_hoare [OF c]) (simp add: pl)
    have f: "hoare (tried P c h1 (zero_plan P is_https)) (first_attack e P c) (\<lambda>_. tried P c h1 ?plan) (gave_up P c h1 ?plan)"
      using first_attack_hoare [OF c, of "zero_plan P is_https" P ?plan h1 e] by (simp add: pl)
    have "wp (then_do (zero_attack e P c is_https) (then_do (first_attack e P c) (then_do (close (c_fd c)) (ret 0)))) ?Q ?E h1"
      unfolding wp_then_do
    proof (rule wp_use [where h = h1, OF z t0])
      fix h assume z1: "tried P c h1 (zero_plan P is_https) h"
      show "wp (first_attack e P c) (\<lambda>_. wp (close (c_fd c)) (\<lambda>_. wp (ret 0) ?Q ?E) ?E) ?E h"
      proof (rule wp_use [where h = h, OF f z1])
        fix h assume "tried P c h1 ?plan h"
        with fin [of h 0] False show "wp (close (c_fd c)) (\<lambda>_. wp (ret 0) ?Q ?E) ?E h"
          by (simp add: os_wp)
      qed (rule E)
    qed (rule E)
    with False show ?thesis by (simp add: send_plan_def)
  qed
qed

lemma open_raw_socket_hoare:
  "hoare (\<lambda>h. h = h0) (open_raw_socket e)
     (\<lambda>fd h. h = h0 @ [Socket SOCK_RAW (Some fd), Setsockopt fd SO_SNDBUF 0 True, Setsockopt fd IP_HDRINCL 1 True])
     (\<lambda>x h. x = Return (-1) \<and> (h = h0 @ [Socket SOCK_RAW None]
        \<or> (\<exists>fd u. h = h0 @ Socket SOCK_RAW (Some fd) # u @ [Close fd] \<and> Close fd \<notin> set u \<and> sent u = [])))"
  by (auto simp: hoare_def open_raw_socket_def need_def close_and_fail_def os_wp split: option.splits)

lemma do_desync_attack_hoare:
  assumes "40 \<le> length packet_raw" "ihl packet_raw = 5" "split_pos \<le> last_char"
    "unat last_char \<le> length packet_data" "unat last_char \<le> 65495"
  shows "hoare (\<lambda>h. h = h0) (do_desync_attack e P socket_srv ip_srv port_srv is_https packet_raw packet_data last_char split_pos)
    (\<lambda>r h. \<exists>t. h = h0 @ t \<and> attack_course e P socket_srv is_https packet_raw packet_data last_char split_pos r t)
    (\<lambda>x h. False)"
proof (rule hoareI)
  fix h assume h: "h = h0"
  let ?A = "attack_course e P socket_srv is_https packet_raw packet_data last_char split_pos"
  let ?Q = "\<lambda>r h. \<exists>t. h = h0 @ t \<and> ?A r t"
  let ?E = "\<lambda>x h. case x of Return r \<Rightarrow> ?Q r h | _ \<Rightarrow> False"
  have fail: "?A (-1) (Socket SOCK_RAW (Some fd) # u @ [Close fd])" if "Close fd \<notin> set u" "sent u = []" for fd u
    using that by (auto simp: attack_course_def)
  have fail0: "?A (-1) [Socket SOCK_RAW None]" by (simp add: attack_course_def)
  show "wp (do_desync_attack e P socket_srv ip_srv port_srv is_https packet_raw packet_data last_char split_pos) ?Q (\<lambda>x h. False) h"
    unfolding do_desync_attack_def wp_returning wp_bnd
  proof (rule wp_use [where h = h, OF open_raw_socket_hoare h])
    fix x :: stop and h
    assume "x = Return (-1) \<and> (h = h0 @ [Socket SOCK_RAW None]
        \<or> (\<exists>fd u. h = h0 @ Socket SOCK_RAW (Some fd) # u @ [Close fd] \<and> Close fd \<notin> set u \<and> sent u = []))"
    then show "?E x h" using fail fail0 by auto
  next
    fix fd h
    let ?u = "[Setsockopt fd SO_SNDBUF 0 True, Setsockopt fd IP_HDRINCL 1 True]"
    assume h: "h = h0 @ [Socket SOCK_RAW (Some fd), Setsockopt fd SO_SNDBUF 0 True, Setsockopt fd IP_HDRINCL 1 True]"
    let ?h = "h0 @ Socket SOCK_RAW (Some fd) # ?u"
    show "wp (getsockopt e socket_srv IP_TTL)
     (\<lambda>x. wp (need_some fd x)
            (\<lambda>x. wp (getsockopt e socket_srv TCP_MAXSEG)
                   (\<lambda>xa. wp (need_some fd xa)
                          (\<lambda>xa. wp (rand_id e)
                                 (\<lambda>xb. wp (if (auto_ttl P \<or> min_ttl P \<noteq> 0) \<and> length packet_raw < 9 then raise Undefined
                                       else send_plan e P \<lparr>c_fd = fd, c_addr = Sockaddr (inet_addr ip_srv) (word_of_int port_srv),
                    c_raw = packet_raw, c_data = packet_data, c_last = last_char, c_split = split_pos,
                    c_default_ttl = x, c_mss = xa,
                    c_fake_ttl = choose_fake_ttl P packet_raw x, c_id_first = xb\<rparr> is_https) ?Q ?E)
                                 ?E)
                          ?E)
                   ?E)
            ?E) ?E h"
    proof (cases "os_getsockopt e ?h socket_srv IP_TTL")
      case None
      then show ?thesis using fail [of fd "?u @ [Getsockopt socket_srv IP_TTL None]"]
        by (simp add: h need_some_def close_and_fail_def os_wp)
    next
      case (Some ttl)
      note ttl = Some
      let ?g = "Getsockopt socket_srv IP_TTL (Some ttl)"
      show ?thesis
      proof (cases "os_getsockopt e (?h @ [?g]) socket_srv TCP_MAXSEG")
        case None
        then show ?thesis using ttl fail [of fd "?u @ [?g, Getsockopt socket_srv TCP_MAXSEG None]"]
          by (simp add: h need_some_def close_and_fail_def os_wp)
      next
        case (Some mss)
        let ?g2 = "Getsockopt socket_srv TCP_MAXSEG (Some mss)"
        let ?r = "os_rand e (?h @ [?g, ?g2])"
        let ?c = "\<lparr>c_fd = fd, c_addr = Sockaddr (inet_addr ip_srv) (word_of_int port_srv),
                    c_raw = packet_raw, c_data = packet_data, c_last = last_char, c_split = split_pos,
                    c_default_ttl = ttl, c_mss = mss,
                    c_fake_ttl = choose_fake_ttl P packet_raw ttl, c_id_first = word_of_nat (?r mod 65535)\<rparr>"
        have c: "ctx_ok ?c" using assms by (simp add: ctx_ok_def)
        have "wp (send_plan e P ?c is_https) ?Q ?E (h0 @ Socket SOCK_RAW (Some (c_fd ?c)) # ?u @ [?g, ?g2, Rand ?r])"
          by (rule wp_mono [OF attack_body_hoare [OF c refl, where h' = ?h and u = "?u @ [?g, ?g2, Rand ?r]"]])
            (use ttl in auto)
        then show ?thesis using assms(1) ttl Some
          by (simp add: h need_some_def os_wp rand_id_def)
      qed
    qed
  qed
qed

text \<open>C2: The course of \<open>do_desync_attack\<close> for a captured packet of at least 40 bytes without IP options, a split
  position up to \<open>last_char\<close>, and \<open>last_char\<close> inside the data and at most 65495 (a longer segment overflows the length
  field). Then, whatever the system answers, the function reads and writes only inside the packets it builds, opens
  one raw socket and closes it exactly once, and the packets in between carry out the plan of the
  profile in order, well-formed and with both checksums valid: all of it when the result is 0, a
  prefix when a call fails, and the unmodified data only in the case without fakes, where the result is -1. The
  conditions are needed: with IP options \<open>form_packet\<close> writes behind its buffer (\<open>form_packet_options\<close>), and an empty
  capture gives malformed packets (\<open>form_packet_no_capture\<close>).\<close>

theorem do_desync_attack_course:
  assumes "40 \<le> length packet_raw" "ihl packet_raw = 5" "split_pos \<le> last_char"
    "unat last_char \<le> length packet_data" "unat last_char \<le> 65495"
  shows "hoare (\<lambda>h. h = h0) (do_desync_attack e P socket_srv ip_srv port_srv is_https packet_raw packet_data last_char split_pos)
    (\<lambda>r h. \<exists>t. h = h0 @ t \<and> attack_course e P socket_srv is_https packet_raw packet_data last_char split_pos r t)
    (\<lambda>x h. False)"
  using assms by (rule do_desync_attack_hoare)

section \<open>What the server assembles\<close>

text \<open>A packet whose TTL is smaller than the number of hops is dropped on the way. The receiver puts
  the payload at the offset its sequence number gives, and keeps what it got first.\<close>

definition reaches :: "nat \<Rightarrow> bytes \<Rightarrow> bool" where
  "reaches hops p = (hops \<le> unat (seg_ttl p))"

definition seg_offset :: "u32 \<Rightarrow> bytes \<Rightarrow> nat" where
  "seg_offset isn p = unat (seg_seq p - isn)"

definition lands :: "u32 \<Rightarrow> nat \<Rightarrow> bytes \<Rightarrow> bool" where
  "lands isn i p = (seg_offset isn p \<le> i \<and> i < seg_offset isn p + length (seg_payload p))"

definition stream_byte :: "u32 \<Rightarrow> bytes list \<Rightarrow> nat \<Rightarrow> byte option" where
  "stream_byte isn pkts i = (case find (lands isn i) pkts of
     None \<Rightarrow> None | Some p \<Rightarrow> Some (seg_payload p ! (i - seg_offset isn p)))"

lemma stream_byte_eqI:
  assumes "\<And>p. p \<in> set pkts \<Longrightarrow> lands isn i p \<Longrightarrow> i < n \<and> seg_payload p ! (i - seg_offset isn p) = d ! i"
    and "i < n \<Longrightarrow> \<exists>p\<in>set pkts. lands isn i p"
  shows "stream_byte isn pkts i = (if i < n then Some (d ! i) else None)"
proof (cases "find (lands isn i) pkts")
  case None
  then have "\<not> i < n" using assms(2) by (auto simp: find_None_iff)
  then show ?thesis using None by (simp add: stream_byte_def)
next
  case (Some p)
  then have "p \<in> set pkts" "lands isn i p" by (auto simp: find_Some_iff)
  then show ?thesis using Some assms(1) by (simp add: stream_byte_def)
qed

lemma plan_data:
  assumes "s = Data off n" "s \<in> set (attack_plan P is_https raw last_char split_pos)" "split_pos \<le> last_char"
  shows "off + n \<le> last_char"
  using assms by (auto simp: attack_plan_def zero_plan_def first_plan_def Let_def
      split: if_splits Desync_zero_attacks.splits Desync_first_attacks.splits)

lemma plan_covers:
  assumes "i < last_char" "split_pos \<le> last_char"
  obtains off n where "Data off n \<in> set (attack_plan P is_https raw last_char split_pos)" "off \<le> i" "i < off + n"
proof (cases "desync_first_attack P = DESYNC_FIRST_NONE \<or> no_fakes P raw")
  case True
  then have "Data 0 last_char \<in> set (attack_plan P is_https raw last_char split_pos)"
    by (auto simp: attack_plan_def first_plan_def Let_def)
  then show ?thesis using that [of 0 last_char] assms by simp
next
  case False
  then have "Data 0 split_pos \<in> set (attack_plan P is_https raw last_char split_pos)"
    "Data split_pos (last_char - split_pos) \<in> set (attack_plan P is_https raw last_char split_pos)"
    by (auto simp: attack_plan_def first_plan_def Let_def split: Desync_first_attacks.splits)
  then show ?thesis using that [of 0 split_pos] that [of split_pos "last_char - split_pos"] assms
    by (cases "i < split_pos") auto
qed

lemma matches_data:
  assumes "matches P c (Data off n) p" "off + n \<le> unat (c_last c)" "ctx_ok c"
  shows "seg_offset (seg_ack (c_raw c)) p = off" "length (seg_payload p) = n"
    "j < n \<Longrightarrow> seg_payload p ! j = c_data c ! (off + j)"
proof -
  have l: "unat (c_last c) \<le> length (c_data c)" "off < 2 ^ 32" using assms(2,3) by (auto simp: ctx_ok_def)
  have "unat (word_of_nat off :: u32) = off" using l(2) by (simp add: unsigned_of_nat take_bit_nat_eq_self)
  then show "seg_offset (seg_ack (c_raw c)) p = off" using assms(1) by (simp add: seg_offset_def matches_def)
  show "length (seg_payload p) = n" "j < n \<Longrightarrow> seg_payload p ! j = c_data c ! (off + j)"
    using assms l(1) by (simp_all add: matches_def)
qed

lemma plan_delivers:
  assumes c: "ctx_ok c" and m: "list_all2 (matches P c) (attack_plan P is_https raw (unat (c_last c)) (unat (c_split c))) pkts"
    and ttl: "unat (c_fake_ttl c) < hops" "hops \<le> unat (word_of_int (c_default_ttl c) :: u8)"
  shows "stream_byte (seg_ack (c_raw c)) (filter (reaches hops) pkts) i
    = (if i < unat (c_last c) then Some (c_data c ! i) else None)"
proof (rule stream_byte_eqI)
  note sz = split_sizes(2) [OF c]
  fix p assume "p \<in> set (filter (reaches hops) pkts)" and l: "lands (seg_ack (c_raw c)) i p"
  then obtain s where s: "s \<in> set (attack_plan P is_https raw (unat (c_last c)) (unat (c_split c)))"
    "matches P c s p" and r: "hops \<le> unat (seg_ttl p)"
    using m by (auto simp: list_all2_conv_all_nth in_set_conv_nth reaches_def) (metis nth_mem)
  show "i < unat (c_last c) \<and> seg_payload p ! (i - seg_offset (seg_ack (c_raw c)) p) = c_data c ! i"
  proof (cases s)
    case (Fake d fl)
    then show ?thesis using s(2) r ttl(1) by (simp add: matches_def)
  next
    case (Data off n)
    have b: "off + n \<le> unat (c_last c)" by (rule plan_data [OF Data s(1) sz])
    note d = matches_data [OF s(2) [unfolded Data] b c]
    have "off \<le> i" "i - off < n" using l by (auto simp: lands_def d(1,2))
    then show ?thesis using b d(3) [of "i - off"] by (simp add: d(1))
  qed
next
  note sz = split_sizes(2) [OF c]
  assume "i < unat (c_last c)"
  then obtain off n where d: "Data off n \<in> set (attack_plan P is_https raw (unat (c_last c)) (unat (c_split c)))"
    "off \<le> i" "i < off + n" by (rule plan_covers [OF _ sz])
  then obtain p where p: "p \<in> set pkts" "matches P c (Data off n) p"
    using m by (auto simp: list_all2_conv_all_nth in_set_conv_nth) (metis nth_mem)
  have b: "off + n \<le> unat (c_last c)" by (rule plan_data [OF refl d(1) sz])
  have "reaches hops p" using p(2) ttl(2) by (simp add: matches_def reaches_def)
  moreover have "lands (seg_ack (c_raw c)) i p"
    using d(2,3) by (simp add: lands_def matches_data(1,2) [OF p(2) b c])
  ultimately show "\<exists>p\<in>set (filter (reaches hops) pkts). lands (seg_ack (c_raw c)) i p"
    using p(1) by auto
qed

text \<open>C1: The attack is invisible to the server. When \<open>do_desync_attack\<close> returns 0, a server further
  away than the TTL of the fakes and within the TTL of the data assembles, from the packets that reach
  it, exactly the first \<open>last_char\<close> bytes of the client's data, whatever combination of fakes,
  resets, splits and reordering the profile asks for.\<close>

theorem do_desync_attack_delivers:
  assumes "40 \<le> length packet_raw" "ihl packet_raw = 5" "split_pos \<le> last_char"
    "unat last_char \<le> length packet_data" "unat last_char \<le> 65495"
    and "\<forall>h. os_getsockopt e h socket_srv IP_TTL = Some ttl"
    and "unat (choose_fake_ttl P packet_raw ttl) < hops" "hops \<le> unat (word_of_int ttl :: u8)"
    and "do_desync_attack e P socket_srv ip_srv port_srv is_https packet_raw packet_data last_char split_pos h0
      = (Inr 0, h0 @ t)"
  shows "stream_byte (seg_ack packet_raw) (filter (reaches hops) (sent t)) i
    = (if i < unat last_char then Some (packet_data ! i) else None)"
proof -
  have "attack_course e P socket_srv is_https packet_raw packet_data last_char split_pos 0 t"
    using wp_run(1) [OF hoareD [OF do_desync_attack_hoare [OF assms(1-5)] refl] assms(9)] by simp
  then obtain fd u c where t: "t = Socket SOCK_RAW (Some fd) # u @ [Close fd]"
    and c: "c_raw c = packet_raw" "c_data c = packet_data" "c_last c = last_char" "c_split c = split_pos"
      "c_default_ttl c = ttl" "c_fake_ttl c = choose_fake_ttl P packet_raw ttl"
    and m: "list_all2 (matches P c) (attack_plan P is_https packet_raw (unat last_char) (unat split_pos)) (sent u)"
    using assms(6) by (auto simp: attack_course_def)
  have "ctx_ok c" using assms(1-5) c by (simp add: ctx_ok_def)
  moreover have "sent t = sent u" by (simp add: t)
  ultimately show ?thesis
    using plan_delivers [of c P is_https packet_raw "sent u" hops i] m c assms(7,8) by simp
qed

definition sample_syn_ack :: bytes where
  "sample_syn_ack = [0x45, 0, 0, 44, 0, 0, 0x40, 0, 57, 6, 0, 0, 93, 184, 216, 34, 192, 168, 1, 10,
     1, 187, 0x9c, 0x40, 0x10, 0x20, 0x30, 0x40, 0x50, 0x60, 0x70, 0x80, 0x60, 0x12, 0xfa, 0xf0, 0, 0, 0, 0]
     @ replicate 60 32"

definition split_profile :: Profile_s where
  "split_profile = default_Profile\<lparr>desync_attacks := True, fake_packets_ttl := 3,
     desync_zero_attack := DESYNC_ZERO_RST, desync_first_attack := DESYNC_FIRST_DISORDER_FAKE\<rparr>"


section \<open>When every call succeeds\<close>

definition cooperative :: "os \<Rightarrow> bool" where
  "cooperative e \<longleftrightarrow> (\<forall>h k. os_socket e h k \<noteq> None) \<and> (\<forall>h fd opt v. os_setsockopt e h fd opt v)
     \<and> (\<forall>h fd opt. os_getsockopt e h fd opt \<noteq> None) \<and> (\<forall>h fd a d. os_sendto e h fd a d)"

definition smooth :: "'a io \<Rightarrow> bool" where
  "smooth m = hoare (\<lambda>_. True) m (\<lambda>_ _. True) (\<lambda>x _. x = Undefined)"

lemma smooth_basic:
  "smooth (ret x)" "smooth (raise Undefined)" "smooth (the_or Undefined y)" "smooth (close fd)" "smooth (rand_id e)"
  by (simp_all add: smooth_def hoare_def os_wp rand_id_def split: option.splits)

lemma smooth_bnd: "smooth m \<Longrightarrow> (\<And>x. smooth (f x)) \<Longrightarrow> smooth (bnd m f)"
  unfolding smooth_def by (rule hoare_bnd)

lemma smooth_then_do: "smooth m \<Longrightarrow> smooth n \<Longrightarrow> smooth (then_do m n)"
  unfolding then_do_def by (rule smooth_bnd)

lemma smooth_send_packet: "cooperative e \<Longrightarrow> smooth (send_packet e c p)"
  by (simp add: smooth_def hoare_def send_packet_def send_string_raw_def os_wp cooperative_def)

lemmas smooth_intros = smooth_basic smooth_bnd smooth_then_do smooth_send_packet

lemma smooth_send_plan:
  assumes "cooperative e" "\<not> no_fakes P (c_raw c)"
  shows "hoare (\<lambda>_. True) (send_plan e P c is_https) (\<lambda>r _. r = 0) (\<lambda>x _. x = Undefined)"
proof -
  have d: "smooth (send_data e P c off n ident)" for off n ident
    using assms(1) by (auto simp: send_data_def data_packet_def intro!: smooth_intros)
  have f: "smooth (fake_packet P c x n fl ident)" for x n fl ident
    by (auto simp: fake_packet_def intro!: smooth_intros)
  have z: "smooth (zero_attack e P c is_https)"
    using assms(1) f by (auto simp: zero_attack_def Let_def intro!: smooth_intros split: Desync_zero_attacks.splits)
  have a: "smooth (first_attack e P c)"
    using assms(1) f d by (auto simp: first_attack_def send_second_def send_first_def send_whole_def
      send_first_faked_def first_fake_def intro!: smooth_intros split: Desync_first_attacks.splits)
  have "hoare (\<lambda>_. True) (then_do (zero_attack e P c is_https) (then_do (first_attack e P c)
      (then_do (close (c_fd c)) (ret 0)))) (\<lambda>r _. r = 0) (\<lambda>x _. x = Undefined)"
    by (rule hoare_then_do [OF z [unfolded smooth_def] hoare_then_do [OF a [unfolded smooth_def]]])
      (simp add: hoare_def os_wp)
  then show ?thesis using assms(2) by (simp add: send_plan_def)
qed

lemma do_desync_attack_smooth:
  assumes "cooperative e" "\<not> no_fakes P packet_raw"
  shows "hoare (\<lambda>_. True) (do_desync_attack e P socket_srv ip_srv port_srv is_https packet_raw packet_data last_char split_pos)
    (\<lambda>r _. r = 0) (\<lambda>x _. x = Undefined)"
proof (rule hoareI)
  fix h :: hist
  have W: "wp (send_plan e P c is_https) (\<lambda>r _. r = 0) (\<lambda>x _. case x of Return r \<Rightarrow> r = 0 | _ \<Rightarrow> x = Undefined) h'"
    if "c_raw c = packet_raw" for c h'
    by (rule wp_use [OF smooth_send_plan TrueI]) (use assms that in auto)
  show "wp (do_desync_attack e P socket_srv ip_srv port_srv is_https packet_raw packet_data last_char split_pos)
     (\<lambda>r _. r = 0) (\<lambda>x _. x = Undefined) h"
    using assms(1) W
    by (auto simp: do_desync_attack_def open_raw_socket_def need_def need_some_def rand_id_def os_wp cooperative_def
        simp del: not_None_eq split: option.splits)
qed

lemma do_desync_attack_succeeds:
  assumes "cooperative e" "\<not> no_fakes P packet_raw"
    "40 \<le> length packet_raw" "ihl packet_raw = 5" "split_pos \<le> last_char"
    "unat last_char \<le> length packet_data" "unat last_char \<le> 65495"
  shows "\<exists>t. do_desync_attack e P socket_srv ip_srv port_srv is_https packet_raw packet_data last_char split_pos h
    = (Inr 0, h @ t)"
proof (cases "do_desync_attack e P socket_srv ip_srv port_srv is_https packet_raw packet_data last_char split_pos h")
  case (Pair r h')
  have s: "wp (do_desync_attack e P socket_srv ip_srv port_srv is_https packet_raw packet_data last_char split_pos)
     (\<lambda>r _. r = 0) (\<lambda>x _. x = Undefined) h"
    by (rule hoareD [OF do_desync_attack_smooth [OF assms(1,2)] TrueI])
  have t: "wp (do_desync_attack e P socket_srv ip_srv port_srv is_https packet_raw packet_data last_char split_pos)
     (\<lambda>r h'. \<exists>t. h' = h @ t \<and> attack_course e P socket_srv is_https packet_raw packet_data last_char split_pos r t)
     (\<lambda>x h. False) h"
    by (rule hoareD [OF do_desync_attack_hoare [OF assms(3-7)] refl])
  show ?thesis using s t Pair by (cases r) (auto simp: wp_def)
qed

lemma do_desync_attack_delivers_witness:
  "\<exists>t. do_desync_attack willing_os split_profile 5 ''93.184.216.34'' 443 True sample_syn_ack [22, 3, 1, 0, 5] 5 2 []
      = (Inr 0, [] @ t)
    \<and> stream_byte (seg_ack sample_syn_ack) (filter (reaches 7) (sent t)) 4 = Some 5
    \<and> stream_byte (seg_ack sample_syn_ack) (filter (reaches 7) (sent t)) 5 = None"
proof -
  have w: "40 \<le> length sample_syn_ack" "ihl sample_syn_ack = 5"
    by (simp_all add: sample_syn_ack_def ihl_def)
  have n: "\<not> no_fakes split_profile sample_syn_ack" 
    by (simp add: no_fakes_def split_profile_def default_Profile_def)
  have coop: "cooperative willing_os" by (simp add: cooperative_def willing_os_def)
  obtain t where t: "do_desync_attack willing_os split_profile 5 ''93.184.216.34'' 443 True sample_syn_ack [22, 3, 1, 0, 5] 5 2 []
      = (Inr 0, [] @ t)"
    using do_desync_attack_succeeds [OF coop n w, of 2 5 "[22, 3, 1, 0, 5]" 5 "''93.184.216.34''" 443 True "[]"] by auto
  have "choose_fake_ttl split_profile sample_syn_ack 64 = 3" 
    by (simp add: choose_fake_ttl_def split_profile_def default_Profile_def)
  then show ?thesis
    using t do_desync_attack_delivers [OF w _ _ _ _ _ _ t, of 64 7 4] do_desync_attack_delivers [OF w _ _ _ _ _ _ t, of 64 7 5]
    by (intro exI [of _ t]) (simp add: willing_os_def)
qed

lemma do_desync_attack_course_witness:
  "hoare (\<lambda>h. h = []) (do_desync_attack willing_os split_profile 5 ''93.184.216.34'' 443 True sample_syn_ack [22, 3, 1, 0, 5] 5 2)
    (\<lambda>r h. \<exists>t. h = [] @ t \<and> attack_course willing_os split_profile 5 True sample_syn_ack [22, 3, 1, 0, 5] 5 2 r t)
    (\<lambda>x h. False)"
  by (rule do_desync_attack_course) (simp_all add: sample_syn_ack_def ihl_def)

text \<open>C4: A packet that \<open>form_packet\<close> builds in answer to a sniffed one without IP options is well-formed:
  its length field is its length, the checksums of the IP and the TCP header are valid, it goes back to
  the sender from the addressee, its sequence numbers are those of the sniffed packet, exchanged and
  moved by the two arguments modulo 2^32, and it carries exactly the payload.\<close>

theorem form_packet_answer:
  assumes "40 \<le> length raw" "ihl raw = 5" "unat dsz \<le> 65495" "unat dsz \<le> length d"
  shows "\<exists>p. form_packet raw (Some d) dsz ident ttl seq_add ack_add win True flags = Some p
    \<and> well_formed p \<and> endpoints p = reversed (endpoints raw) \<and> seg_payload p = take (unat dsz) d
    \<and> seg_seq p = seg_ack raw + seq_add \<and> seg_ack p = seg_seq raw + ack_add
    \<and> seg_ttl p = ucast ttl \<and> seg_flags p = tcp_flags flags (raw ! 33) \<and> length p = 40 + unat dsz"
  by (rule form_packet_answers [OF assms(1-3) payload_of_Some [OF assms(4)]]) (use assms(4) in auto)

lemma form_packet_answer_witness:
  "\<exists>p. form_packet sample_syn_ack (Some [1, 2, 3]) 2 7 64 0 1 1460 True None = Some p
    \<and> well_formed p \<and> endpoints p = reversed (endpoints sample_syn_ack) \<and> seg_payload p = take (unat (2::u32)) [1, 2, 3]
    \<and> seg_seq p = seg_ack sample_syn_ack + 0 \<and> seg_ack p = seg_seq sample_syn_ack + 1
    \<and> seg_ttl p = ucast (64::u16) \<and> seg_flags p = tcp_flags None (sample_syn_ack ! 33) \<and> length p = 40 + unat (2::u32)"
  by (rule form_packet_answer) (simp_all add: sample_syn_ack_def ihl_def)

section \<open>Corner cases\<close>

text \<open>When the sniffed packet has IP options and the payload is shorter than they are, the TCP header
  that \<open>form_packet\<close> writes at \<open>ihl * 4\<close> lies partly behind the end of the packet, which was cut to
  40 bytes plus the payload: the writes are out of bounds.\<close>

theorem form_packet_options:
  assumes "0 < length raw" "5 < ihl raw" "unat dsz \<le> length d" "unat dsz < (ihl raw - 5) * 4"
  shows "form_packet raw (Some d) dsz ident ttl seq_add ack_add win swp flags = None"
proof -
  have pay: "payload_of (Some d) dsz = Some (take (unat dsz) d)" by (rule payload_of_Some [OF assms(3)])
  have "ihl (resize 0 40 raw @ take (unat dsz) d) = ihl raw"
    using assms(1) by (cases raw) (simp_all add: ihl_def resize_def)
  moreover have "20 + unat dsz < ihl raw * 4" using assms(2,4) by linarith
  ultimately show ?thesis using pay assms by (simp add: form_packet_def Let_def)
qed

text \<open>Without a captured packet both headers start at 0: the source port that is stored over the first byte leaves
  neither version nor header length, and what comes out is no IP packet.\<close>

theorem form_packet_no_capture:
  "\<exists>p. form_packet [] (Some [0]) 1 ident ttl 0 1 win True flags = Some p \<and> ihl p = 0 \<and> \<not> well_formed p"
proof -
  define b where "b = replicate 41 (0::byte)"
  define r where "r = fill_ip 1 ident ttl True b"
  define q where "q = fill_tcp 0 0 1 win True flags r"
  have pay: "payload_of (Some [0]) 1 = Some [0]" by (simp add: payload_of_def)
  have b: "resize 0 40 [] @ [0] = b" by (simp add: b_def resize_def replicate_append_same [symmetric] numeral_eq_Suc)
  have b0: "length b = 41" "b ! 0 = 0" by (simp_all add: b_def)
  have r: "r ! 0 = 0" "r ! 1 = 0" "r ! 2 = 0" "length r = 41"
    using b0 by (simp_all add: r_def fill_ip_def Let_def swap32_def put16_def put32_def nth_list_update)
  have hi: "ucast (drop_bit 8 (ucast x :: u16)) = (0 :: u8)" for x :: u8
    by (rule bit_word_eqI) (auto simp: bit_simps dest: bit_imp_le_length)
  have q: "q ! 0 = 0" "q ! 2 = 0" "q ! 3 = 0" "length q = 41"
    using r r(3) [unfolded numeral_2_eq_2] hi by (simp_all add: q_def fill_tcp_def Let_def swap32_def swap16_def get16_def put16_def put32_def nth_list_update)
  have "form_packet [] (Some [0]) 1 ident ttl 0 1 win True flags = Some (put16 16 (cksumTcp 0 q) q)"
    unfolding form_packet_def pay b option.case Let_def
    using q b0 by (simp add: r_def [symmetric] q_def [symmetric] ihl_def tot_len_def get16_def)
  moreover have "ihl (put16 16 (cksumTcp 0 q) q) = 0" using q by (simp add: ihl_def put16_def)
  ultimately show ?thesis by (simp add: well_formed_def)
qed

lemma form_packet_options_witness:
  "form_packet (0x46 # tl sample_syn_ack) (Some [0]) 1 7 64 0 1 1460 True None = None"
  by (rule form_packet_options) (simp_all add: sample_syn_ack_def ihl_def)

lemma no_fakes_distance:
  assumes "\<not> auto_ttl P" "min_ttl P \<noteq> 0" "hop_distance (srv_ttl raw) = Some n"
  shows "no_fakes P raw \<longleftrightarrow> low8 (min_ttl P) \<le> n"
proof -
  have n: "0 < n" "n < 256" using assms(3) by (auto simp: hop_distance_def split: if_splits)
  have "auto_ttl_at n 0 0 mh 0 = (if n < mh then 0 else n)" for mh
    using n by (simp add: auto_ttl_at_def)
  then show ?thesis using assms n by (auto simp: no_fakes_def tcp_get_auto_ttl_at)
qed


text \<open>Without \<open>--auto-ttl\<close>, the option \<open>--min-ttl\<close> suppresses the fakes exactly for the servers that are
  at least that many hops away, and sends them to the nearer ones: the comparison of the code is the
  opposite of what the option promises.\<close>

theorem min_ttl_inverted:
  assumes "\<not> auto_ttl P" "min_ttl P \<noteq> 0" "hop_distance (srv_ttl raw) = Some n"
  shows "attack_plan P is_https raw last_char split_pos =
    (if low8 (min_ttl P) \<le> n then [Data 0 last_char]
     else zero_plan P is_https @ first_plan P last_char split_pos)"
  using no_fakes_distance [OF assms] by (simp add: attack_plan_def)

lemma min_ttl_inverted_witness:
  "attack_plan (split_profile\<lparr>min_ttl := 3\<rparr>) True sample_syn_ack 5 2 =
    (if low8 (min_ttl (split_profile\<lparr>min_ttl := 3\<rparr>)) \<le> 7 then [Data 0 5]
     else zero_plan (split_profile\<lparr>min_ttl := 3\<rparr>) True @ first_plan (split_profile\<lparr>min_ttl := 3\<rparr>) 5 2)"
  by (rule min_ttl_inverted)
    (simp_all add: split_profile_def default_Profile_def hop_distance_def srv_ttl_def sample_syn_ack_def)

section \<open>Sniffing\<close>

text \<open>What one pass of a sniff loop sees: the stop flag, the local port that the connecting thread has
  stored (or -1), the result of \<open>poll\<close> and of the receive call after it, and the time since the start.\<close>

datatype sniff_poll = S_error | S_timeout | S_broken | S_other | S_recv "bytes option"

record sniff_obs =
  o_flag :: bool
  o_port :: int
  o_poll :: sniff_poll
  o_elapsed :: int

definition src_addr :: "bytes \<Rightarrow> u32" where "src_addr b = get32 b 12"
definition src_port :: "bytes \<Rightarrow> int" where "src_port b = uint (get16 b (ihl b * 4))"
definition dst_port :: "bytes \<Rightarrow> int" where "dst_port b = uint (get16 b (ihl b * 4 + 2))"

definition sniff_buffer :: bytes where "sniff_buffer = replicate 100 32"

text \<open>A packet shorter than the buffer leaves the tail of the previous one in place.\<close>

definition recv_into :: "bytes \<Rightarrow> bytes \<Rightarrow> bytes" where
  "recv_into buffer d = overwrite (take (length buffer) d) buffer"

fun sniff_ack_loop :: "u32 \<Rightarrow> int \<Rightarrow> int \<Rightarrow> sniff_obs list \<Rightarrow> bytes \<Rightarrow> bytes \<Rightarrow> bytes option" where
  "sniff_ack_loop ip_srv port_srv port_local [] buffer packet = None"
| "sniff_ack_loop ip_srv port_srv port_local (ob # obs) buffer packet =
     (if \<not> o_flag ob then Some packet
      else case o_poll ob of
        S_error \<Rightarrow> Some packet
      | S_timeout \<Rightarrow> sniff_ack_loop ip_srv port_srv port_local obs buffer packet
      | S_broken \<Rightarrow> Some packet
      | S_other \<Rightarrow> sniff_ack_loop ip_srv port_srv port_local obs buffer packet
      | S_recv None \<Rightarrow> Some packet
      | S_recv (Some d) \<Rightarrow>
          (let buffer' = recv_into buffer d
           in if src_addr buffer' = ip_srv \<and> port_srv = src_port buffer' \<and> port_local = dst_port buffer'
              then Some buffer'
              else sniff_ack_loop ip_srv port_srv port_local obs buffer' packet))"

text \<open>None: the loop still runs after these observations. The raw socket may fail to open; otherwise
  the function returns 0 with the packet it found or the one it was given.\<close>

definition sniff_ack_packet :: "bool \<Rightarrow> u32 \<Rightarrow> int \<Rightarrow> int \<Rightarrow> sniff_obs list \<Rightarrow> bytes \<Rightarrow> (int \<times> bytes) option" where
  "sniff_ack_packet socket_ok ip_srv port_srv port_local obs packet =
     (if \<not> socket_ok then Some (-1, packet)
      else map_option (Pair 0) (sniff_ack_loop ip_srv port_srv port_local obs sniff_buffer packet))"

text \<open>What the connecting thread can see of the sniffer: whether it ever signalled that it is ready,
  its status (None: never stored) and the packet.\<close>

record sniff_out =
  so_ready :: bool
  so_ret :: int
  so_status :: "int option"
  so_packet :: bytes

record sniff_state =
  ss_buffer :: bytes
  ss_packets :: "int \<rightharpoonup> bytes"
  ss_searched :: bool
  ss_port :: int

definition sniff_done :: "bytes \<Rightarrow> sniff_out" where
  "sniff_done packet = \<lparr>so_ready = True, so_ret = 0, so_status = Some 0, so_packet = packet\<rparr>"

text \<open>The look-up at the start of a pass: the packet when one was kept for the local port.\<close>

definition look_up :: "sniff_obs \<Rightarrow> sniff_state \<Rightarrow> bytes option \<times> sniff_state" where
  "look_up ob st =
     (if ss_searched st then (None, st)
      else if o_port ob = -1 then (None, st\<lparr>ss_port := -1\<rparr>)
      else (ss_packets st (o_port ob), st\<lparr>ss_port := o_port ob, ss_searched := True\<rparr>))"

fun sniff_handshake_loop :: "u16 \<Rightarrow> u32 \<Rightarrow> int \<Rightarrow> sniff_obs list \<Rightarrow> sniff_state \<Rightarrow> bytes \<Rightarrow> sniff_out option" where
  "sniff_handshake_loop timeout ip_srv port_srv [] st packet = None"
| "sniff_handshake_loop timeout ip_srv port_srv (ob # obs) st packet =
     (if \<not> o_flag ob then Some (sniff_done packet)
      else case look_up ob st of
        (Some p, _) \<Rightarrow> Some (sniff_done p)
      | (None, st1) \<Rightarrow>
          if uint timeout < o_elapsed ob
          then Some \<lparr>so_ready = True, so_ret = -1, so_status = Some (-1), so_packet = packet\<rparr>
          else (case o_poll ob of
              S_error \<Rightarrow> Some (sniff_done packet)
            | S_timeout \<Rightarrow> sniff_handshake_loop timeout ip_srv port_srv obs st1 packet
            | S_broken \<Rightarrow> Some (sniff_done packet)
            | S_other \<Rightarrow> sniff_handshake_loop timeout ip_srv port_srv obs st1 packet
            | S_recv None \<Rightarrow> Some (sniff_done packet)
            | S_recv (Some d) \<Rightarrow>
                (let buffer' = recv_into (ss_buffer st1) d; st2 = st1\<lparr>ss_buffer := buffer'\<rparr>
                 in if src_addr buffer' = ip_srv \<and> port_srv = src_port buffer' then
                      (if \<not> ss_searched st2 then
                         sniff_handshake_loop timeout ip_srv port_srv obs
                           (st2\<lparr>ss_packets := (ss_packets st2)(dst_port buffer' \<mapsto> buffer')\<rparr>) packet
                       else if ss_port st2 = dst_port buffer' then Some (sniff_done buffer')
                       else sniff_handshake_loop timeout ip_srv port_srv obs st2 packet)
                    else sniff_handshake_loop timeout ip_srv port_srv obs st2 packet)))"

definition sniff_handshake_packet :: "Settings_perst_s \<Rightarrow> bool \<Rightarrow> u32 \<Rightarrow> int \<Rightarrow> sniff_obs list \<Rightarrow> bytes
    \<Rightarrow> sniff_out option" where
  "sniff_handshake_packet S socket_ok ip_srv port_srv obs packet =
     (if \<not> socket_ok then Some \<lparr>so_ready = False, so_ret = -1, so_status = None, so_packet = packet\<rparr>
      else sniff_handshake_loop (packet_capture_timeout S) ip_srv port_srv obs
             \<lparr>ss_buffer = sniff_buffer, ss_packets = Map.empty, ss_searched = False, ss_port = -1\<rparr> packet)"

definition answers :: "u32 \<Rightarrow> int \<Rightarrow> int \<Rightarrow> bytes \<Rightarrow> bool" where
  "answers ip_srv port_srv port p \<longleftrightarrow> length p = 100 \<and> ihl p * 4 + 20 \<le> length p
     \<and> src_addr p = ip_srv \<and> src_port p = port_srv \<and> dst_port p = port"

lemma length_recv_into [simp]: "length (recv_into b d) = length b"
  by (simp add: recv_into_def overwrite_def min_def)

lemma ihl_in_buffer: "length p = 100 \<Longrightarrow> ihl p * 4 + 20 \<le> length p"
  using ihl_bound [of p] by simp

definition sniff_inv :: "u32 \<Rightarrow> int \<Rightarrow> int set \<Rightarrow> sniff_state \<Rightarrow> bool" where
  "sniff_inv ip_srv port_srv ports st \<longleftrightarrow> length (ss_buffer st) = 100
     \<and> (\<forall>k p. ss_packets st k = Some p \<longrightarrow> answers ip_srv port_srv k p)
     \<and> (ss_searched st \<longrightarrow> ss_port st \<in> ports)"

lemma sniff_handshake_loop_packet:
  assumes "sniff_handshake_loop timeout ip_srv port_srv obs st packet = Some out" "sniff_inv ip_srv port_srv ports st"
    "o_port ` set obs \<subseteq> ports"
  shows "so_ready out \<and> (so_packet out = packet \<or> so_status out = Some 0 \<and> (\<exists>port\<in>ports. answers ip_srv port_srv port (so_packet out)))"
  using assms
proof (induction obs arbitrary: st)
  case (Cons ob obs)
  obtain r st1 where l: "look_up ob st = (r, st1)" by fastforce
  have i1: "sniff_inv ip_srv port_srv ports st1" and b1: "ss_buffer st1 = ss_buffer st"
    using l Cons.prems(2,3) by (auto simp: look_up_def sniff_inv_def split: if_splits)
  show ?case
  proof (cases "o_flag ob \<and> r = None \<and> \<not> uint timeout < o_elapsed ob")
    case False
    then show ?thesis using Cons.prems l
      by (auto simp: sniff_done_def look_up_def sniff_inv_def split: if_splits option.splits
          intro: bexI [of _ "o_port ob"])
  next
    case True
    note IH = Cons.IH [OF _ _ subset_trans [OF _ Cons.prems(3)]]
    show ?thesis
    proof (cases "\<exists>d. o_poll ob = S_recv (Some d)")
      case False
      then show ?thesis using Cons.prems(1) True l IH [OF _ i1]
        by (cases "o_poll ob") (auto simp: sniff_done_def split: option.splits)
    next
      case rcv: True
      then obtain d where d: "o_poll ob = S_recv (Some d)" by blast
      let ?b = "recv_into (ss_buffer st1) d"
      have lb: "length ?b = 100" using i1 by (simp add: sniff_inv_def)
      have i2: "sniff_inv ip_srv port_srv ports (st1\<lparr>ss_buffer := ?b\<rparr>)"
        using i1 lb by (simp add: sniff_inv_def)
      have ans: "answers ip_srv port_srv (dst_port ?b) ?b" if "src_addr ?b = ip_srv" "port_srv = src_port ?b"
        using that lb ihl_in_buffer [OF lb] by (simp add: answers_def)
      have i3: "sniff_inv ip_srv port_srv ports (st1\<lparr>ss_buffer := ?b, ss_packets := (ss_packets st1)(dst_port ?b \<mapsto> ?b)\<rparr>)"
        if "src_addr ?b = ip_srv" "port_srv = src_port ?b"
        using i1 lb ans [OF that] by (auto simp: sniff_inv_def)
      show ?thesis using Cons.prems(1) True l d IH [OF _ i2] IH [OF _ i3] i2 ans
        by (auto simp: sniff_done_def Let_def sniff_inv_def split: if_splits)
    qed
  qed
qed simp

definition sample_obs :: "sniff_obs list" where
  "sample_obs = [\<lparr>o_flag = True, o_port = -1, o_poll = S_recv (Some sample_syn_ack), o_elapsed = 1\<rparr>,
     \<lparr>o_flag = True, o_port = 40000, o_poll = S_timeout, o_elapsed = 2\<rparr>]"

lemma sample_sniff:
  "sniff_handshake_packet default_Settings True 0x5DB8D822 443 sample_obs [] = Some (sniff_done sample_syn_ack)"
  by code_simp

text \<open>C15: When the sniffer reports success with a packet, it is an answer of the server to the connection:
  sent from its address and port to a local port that the connecting thread announced, and its TCP
  header lies inside of the capture buffer.\<close>

theorem sniff_handshake_packet_right:
  assumes "sniff_handshake_packet S socket_ok ip_srv port_srv obs [] = Some out" "so_status out = Some 0" "so_packet out \<noteq> []"
  shows "\<exists>port\<in>o_port ` set obs. answers ip_srv port_srv port (so_packet out)"
  using assms sniff_handshake_loop_packet [of "packet_capture_timeout S" ip_srv port_srv obs _ "[]" out "o_port ` set obs"]
  by (auto simp: sniff_handshake_packet_def sniff_inv_def sniff_buffer_def split: if_splits)

lemma sniff_handshake_packet_right_witness:
  "\<exists>port\<in>o_port ` set sample_obs. answers 0x5DB8D822 443 port (so_packet (sniff_done sample_syn_ack))"
  by (rule sniff_handshake_packet_right [OF sample_sniff]) (simp_all add: sniff_done_def sample_syn_ack_def)

lemma sniff_handshake_loop_returns:
  assumes "\<exists>ob\<in>set obs. \<not> o_flag ob \<or> uint timeout < o_elapsed ob"
  shows "sniff_handshake_loop timeout ip_srv port_srv obs st packet \<noteq> None"
  using assms
  by (induction obs arbitrary: st) (auto simp: Let_def split: sniff_poll.splits option.splits prod.splits)

text \<open>C39: The sniffer ends: at the latest in the pass that sees the stop flag cleared or the capture timeout
  exceeded, whatever it received before.\<close>

theorem sniff_handshake_packet_returns:
  assumes "\<exists>ob\<in>set obs. \<not> o_flag ob \<or> uint (packet_capture_timeout S) < o_elapsed ob"
  shows "\<exists>out. sniff_handshake_packet S socket_ok ip_srv port_srv obs packet = Some out"
  using sniff_handshake_loop_returns [OF assms] by (auto simp: sniff_handshake_packet_def)

lemma sniff_handshake_packet_returns_witness:
  "\<exists>out. sniff_handshake_packet default_Settings True 0x5DB8D822 443
     [\<lparr>o_flag = True, o_port = 40000, o_poll = S_timeout, o_elapsed = 5001\<rparr>] [] = Some out"
  by (rule sniff_handshake_packet_returns) (simp add: default_Settings_def)

end
