(* ===== verification/Hops.thy ===== *)
theory Hops
  imports Desync
begin

text \<open>
  \<open>count_hops\<close> of \<open>socket.cpp\<close>: how many hops the server is away. It connects while a second thread
  sniffs the SYN-ACK, then sends forged data segments with growing TTL until one is answered. The
  sniffer runs on its own observations; what the connecting thread uses of it is its result.
\<close>

text \<open>The thread that starts a sniffer waits until it is ready, which it never is without its socket; a sniffer that
  never ends blocks the thread that joins it.\<close>

definition sniff_thread :: "Settings_perst_s \<Rightarrow> bool \<Rightarrow> u32 \<Rightarrow> int \<Rightarrow> sniff_obs list \<Rightarrow> sniff_out option io" where
  "sniff_thread S sniff_ok ip port obs =
     (let out = sniff_handshake_packet S sniff_ok ip port obs []
      in if sniff_ok then then_do (emit Sniff_start) (ret out) else raise Blocked)"

definition join_thread :: "sniff_out option \<Rightarrow> sniff_out io" where
  "join_thread out = (case out of
     None \<Rightarrow> raise Blocked
   | Some o' \<Rightarrow> then_do (emit Sniff_join) (ret o'))"

text \<open>Whether the bytes in the buffer answer the probe.\<close>

definition is_reply :: "u32 \<Rightarrow> int \<Rightarrow> int \<Rightarrow> bytes \<Rightarrow> bool" where
  "is_reply addr port local_port buffer =
     (src_addr buffer = addr \<and> src_port buffer = port \<and> dst_port buffer = local_port)"

record probe_ctx =
  p_fd :: int
  p_server :: sockaddr_in
  p_port :: int
  p_local_port :: int
  p_timeout :: int
  p_mss :: int
  p_syn_ack :: bytes

text \<open>Waiting for the reply to one probe: whether it came, and the buffer.\<close>

fun await_reply :: "nat \<Rightarrow> os \<Rightarrow> probe_ctx \<Rightarrow> int \<Rightarrow> bytes \<Rightarrow> (bool \<times> bytes) io" where
  "await_reply 0 e c start buffer = raise Out_of_fuel"
| "await_reply (Suc n) e c start buffer =
     bnd (now_ms e) (\<lambda>stop.
       if p_timeout c \<le> stop - start then ret (False, buffer)
       else bnd (poll e [p_fd c] (p_timeout c - (stop - start))) (\<lambda>r.
         case r of
           Poll_error er \<Rightarrow> ret (False, buffer)
         | Poll_timeout \<Rightarrow> await_reply n e c start buffer
         | Poll_ready rs \<Rightarrow>
             if rs \<noteq> [] \<and> fst (hd rs) then ret (False, buffer)
             else if rs \<noteq> [] \<and> snd (hd rs) then
               bnd (recv e (p_fd c) (length buffer)) (\<lambda>d.
                 case d of
                   Err er \<Rightarrow> ret (False, buffer)
                 | Ok d \<Rightarrow>
                     (let buffer' = overwrite d buffer
                      in if is_reply (sin_addr (p_server c)) (p_port c) (p_local_port c) buffer'
                         then ret (True, buffer')
                         else await_reply n e c start buffer'))
             else await_reply n e c start buffer))"

fun probe_loop :: "nat \<Rightarrow> os \<Rightarrow> probe_ctx \<Rightarrow> nat list \<Rightarrow> bytes \<Rightarrow> int io" where
  "probe_loop fuel e c [] buffer = ret (-1)"
| "probe_loop fuel e c (ttl # ttls) buffer =
     bnd (rand_id e) (\<lambda>ident.
     bnd (the_or Undefined (form_packet (p_syn_ack c) (Some [0]) 1 ident (word_of_nat ttl) 0 1
            (word_of_int (p_mss c)) True None)) (\<lambda>packet.
     bnd (sendto e (p_fd c) (p_server c) packet) (\<lambda>ok.
       if \<not> ok then ret (-1)
       else bnd (now_ms e) (\<lambda>start.
         bnd (await_reply fuel e c start buffer) (\<lambda>(replied, buffer').
           if replied then ret (int ttl) else probe_loop fuel e c ttls buffer')))))"

definition close_both :: "int \<Rightarrow> int \<Rightarrow> 'a io" where
  "close_both fd server_socket = then_do (close fd) (close_and_fail server_socket)"

text \<open>The second half of \<open>count_hops_private\<close>: with the SYN-ACK in hand, open the raw socket and probe.\<close>

definition probe_server :: "nat \<Rightarrow> os \<Rightarrow> int \<Rightarrow> sockaddr_in \<Rightarrow> int \<Rightarrow> int \<Rightarrow> int \<Rightarrow> bytes \<Rightarrow> int io" where
  "probe_server fuel e server_socket srv_addr port local_port timeout syn_ack =
     bnd (socket e SOCK_RAW) (\<lambda>s.
     bnd (need_some server_socket s) (\<lambda>fd.
     bnd (setsockopt e fd SO_SNDBUF 0) (\<lambda>ok.
     if \<not> ok then close_both fd server_socket
     else bnd (setsockopt e fd IP_HDRINCL 1) (\<lambda>ok.
     if \<not> ok then close_both fd server_socket
     else bnd (getsockopt e server_socket TCP_MAXSEG) (\<lambda>mss.
     case mss of
       None \<Rightarrow> close_both fd server_socket
     | Some mss \<Rightarrow>
         bnd (probe_loop fuel e \<lparr>p_fd = fd, p_server = srv_addr, p_port = port,
                p_local_port = local_port, p_timeout = timeout, p_mss = mss, p_syn_ack = syn_ack\<rparr>
                [1..<256] sniff_buffer) (\<lambda>r.
         then_do (close fd) (then_do (close server_socket) (ret r))))))))"

definition count_hops_private :: "nat \<Rightarrow> os \<Rightarrow> Settings_perst_s \<Rightarrow> bool \<Rightarrow> sniff_obs list \<Rightarrow> sockaddr_in
    \<Rightarrow> int \<Rightarrow> int io" where
  "count_hops_private fuel e S sniff_ok obs srv_addr port = returning (
     bnd (socket e SOCK_STREAM) (\<lambda>s.
     bnd (the_or (Return (-1)) s) (\<lambda>server_socket.
     bnd (sniff_thread S sniff_ok (sin_addr srv_addr) port obs) (\<lambda>out.
     bnd (now_ms e) (\<lambda>start.
     bnd (connect_with_timeout fuel e server_socket srv_addr (count_hops_connect_timeout S)) (\<lambda>c.
     if c < 0 then bnd (join_thread out) (\<lambda>_. close_and_fail server_socket)
     else bnd (now_ms e) (\<lambda>stop.
     bnd (getsockname e server_socket) (\<lambda>name.
     case name of
       None \<Rightarrow> bnd (join_thread out) (\<lambda>_. close_and_fail server_socket)
     | Some local_port \<Rightarrow>
         bnd (join_thread out) (\<lambda>o'.
         if so_status o' = Some (-1) then close_and_fail server_socket
         else probe_server fuel e server_socket srv_addr port (uint local_port)
                (c_int (uint (word_of_int (stop - start) * 2 :: u32))) (so_packet o'))))))))))"

text \<open>Three attempts, each with the observations of its own sniffer; the smallest positive count.\<close>

fun hops_rounds :: "nat \<Rightarrow> os \<Rightarrow> Settings_perst_s \<Rightarrow> (bool \<times> sniff_obs list) list \<Rightarrow> sockaddr_in \<Rightarrow> int
    \<Rightarrow> int \<Rightarrow> int io" where
  "hops_rounds fuel e S [] srv_addr port ttl = ret ttl"
| "hops_rounds fuel e S ((ok, obs) # rounds) srv_addr port ttl =
     bnd (count_hops_private fuel e S ok obs srv_addr port) (\<lambda>res.
       hops_rounds fuel e S rounds srv_addr port (if res \<noteq> -1 \<and> res < ttl then res else ttl))"

definition count_hops :: "nat \<Rightarrow> os \<Rightarrow> Settings_perst_s \<Rightarrow> (nat \<Rightarrow> bool \<times> sniff_obs list) \<Rightarrow> string \<Rightarrow> int \<Rightarrow> int io" where
  "count_hops fuel e S sniffers server_ip srv_port =
     (case inet_pton server_ip of
        None \<Rightarrow> ret (-1)
      | Some a \<Rightarrow>
          bnd (hops_rounds fuel e S (map sniffers [1, 2, 3]) (Sockaddr a (word_of_int srv_port)) srv_port 256)
            (\<lambda>ttl. ret (if ttl = 256 then -1 else ttl)))"

section \<open>The probes\<close>

lemma sent_Cons [simp]:
  "sent (Clock_ms m # t) = sent t" "sent (Clock_gettime cg # t) = sent t" "sent (Poll fds k r # t) = sent t"
  "sent (Recv fd n d # t) = sent t" "sent (Connect fd a r' # t) = sent t"
  "sent (Fcntl_getfl fd fl # t) = sent t" "sent (Fcntl_setfl fd fl' ok # t) = sent t" "sent (Getsockname fd p # t) = sent t"
  "sent (Sniff_start # t) = sent t" "sent (Sniff_join # t) = sent t"
  by (simp_all add: sent_def)

lemma wait_connected_quiet:
  "hoare (\<lambda>h. sent h = A) (wait_connected n e fd dl) (\<lambda>_ h. sent h = A) (\<lambda>x h. x = Out_of_fuel)"
proof (induction n)
  case 0
  then show ?case by (auto simp: hoare_def wp_simps)
next
  case (Suc n)
  note IH = wp_use [OF Suc.IH]
  show ?case by (rule hoareI) (auto simp: os_wp errno_of_def split: option.splits pollres.splits intro!: IH)
qed

lemma connect_quiet:
  "hoare (\<lambda>h. sent h = A) (connect_with_timeout fuel e fd addr t) (\<lambda>_ h. sent h = A) (\<lambda>x h. x = Out_of_fuel)"
proof -
  note W = wp_use [OF wait_connected_quiet]
  show ?thesis
    by (rule hoareI) (auto simp: connect_with_timeout_def start_connect_def os_wp
      split: option.splits sysres.splits intro!: W)
qed

lemma await_reply_quiet:
  "hoare (\<lambda>h. sent h = A) (await_reply n e c start buffer) (\<lambda>_ h. sent h = A) (\<lambda>x h. x = Out_of_fuel)"
proof (induction n arbitrary: buffer)
  case 0
  then show ?case by (auto simp: hoare_def wp_simps)
next
  case (Suc n)
  note IH = wp_use [OF Suc.IH]
  show ?case by (rule hoareI) (auto simp: os_wp Let_def split: sysres.splits pollres.splits intro!: IH)
qed

text \<open>The probe of a captured packet, and the probes with the TTLs below \<open>k\<close>.\<close>

definition is_probe :: "bytes \<Rightarrow> u32 \<Rightarrow> nat \<Rightarrow> bytes \<Rightarrow> bool" where
  "is_probe raw win ttl p \<longleftrightarrow>
     (\<exists>ident. form_packet raw (Some [0]) 1 ident (word_of_nat ttl) 0 1 win True None = Some p)"

definition probes_sent :: "bytes list \<Rightarrow> bytes \<Rightarrow> u32 \<Rightarrow> nat \<Rightarrow> hist \<Rightarrow> bool" where
  "probes_sent A raw win k h \<longleftrightarrow> (\<exists>ps. sent h = A @ ps \<and> list_all2 (is_probe raw win) [1..<k] ps)"

text \<open>What a probe is meant to be: a segment of the connection that carries one zero byte.\<close>

definition good_probe :: "bytes \<Rightarrow> nat \<Rightarrow> bytes \<Rightarrow> bool" where
  "good_probe raw ttl p \<longleftrightarrow> well_formed p \<and> endpoints p = reversed (endpoints raw) \<and> seg_payload p = [0]
     \<and> seg_seq p = seg_ack raw \<and> seg_ack p = seg_seq raw + 1 \<and> seg_ttl p = word_of_nat ttl"

lemma probe_packet:
  assumes "is_probe raw win ttl p" "ihl raw = 5" "length raw = 100"
  shows "good_probe raw ttl p"
proof -
  obtain ident where f: "form_packet raw (Some [0]) 1 ident (word_of_nat ttl) 0 1 win True None = Some p"
    using assms(1) by (auto simp: is_probe_def)
  have pay: "payload_of (Some [0]) 1 = Some [0]" by (simp add: payload_of_def)
  have "40 \<le> length raw" using assms(3) by simp
  from form_packet_answers [OF this assms(2) _ pay, of ident "word_of_nat ttl" 0 1 win None]
  obtain q where q: "form_packet raw (Some [0]) 1 ident (word_of_nat ttl) 0 1 win True None = Some q"
    "well_formed q" "endpoints q = reversed (endpoints raw)" "seg_payload q = [0]"
    "seg_seq q = seg_ack raw + 0" "seg_ack q = seg_seq raw + 1" "seg_ttl q = ucast (word_of_nat ttl :: u16)"
    by auto
  moreover have "(ucast (word_of_nat ttl :: u16) :: u8) = word_of_nat ttl"
    by (rule bit_word_eqI) (auto simp: bit_simps)
  ultimately show ?thesis using f by (simp add: good_probe_def)
qed

lemma probe_formed:
  assumes "form_packet raw (Some [0]) 1 ident ttl 0 1 win True None = None" "raw = [] \<or> length raw = 100"
  shows "raw \<noteq> [] \<and> ihl raw \<noteq> 5"
proof (intro conjI notI)
  assume "raw = []"
  then show False using assms(1) form_packet_no_capture [of ident ttl win None] by auto
next
  assume i: "ihl raw = 5"
  have pay: "payload_of (Some [0]) 1 = Some [0]" by (simp add: payload_of_def)
  have "raw \<noteq> []" using assms(1) form_packet_no_capture [of ident ttl win None] by auto
  then have "40 \<le> length raw" using assms(2) by simp
  from form_packet_answers [OF this i _ pay, of ident ttl 0 1 win None] show False using assms(1) by auto
qed

definition probe_stop :: "bytes \<Rightarrow> stop \<Rightarrow> bool" where
  "probe_stop raw x \<longleftrightarrow> x = Out_of_fuel \<or> x = Undefined \<and> raw \<noteq> [] \<and> ihl raw \<noteq> 5"

lemma probe_loop_hoare:
  assumes "p_syn_ack c = [] \<or> length (p_syn_ack c) = 100" "1 \<le> k"
  shows "hoare (probes_sent A (p_syn_ack c) (word_of_int (p_mss c)) k) (probe_loop fuel e c [k..<256] buffer)
     (\<lambda>r h. r = -1 \<or> int k \<le> r \<and> r < 256 \<and> probes_sent A (p_syn_ack c) (word_of_int (p_mss c)) (nat r + 1) h)
     (\<lambda>x h. probe_stop (p_syn_ack c) x)"
  using assms(2)
proof (induction "256 - k" arbitrary: k buffer)
  case 0
  then show ?case by (auto simp: hoare_def wp_simps)
next
  case (Suc n)
  let ?P = "probes_sent A (p_syn_ack c) (word_of_int (p_mss c))"
  have k: "[k..<256] = k # [Suc k..<256]" using Suc.hyps(2) by (simp add: upt_conv_Cons)
  let ?Q = "\<lambda>r h. r = -1 \<or> int k \<le> r \<and> r < 256 \<and> ?P (nat r + 1) h"
  let ?E = "\<lambda>x (h :: hist). probe_stop (p_syn_ack c) x"
  have IH0: "hoare (?P (Suc k)) (probe_loop fuel e c [Suc k..<256] b)
     (\<lambda>r h. r = -1 \<or> int (Suc k) \<le> r \<and> r < 256 \<and> ?P (nat r + 1) h) ?E" for b
    by (rule Suc.hyps(1)) (use Suc.hyps(2) in auto)
  have IH: "wp (probe_loop fuel e c [Suc k..<256] b) ?Q ?E h" if "?P (Suc k) h" for b h
    by (rule wp_use [OF IH0 that]) auto
  have step: "?P (Suc k) (h @ t)"
    if "?P k h" "sent t = [p]" "form_packet (p_syn_ack c) (Some [0]) 1 ident (word_of_nat k) 0 1 (word_of_int (p_mss c)) True None = Some p"
    for h t p ident
  proof -
    note P = that(1)
    obtain ps where ps: "sent h = A @ ps" "list_all2 (is_probe (p_syn_ack c) (word_of_int (p_mss c))) [1..<k] ps"
      using P by (auto simp: probes_sent_def)
    have "is_probe (p_syn_ack c) (word_of_int (p_mss c)) k p" using that(3) by (auto simp: is_probe_def)
    then have "list_all2 (is_probe (p_syn_ack c) (word_of_int (p_mss c))) ([1..<k] @ [k]) (ps @ [p])"
      using ps(2) by (intro list_all2_appendI) simp_all
    then show ?thesis using ps(1) that(2) Suc.prems unfolding probes_sent_def by (intro exI [of _ "ps @ [p]"]) simp
  qed
  have k256: "k < 256" using Suc.hyps(2) by simp
  have await: "wp (await_reply fuel e c start buffer)
      (\<lambda>x. wp (case x of (replied, buffer') \<Rightarrow> if replied then ret (int k) else probe_loop fuel e c [Suc k..<256] buffer') ?Q ?E) ?E h"
    if "?P (Suc k) h" for start h
  proof (rule wp_use [OF await_reply_quiet [where A = "sent h"] refl])
    fix x h' assume "sent h' = sent h"
    then have "?P (Suc k) h'" using that by (simp add: probes_sent_def)
    then show "wp (case x of (replied, buffer') \<Rightarrow> if replied then ret (int k) else probe_loop fuel e c [Suc k..<256] buffer') ?Q ?E h'"
      using IH k256 by (cases x) (auto simp: os_wp)
  qed (simp add: probe_stop_def)
  show ?case
    unfolding k
  proof (rule hoareI)
    fix h assume h: "?P k h"
    let ?id = "word_of_nat (os_rand e h mod 65535)"
    show "wp (probe_loop fuel e c (k # [Suc k..<256]) buffer) ?Q ?E h"
    proof (cases "form_packet (p_syn_ack c) (Some [0]) 1 ?id (word_of_nat k) 0 1 (word_of_int (p_mss c)) True None")
      case None
      then show ?thesis using probe_formed [OF None assms(1)] by (simp add: os_wp rand_id_def probe_stop_def)
    next
      case (Some p)
      let ?h = "[Rand (os_rand e h), Sendto (p_fd c) (p_server c) p True]"
      have "?P (Suc k) ((h @ ?h) @ [Clock_ms (os_now_ms e (h @ ?h))])"
        using step [OF h, of "?h @ [Clock_ms (os_now_ms e (h @ ?h))]"] Some by simp
      from await [OF this] Some show ?thesis by (auto simp: os_wp rand_id_def)
    qed
  qed
qed

section \<open>The count\<close>

lemma sniff_packet_length:
  assumes "sniff_handshake_packet S ok ip port obs [] = Some out"
  shows "so_packet out = [] \<or> length (so_packet out) = 100"
proof (cases ok)
  case False
  then show ?thesis using assms by (auto simp: sniff_handshake_packet_def)
next
  case True
  have "sniff_inv ip port (o_port ` set obs) \<lparr>ss_buffer = sniff_buffer, ss_packets = Map.empty, ss_searched = False, ss_port = -1\<rparr>"
    by (simp add: sniff_inv_def sniff_buffer_def)
  from sniff_handshake_loop_packet [OF _ this subset_refl] assms True show ?thesis
    by (fastforce simp: sniff_handshake_packet_def answers_def)
qed

text \<open>A count, with the packet that was captured and the probes that were made of it; and where the function does
  not return.\<close>

definition hop_answer :: "bytes list \<Rightarrow> sniff_out option \<Rightarrow> int \<Rightarrow> hist \<Rightarrow> bool" where
  "hop_answer A out r h \<longleftrightarrow> r = -1 \<or> 1 \<le> r \<and> r < 256
     \<and> (\<exists>o' win. out = Some o' \<and> so_status o' \<noteq> Some (-1) \<and> probes_sent A (so_packet o') win (nat r + 1) h)"

definition hop_stop :: "sniff_out option \<Rightarrow> stop \<Rightarrow> bool" where
  "hop_stop out x \<longleftrightarrow> x = Out_of_fuel \<or> x = Blocked
     \<or> x = Undefined \<and> (\<exists>o'. out = Some o' \<and> so_packet o' \<noteq> [] \<and> ihl (so_packet o') \<noteq> 5)"

lemma hop_answer_close [simp]: "hop_answer A out r (h @ [Close fd]) = hop_answer A out r h"
  "hop_answer A out r (h @ [Close fd, Close fd']) = hop_answer A out r h" "hop_answer A out (-1) h"
  by (simp_all add: hop_answer_def probes_sent_def)

lemma hop_stop_simps [simp]: "hop_stop out Out_of_fuel" "hop_stop out Blocked"
  by (simp_all add: hop_stop_def)

lemma probe_server_hoare:
  assumes "out = Some o'" "so_status o' \<noteq> Some (-1)" "so_packet o' = [] \<or> length (so_packet o') = 100"
  shows "hoare (\<lambda>h. sent h = A) (probe_server fuel e ss addr port lp timeout (so_packet o')) (hop_answer A out)
    (\<lambda>x h. x = Return (-1) \<or> hop_stop out x)"
proof (rule hoareI)
  fix h assume h: "sent h = A"
  let ?E = "\<lambda>x (h :: hist). x = Return (-1) \<or> hop_stop out x"
  have P: "wp (probe_loop fuel e c [Suc 0..<256] sniff_buffer)
      (\<lambda>r. wp (then_do (emit (Close fd)) (then_do (emit (Close ss)) (ret r))) (hop_answer (sent h) out) ?E) ?E h'"
    if "sent h' = sent h" "p_syn_ack c = so_packet o'" for c h' fd
    by (rule wp_use [OF probe_loop_hoare [of c "Suc 0" "sent h"]])
      (use that assms in \<open>auto simp: hop_answer_def hop_stop_def probe_stop_def probes_sent_def wp_simps\<close>)
  show "wp (probe_server fuel e ss addr port lp timeout (so_packet o')) (hop_answer A out) ?E h"
    using h by (auto simp: probe_server_def need_some_def close_and_fail_def close_both_def os_wp split: option.splits
      intro!: P)
qed

lemma count_hops_private_hoare:
  "hoare (\<lambda>h. sent h = A) (count_hops_private fuel e S ok obs addr port)
     (hop_answer A (sniff_handshake_packet S ok (sin_addr addr) port obs []))
     (\<lambda>x h. hop_stop (sniff_handshake_packet S ok (sin_addr addr) port obs []) x)"
proof (rule hoareI)
  fix h assume h: "sent h = A"
  define out where "out = sniff_handshake_packet S ok (sin_addr addr) port obs []"
  have P: "wp (probe_server fuel e ss addr port lp timeout (so_packet o')) (hop_answer A (Some o'))
      (\<lambda>x h. case x of Return r \<Rightarrow> hop_answer A (Some o') r h | _ \<Rightarrow> hop_stop (Some o') x) h'"
    if "sent h' = A" "out = Some o'" "so_status o' \<noteq> Some (-1)" for ss lp timeout h' o'
    by (rule wp_use [OF probe_server_hoare [OF refl that(3), of A]])
      (use that sniff_packet_length [of S ok "sin_addr addr" port obs o'] in \<open>auto simp: out_def hop_stop_def split: stop.splits\<close>)
  note C = wp_use [OF connect_quiet [where A = "sent h"]]
  have "wp (count_hops_private fuel e S ok obs addr port) (hop_answer A out) (\<lambda>x h. hop_stop out x) h"
    using h
    by (auto simp: count_hops_private_def sniff_thread_def out_def [symmetric] join_thread_def close_and_fail_def os_wp Let_def
      split: option.splits intro!: C P [unfolded h [symmetric]])
  then show "wp (count_hops_private fuel e S ok obs addr port)
     (hop_answer A (sniff_handshake_packet S ok (sin_addr addr) port obs []))
     (\<lambda>x h. hop_stop (sniff_handshake_packet S ok (sin_addr addr) port obs []) x) h" by (simp only: out_def)
qed

lemma hop_stop_cases: "hop_stop out x \<Longrightarrow> x = Undefined \<or> x = Out_of_fuel \<or> x = Blocked"
  by (auto simp: hop_stop_def)

text \<open>C25: The probes of \<open>count_hops_private\<close>. A count that it returns is from 1 to 255, the sniffer ended without the
  status -1, and exactly the probes with the TTLs 1, 2, ... up to the count were sent, each one the packet that
  \<open>form_packet\<close> makes of what the sniffer captured. When it captured a packet without IP options each is well-formed
  and carries one zero byte at the first sequence number of the client. When it captured nothing (an error of poll or of
  the socket also ends it with status 0) the function probes all the same, and none of its packets is well-formed.
  It runs into undefined behaviour only with a captured packet whose IP header does not have 20 bytes.\<close>

theorem count_hops_private_probes:
  "hoare (\<lambda>h. sent h = A) (count_hops_private fuel e S ok obs addr port)
     (\<lambda>r h. r = -1 \<or> 1 \<le> r \<and> r \<le> 255 \<and> (\<exists>out win ps. sniff_handshake_packet S ok (sin_addr addr) port obs [] = Some out
        \<and> so_status out \<noteq> Some (-1) \<and> sent h = A @ ps \<and> list_all2 (is_probe (so_packet out) win) [1..<nat r + 1] ps
        \<and> (if so_packet out = [] then \<forall>p\<in>set ps. \<not> well_formed p
           else ihl (so_packet out) = 5 \<longrightarrow> list_all2 (good_probe (so_packet out)) [1..<nat r + 1] ps)))
     (\<lambda>x h. x = Out_of_fuel \<or> x = Blocked \<or> x = Undefined \<and> (\<exists>out. sniff_handshake_packet S ok (sin_addr addr) port obs [] = Some out
        \<and> so_packet out \<noteq> [] \<and> ihl (so_packet out) \<noteq> 5))"
proof (rule hoareI, rule wp_use [OF count_hops_private_hoare])
  fix r h
  let ?out = "sniff_handshake_packet S ok (sin_addr addr) port obs []"
  assume a: "hop_answer A ?out r h"
  show "r = -1 \<or> 1 \<le> r \<and> r \<le> 255 \<and> (\<exists>out win ps. ?out = Some out
        \<and> so_status out \<noteq> Some (-1) \<and> sent h = A @ ps \<and> list_all2 (is_probe (so_packet out) win) [1..<nat r + 1] ps
        \<and> (if so_packet out = [] then \<forall>p\<in>set ps. \<not> well_formed p
           else ihl (so_packet out) = 5 \<longrightarrow> list_all2 (good_probe (so_packet out)) [1..<nat r + 1] ps))"
  proof (cases "r = -1")
    case False
    then obtain out win ps where o: "?out = Some out" "so_status out \<noteq> Some (-1)" "sent h = A @ ps" "1 \<le> r" "r \<le> 255"
      "list_all2 (is_probe (so_packet out) win) [1..<nat r + 1] ps"
      using a by (auto simp: hop_answer_def probes_sent_def)
    have l: "so_packet out = [] \<or> length (so_packet out) = 100" by (rule sniff_packet_length [OF o(1)])
    have "\<not> well_formed p" if "so_packet out = []" "p \<in> set ps" for p
    proof -
      obtain i where "i < length ps" "p = ps ! i" using \<open>p \<in> set ps\<close> by (auto simp: in_set_conv_nth)
      then obtain ttl where "is_probe (so_packet out) win ttl p" using o(6) by (auto simp: list_all2_conv_all_nth)
      then show ?thesis using form_packet_no_capture \<open>so_packet out = []\<close> unfolding is_probe_def by (metis option.inject)
    qed
    moreover have "list_all2 (good_probe (so_packet out)) [1..<nat r + 1] ps" if "so_packet out \<noteq> []" "ihl (so_packet out) = 5"
      using o(6) by (rule list_all2_mono) (use l that probe_packet in blast)
    ultimately show ?thesis using o by (intro disjI2 conjI exI [of _ out] exI [of _ win] exI [of _ ps]) simp_all
  qed simp
qed (auto simp: hop_stop_def)

definition near_os :: os where
  "near_os = willing_os\<lparr>os_poll := \<lambda>h fds t. Poll_ready [(False, True)], os_recv := \<lambda>h fd n. Ok sample_syn_ack\<rparr>"

lemma near_run: "fst (count_hops_private 1 near_os default_Settings True sample_obs (Sockaddr 0x5DB8D822 443) 443 []) = Inr 1"
proof -
  have i: "40 \<le> length sample_syn_ack" "ihl sample_syn_ack = 5" by (simp_all add: sample_syn_ack_def ihl_def)
  have pay: "payload_of (Some [0]) 1 = Some [0]" by (simp add: payload_of_def)
  have f: "\<exists>q. form_packet sample_syn_ack (Some [0]) 1 ident ttl 0 1 win True None = Some q" for ident ttl win
    using form_packet_answers [OF i _ pay, of ident ttl 0 1 win None] by auto
  have pr: "is_reply 0x5DB8D822 443 40000 (overwrite sample_syn_ack sniff_buffer)" by code_simp
  have l: "length sample_syn_ack = 100" "length sniff_buffer = 100" by (simp_all add: sample_syn_ack_def sniff_buffer_def)
  have int10: "c_int 10 = 10" by code_simp
  have sel: "os_socket near_os h k = Some (3 + int (length h))" "os_setsockopt near_os h fd o' v" "os_getfl near_os h fd = Some 0x802"
    "os_getsockopt near_os h fd o' = Some (if o' = TCP_MAXSEG then 1460 else if o' = IP_TTL then 64 else 0)"
    "os_setfl near_os h fd fl" "os_connect near_os h fd a = Ok ()" "os_now_ms near_os h = int (length h)" "os_sendto near_os h fd a d"
    "os_getsockname near_os h fd = Some 40000" "os_poll near_os h fds t = Poll_ready [(False, True)]" "os_recv near_os h fd n = Ok sample_syn_ack"
    for h k fd o' v fl a d fds n t by (simp_all add: near_os_def willing_os_def)
  have probe: "wp (probe_loop (Suc 0) near_os \<lparr>p_fd = fd, p_server = Sockaddr 0x5DB8D822 443, p_port = 443, p_local_port = 40000, p_timeout = t,
      p_mss = m, p_syn_ack = sample_syn_ack\<rparr> [Suc 0..<256] sniff_buffer) (\<lambda>x. wp (then_do (emit (Close fd)) (then_do (emit (Close ss)) (ret x))) (\<lambda>r h. r = 1) F) E h"
    if "1 < t" for fd ss t m F E h
  proof -
    have u: "[Suc 0..<256] = 1 # [2..<256]" by (simp only: upt_conv_Cons) simp
    obtain q where "form_packet sample_syn_ack (Some [0]) 1 (word_of_nat (os_rand near_os h mod 65535)) 1 0 1 (word_of_int m) True None = Some q"
      using f by blast
    then show ?thesis unfolding u using that pr l by (simp add: os_wp rand_id_def sel recv_of_def del: upt.simps)
  qed
  have "wp (count_hops_private 1 near_os default_Settings True sample_obs (Sockaddr 0x5DB8D822 443) 443)
      (\<lambda>r h. r = 1) (\<lambda>x h. False) []"
    using sample_sniff int10
    by (simp add: count_hops_private_def sniff_thread_def join_thread_def connect_with_timeout_def start_connect_def probe_server_def need_some_def os_wp
      sniff_done_def sel probe del: upt.simps)
  then show ?thesis by (auto simp: wp_def split: prod.splits sum.splits)
qed

lemma count_hops_private_probes_witness:
  "\<exists>h p. count_hops_private 1 near_os default_Settings True sample_obs (Sockaddr 0x5DB8D822 443) 443 [] = (Inr 1, h)
     \<and> sent h = [p] \<and> good_probe sample_syn_ack 1 p"
proof -
  obtain h where r: "count_hops_private 1 near_os default_Settings True sample_obs (Sockaddr 0x5DB8D822 443) 443 [] = (Inr 1, h)"
    using near_run by (metis prod.collapse)
  have i: "ihl sample_syn_ack = 5" "sample_syn_ack \<noteq> []" by (simp_all add: sample_syn_ack_def ihl_def)
  from wp_run(1) [OF hoareD [OF count_hops_private_probes [of "[]"]] r]
  have "list_all2 (good_probe sample_syn_ack) [1] (sent h)"
    using sample_sniff i by (auto simp: sniff_done_def)
  then show ?thesis using r by (auto simp: list_all2_Cons1)
qed

lemma hops_rounds_bounds:
  "ttl = 256 \<or> 1 \<le> ttl \<and> ttl < 256 \<Longrightarrow> hoare (\<lambda>h. True) (hops_rounds fuel e S rounds addr port ttl)
     (\<lambda>r h. r = 256 \<or> 1 \<le> r \<and> r < 256) (\<lambda>x h. x = Undefined \<or> x = Out_of_fuel \<or> x = Blocked)"
proof (induction rounds arbitrary: ttl)
  case Nil
  then show ?case by (auto simp: hoare_def wp_simps)
next
  case (Cons r rounds)
  obtain ok obs where r: "r = (ok, obs)" by fastforce
  show ?case
    unfolding r
  proof (rule hoareI)
    fix h :: hist
    show "wp (hops_rounds fuel e S ((ok, obs) # rounds) addr port ttl)
      (\<lambda>r h. r = 256 \<or> 1 \<le> r \<and> r < 256) (\<lambda>x h. x = Undefined \<or> x = Out_of_fuel \<or> x = Blocked) h"
      unfolding hops_rounds.simps wp_bnd
    proof (rule wp_use [OF count_hops_private_hoare [where A = "sent h"] refl])
      fix x h'
      assume "hop_answer (sent h) (sniff_handshake_packet S ok (sin_addr addr) port obs []) x h'"
      then have "(if x \<noteq> -1 \<and> x < ttl then x else ttl) = 256 \<or> 1 \<le> (if x \<noteq> -1 \<and> x < ttl then x else ttl)
        \<and> (if x \<noteq> -1 \<and> x < ttl then x else ttl) < 256" using Cons.prems by (auto simp: hop_answer_def)
      from hoareD [OF Cons.IH [OF this] TrueI]
      show "wp (hops_rounds fuel e S rounds addr port (if x \<noteq> -1 \<and> x < ttl then x else ttl))
        (\<lambda>r h. r = 256 \<or> 1 \<le> r \<and> r < 256) (\<lambda>x h. x = Undefined \<or> x = Out_of_fuel \<or> x = Blocked) h'" .
    qed (rule hop_stop_cases)
  qed
qed

text \<open>\<open>count_hops\<close> returns -1 or a number from 1 to 255.\<close>

theorem count_hops_bounds:
  "hoare (\<lambda>h. True) (count_hops fuel e S sniffers ip port) (\<lambda>r h. r = -1 \<or> 1 \<le> r \<and> r \<le> 255)
     (\<lambda>x h. x = Undefined \<or> x = Out_of_fuel \<or> x = Blocked)"
  by (rule hoareI) (auto simp: count_hops_def wp_simps split: option.splits
    intro!: wp_use [OF hops_rounds_bounds [of 256] TrueI])

text \<open>When the sniffer cannot open its raw socket (no privileges), the thread that counts hops waits for
  ever for its readiness: the promise is set only after the socket was opened.\<close>

theorem count_hops_blocks:
  assumes "inet_pton ip \<noteq> None" "\<forall>h. os_socket e h SOCK_STREAM \<noteq> None" "\<not> fst (sniffers 1)"
  shows "fst (count_hops fuel e S sniffers ip port h) = Inl Blocked"
  using assms
  by (cases "sniffers 1") (auto simp: count_hops_def count_hops_private_def returning_def socket_def act_defs
    sniff_thread_def sniff_handshake_packet_def simp del: not_None_eq split: option.splits)

lemma count_hops_blocks_witness:
  "fst (count_hops 10 willing_os default_Settings (\<lambda>_. (False, [])) ''8.8.8.8'' 53 []) = Inl Blocked"
proof (rule count_hops_blocks)
  have "inet_pton ''8.8.8.8'' = Some 0x08080808" by code_simp
  then show "inet_pton ''8.8.8.8'' \<noteq> None" by simp
qed (simp_all add: willing_os_def)

end
