(* ===== verification/Packet.thy ===== *)
theory Packet
  imports Utils Strings
begin

text \<open>
  \<open>packet.cpp\<close>: the HTTP request of the client. \<open>parse_http_message\<close> fills a map with the three
  parts of the first line and the headers, \<open>parse_request\<close> takes method, host and port from it, and
  \<open>remove_proxy_strings\<close> turns a proxy request into one for the origin server, in place and at its
  old size. \<open>std::string\<close> positions are numbers; where the source lets \<open>npos\<close> wrap around to 0 the
  model writes the 0.
\<close>

section \<open>The message\<close>

type_synonym http_message = "string \<rightharpoonup> string"

definition parse_header :: "string \<Rightarrow> http_message \<Rightarrow> http_message" where
  "parse_header line msg =
     (case find_char (CHR '':'') line 0 of
        None \<Rightarrow> msg
      | Some pos_sep \<Rightarrow>
          (let key = map tolower (take pos_sep line);
               value = dropWhile ((=) (CHR '' '')) (drop (pos_sep + 1) line)
           in if value = [] then msg
              else msg(key \<mapsto> rev (dropWhile ((=) (CHR '' '')) (rev value)))))"

text \<open>\<open>position = line.find(' ')\<close> is \<open>npos\<close> when there is no space; incremented, it is 0, and the
  path and the version are then taken from the start of the line.\<close>

definition parse_first_line :: "string \<Rightarrow> http_message \<Rightarrow> http_message" where
  "parse_first_line line msg =
     (let sp1 = find_char (CHR '' '') line 0;
          method = (case sp1 of None \<Rightarrow> line | Some p \<Rightarrow> take p line);
          lpost = (case sp1 of None \<Rightarrow> 0 | Some p \<Rightarrow> p + 1);
          sp2 = find_char (CHR '' '') line lpost;
          path = (case sp2 of None \<Rightarrow> drop lpost line | Some p \<Rightarrow> take (p - lpost) (drop lpost line));
          vpos = (case sp2 of None \<Rightarrow> 0 | Some p \<Rightarrow> p + 1)
      in msg(''method'' \<mapsto> method, ''path'' \<mapsto> path, ''version'' \<mapsto> drop vpos line))"

text \<open>The tokens between the matches of \<open>(\r\n|\r|\n)\<close>.\<close>

fun tokens :: "string \<Rightarrow> string \<Rightarrow> string list" where
  "tokens acc [] = [acc]"
| "tokens acc (c # s) =
     (if c = CHR 0x0D \<and> s \<noteq> [] \<and> hd s = CHR 0x0A then acc # tokens [] (tl s)
      else if c = CHR 0x0D \<or> c = CHR 0x0A then acc # tokens [] s
      else tokens (acc @ [c]) s)"

definition parse_http_message :: "string \<Rightarrow> http_message" where
  "parse_http_message message =
     (case takeWhile (\<lambda>t. t \<noteq> []) (tokens [] message) of
        [] \<Rightarrow> Map.empty
      | first # headers \<Rightarrow> fold parse_header headers (parse_first_line first Map.empty))"

section \<open>The request\<close>

text \<open>The expression \<open>[-a-zA-Z0-9@:%._\+~#=]{1,256}\.[-a-z0-9]{1,16}(:[0-9]{1,5})?\<close>: the first start
  at which it matches, there the longest first part, label and port.\<close>

definition url_char :: "char \<Rightarrow> bool" where
  "url_char c = (c \<in> set ''-@:%._+~#='' \<or> is_digit c
     \<or> (97 \<le> (of_char c :: int) \<and> (of_char c :: int) \<le> 122)
     \<or> (65 \<le> (of_char c :: int) \<and> (of_char c :: int) \<le> 90))"

definition label_char :: "char \<Rightarrow> bool" where
  "label_char c = (c = CHR ''-'' \<or> is_digit c \<or> (97 \<le> (of_char c :: int) \<and> (of_char c :: int) \<le> 122))"

definition port_part :: "string \<Rightarrow> string" where
  "port_part s = (if s \<noteq> [] \<and> hd s = CHR '':'' \<and> takeWhile is_digit (take 5 (tl s)) \<noteq> []
     then CHR '':'' # takeWhile is_digit (take 5 (tl s)) else [])"

definition label_part :: "string \<Rightarrow> string" where
  "label_part s = takeWhile label_char (take 16 s)"

text \<open>The match with a first part of \<open>n\<close> characters, or the longest shorter one.\<close>

fun match_at :: "string \<Rightarrow> nat \<Rightarrow> string option" where
  "match_at s 0 = None"
| "match_at s (Suc n) =
     (if Suc n < length s \<and> s ! Suc n = CHR ''.'' \<and> label_part (drop (Suc (Suc n)) s) \<noteq> []
      then (let l = label_part (drop (Suc (Suc n)) s)
            in Some (take (Suc n) s @ CHR ''.'' # l @ port_part (drop (Suc (Suc n) + length l) s)))
      else match_at s n)"

fun url_search :: "string \<Rightarrow> string option" where
  "url_search [] = None"
| "url_search (c # s) =
     (case match_at (c # s) (length (takeWhile url_char (take 256 (c # s)))) of
        Some m \<Rightarrow> Some m
      | None \<Rightarrow> url_search s)"

text \<open>A failure keeps the method that was stored before; \<open>std::stoi\<close> may throw.\<close>

datatype request = Failed int "string option" | Parsed string string int | Thrown string

definition host_port :: "string \<Rightarrow> string \<Rightarrow> request" where
  "host_port method found_url =
     (case find_char (CHR '':'') found_url 0 of
        None \<Rightarrow> Parsed method found_url (if method = ''CONNECT'' then 443 else 80)
      | Some p \<Rightarrow>
          (case stoi (drop (p + 1) found_url) of
             Throws x \<Rightarrow> Thrown x
           | Returns port \<Rightarrow> Parsed method (take p found_url) port))"

definition parse_request :: "string \<Rightarrow> bool \<Rightarrow> request" where
  "parse_request request is_proxy =
     (let msg = parse_http_message request
      in case msg ''method'' of
           None \<Rightarrow> Failed (-1) None
         | Some method \<Rightarrow>
             if is_proxy then
               (case url_search (case msg ''path'' of None \<Rightarrow> [] | Some p \<Rightarrow> p) of
                  None \<Rightarrow> Failed (-1) (Some method)
                | Some found_url \<Rightarrow> host_port method found_url)
             else
               (case msg ''host'' of
                  None \<Rightarrow> Failed (-2) (Some method)
                | Some found_url \<Rightarrow> host_port method found_url))"

section \<open>Removing what only a proxy needs\<close>

text \<open>\<open>if (last_char >= t.size() && request.find(t, n) == n + 1)\<close> erase \<open>t\<close> there.\<close>

definition erase_after :: "nat \<Rightarrow> string \<Rightarrow> string \<times> nat \<Rightarrow> string \<times> nat" where
  "erase_after n t = (\<lambda>(request, last_char).
     if length t \<le> last_char \<and> find_str t request n = Some (n + 1)
     then (erase (n + 1) (length t) request, last_char - length t)
     else (request, last_char))"

definition proxy_conn_str :: string where
  "proxy_conn_str = ''proxy-connection: keep-alive'' @ CRLF"

definition erase_proxy_header :: "string \<times> nat \<Rightarrow> string \<times> nat" where
  "erase_proxy_header = (\<lambda>(request, last_char).
     case find_str proxy_conn_str (map tolower request) 0 of
       Some p \<Rightarrow> if length proxy_conn_str \<le> last_char
                 then (erase p (length proxy_conn_str) request, last_char - length proxy_conn_str)
                 else (request, last_char)
     | None \<Rightarrow> (request, last_char))"

text \<open>The request and \<open>last_char\<close> afterwards; an exception of \<open>parse_request\<close> passes through.\<close>

definition remove_proxy_strings :: "string \<Rightarrow> nat \<Rightarrow> (string \<times> nat) throws" where
  "remove_proxy_strings request last_char =
     (case parse_request request True of
        Thrown x \<Rightarrow> Throws x
      | Failed r m \<Rightarrow> Returns (request, last_char)
      | Parsed method host port \<Rightarrow>
          if \<not> validate_http_method method then Returns (request, last_char)
          else
            (let n = length method;
                 (r, l) = erase_proxy_header
                   (erase_after n (CHR '':'' # to_string port)
                     (erase_after n host
                       (erase_after n ''http://'' (request, last_char))))
             in Returns (resize (CHR '' '') (length request) r, l)))"

section \<open>Well-formed messages\<close>

text \<open>A message as a client writes it: the first line, headers, a blank line and a body.\<close>

definition render_header :: "string \<times> string \<Rightarrow> string" where
  "render_header kv = fst kv @ '': '' @ snd kv @ CRLF"

definition render :: "string \<Rightarrow> string \<Rightarrow> string \<Rightarrow> (string \<times> string) list \<Rightarrow> string \<Rightarrow> string" where
  "render method path version headers body =
     method @ '' '' @ path @ '' '' @ version @ CRLF @ concat (map render_header headers) @ CRLF @ body"

definition clean :: "string \<Rightarrow> bool" where
  "clean s = (CHR 0x0D \<notin> set s \<and> CHR 0x0A \<notin> set s)"

definition header_ok :: "string \<times> string \<Rightarrow> bool" where
  "header_ok = (\<lambda>(k, v). clean k \<and> clean v \<and> CHR '':'' \<notin> set k \<and> v \<noteq> [] \<and> hd v \<noteq> CHR '' '' \<and> last v \<noteq> CHR '' '')"

definition first_line_ok :: "string \<Rightarrow> string \<Rightarrow> string \<Rightarrow> bool" where
  "first_line_ok method path version \<longleftrightarrow> clean method \<and> clean path \<and> clean version
     \<and> CHR '' '' \<notin> set method \<and> CHR '' '' \<notin> set path"

lemma tokens_line: "clean a \<Longrightarrow> tokens acc (a @ CRLF @ s) = (acc @ a) # tokens [] s"
proof (induction a arbitrary: acc)
  case Nil
  then show ?case by (simp add: CRLF_def)
next
  case (Cons c a)
  then show ?case by (auto simp: clean_def)
qed

lemma find_char_append: "c \<notin> set a \<Longrightarrow> find_char c (a @ c # b) 0 = Some (length a)"
  using find_idx_append [of a "(=) c" "c # b"] by (auto simp: find_char_def)

lemma parse_header_line:
  assumes "header_ok (k, v)"
  shows "parse_header (k @ '': '' @ v) msg = msg(map tolower k \<mapsto> v)"
proof -
  have "find_char (CHR '':'') (k @ '': '' @ v) 0 = Some (length k)"
    using assms find_char_append [of "CHR '':''" k "CHR '' '' # v"] by (simp add: header_ok_def)
  moreover have "dropWhile ((=) (CHR '' '')) v = v" using assms by (cases v) (auto simp: header_ok_def)
  moreover have "rev (dropWhile ((=) (CHR '' '')) (rev v)) = v"
    using assms by (cases v rule: rev_cases) (auto simp: header_ok_def)
  ultimately show ?thesis using assms by (simp add: parse_header_def header_ok_def)
qed

lemma parse_first_line_ok:
  assumes "first_line_ok m p v"
  shows "parse_first_line (m @ '' '' @ p @ '' '' @ v) msg = msg(''method'' \<mapsto> m, ''path'' \<mapsto> p, ''version'' \<mapsto> v)"
proof -
  let ?l = "m @ '' '' @ p @ '' '' @ v"
  have 1: "find_char (CHR '' '') ?l 0 = Some (length m)"
    using assms find_char_append [of "CHR '' ''" m "p @ '' '' @ v"] by (simp add: first_line_ok_def)
  have "find_char (CHR '' '') ?l (length m + 1) = Some (length m + 1 + length p)"
    using assms find_idx_append [of p "(=) (CHR '' '')" "CHR '' '' # v"]
    by (auto simp: find_char_def first_line_ok_def)
  then show ?thesis unfolding parse_first_line_def Let_def 1 by simp
qed

lemma tokens_headers:
  assumes "\<forall>h\<in>set hs. header_ok h"
  shows "takeWhile (\<lambda>t. t \<noteq> []) (tokens [] (concat (map render_header hs) @ CRLF @ body))
    = map (\<lambda>(k, v). k @ '': '' @ v) hs"
  using assms
proof (induction hs)
  case Nil
  show ?case using tokens_line [of "[]" "[]" body] by (simp add: clean_def)
next
  case (Cons h hs)
  obtain k v where h: "h = (k, v)" by fastforce
  have "clean (k @ '': '' @ v)" using Cons.prems h by (auto simp: header_ok_def clean_def)
  note tl = tokens_line [OF this, of "[]" "concat (map render_header hs) @ CRLF @ body"]
  have "render_header h = (k @ '': '' @ v) @ CRLF" by (simp add: render_header_def h)
  then have "concat (map render_header (h # hs)) @ CRLF @ body
      = (k @ '': '' @ v) @ CRLF @ concat (map render_header hs) @ CRLF @ body" by (simp only: list.map concat.simps append_assoc)
  then show ?case using tl Cons.IH Cons.prems by (simp only: h) simp
qed

lemma fold_headers:
  "\<forall>h\<in>set hs. header_ok h \<Longrightarrow> fold parse_header (map (\<lambda>(k, v). k @ '': '' @ v) hs) msg
    = fold (\<lambda>(k, v) m. m(map tolower k \<mapsto> v)) hs msg"
  by (induction hs arbitrary: msg) (auto simp: parse_header_line [simplified])

lemma parse_render:
  assumes "first_line_ok m p v" "\<forall>h\<in>set hs. header_ok h"
  shows "parse_http_message (render m p v hs body)
    = fold (\<lambda>(k, x) msg. msg(map tolower k \<mapsto> x)) hs [''method'' \<mapsto> m, ''path'' \<mapsto> p, ''version'' \<mapsto> v]"
proof -
  have "clean (m @ '' '' @ p @ '' '' @ v)" using assms(1) by (auto simp: first_line_ok_def clean_def)
  from tokens_line [OF this, of "[]" "concat (map render_header hs) @ CRLF @ body"]
  have "takeWhile (\<lambda>t. t \<noteq> []) (tokens [] (render m p v hs body))
      = (m @ '' '' @ p @ '' '' @ v) # map (\<lambda>(k, v). k @ '': '' @ v) hs"
    using tokens_headers [OF assms(2), of body] by (simp add: render_def)
  then show ?thesis using assms
    by (simp add: parse_http_message_def parse_first_line_ok [simplified] fold_headers [simplified])
qed

lemma match_at_skip: "n0 \<le> n \<Longrightarrow> (\<forall>k. n0 < k \<and> k \<le> n \<longrightarrow> k < length s \<longrightarrow> s ! k \<noteq> CHR ''.'') \<Longrightarrow> match_at s n = match_at s n0"
proof (induction n)
  case (Suc n)
  then show ?case by (cases "n0 = Suc n") auto
qed simp

definition port_string :: "int option \<Rightarrow> string" where
  "port_string p = (case p of None \<Rightarrow> [] | Some n \<Rightarrow> CHR '':'' # to_string n)"

definition host_ok :: "string \<Rightarrow> bool" where
  "host_ok host \<longleftrightarrow> (\<exists>a d. host = a @ ''.'' @ d \<and> a \<noteq> [] \<and> length a \<le> 256 \<and> d \<noteq> [] \<and> length d \<le> 16
     \<and> (\<forall>c\<in>set a. url_char c \<and> c \<noteq> CHR '':'') \<and> (\<forall>c\<in>set d. label_char c))"

lemma chars:
  "\<not> url_char (CHR ''/'')" "url_char (CHR '':'')" "url_char (CHR ''.'')" "\<not> label_char (CHR '':'')" "\<not> label_char (CHR ''/'')" "\<not> label_char (CHR ''.'')"
  "\<not> is_digit (CHR ''/'')" "label_char c \<Longrightarrow> url_char c \<and> c \<noteq> CHR '':'' \<and> c \<noteq> CHR ''.''" "is_digit c \<Longrightarrow> url_char c \<and> c \<noteq> CHR ''.''"
  by (auto simp: url_char_def label_char_def is_digit_def)

lemma takeWhile_slash: "length (takeWhile url_char (take n (w @ CHR ''/'' # s))) \<le> length w"
proof -
  have "length (takeWhile P (take n (w @ x # s))) \<le> length w" if "\<not> P x" for P :: "char \<Rightarrow> bool" and x
    using that
  proof (induction w arbitrary: n)
    case Nil
    then show ?case by (cases n) auto
  next
    case (Cons c w)
    then show ?case by (cases n) (auto simp del: take_append)
  qed
  then show ?thesis using chars(1) by simp
qed

lemma url_search_skip:
  assumes "CHR ''.'' \<notin> set w"
  shows "url_search (w @ CHR ''/'' # s) = url_search s"
  using assms
proof (induction w)
  case Nil
  then show ?case using chars(1) by simp
next
  case (Cons c w)
  let ?s = "(c # w) @ CHR ''/'' # s"
  let ?n = "length (takeWhile url_char (take 256 ?s))"
  have n: "?n \<le> length (c # w)" by (rule takeWhile_slash)
  have "match_at ?s ?n = match_at ?s 0"
  proof (rule match_at_skip)
    show "\<forall>k. 0 < k \<and> k \<le> ?n \<longrightarrow> k < length ?s \<longrightarrow> ?s ! k \<noteq> CHR ''.''"
    proof (intro allI impI)
      fix k assume k: "0 < k \<and> k \<le> ?n" "k < length ?s"
      then obtain j where j: "k = Suc j" "j \<le> length w" using n by (cases k) auto
      have "?s ! k \<in> set w \<union> {CHR ''/''}"
        using j nth_mem [of j w] by (cases "j < length w") (auto simp: nth_append)
      then show "?s ! k \<noteq> CHR ''.''" using Cons.prems by auto
    qed
  qed simp
  then have "match_at (c # (w @ CHR ''/'' # s)) (length (takeWhile url_char (take 256 (c # (w @ CHR ''/'' # s))))) = None"
    by simp
  then show ?case using Cons by simp
qed

lemma takeWhile_stop: "\<forall>c\<in>set a. P c \<Longrightarrow> (b = [] \<or> \<not> P (hd b)) \<Longrightarrow> takeWhile P (a @ b) = a"
  by (cases b) (induction a, auto)+

lemma take_stop:
  assumes "\<forall>c\<in>set a. P c" "b = [] \<or> \<not> P (hd b)" "length a \<le> n"
  shows "takeWhile P (take n (a @ b)) = a"
proof -
  have "take n (a @ b) = a @ take (n - length a) b" using assms(3) by simp
  moreover have "take k b = [] \<or> \<not> P (hd (take k b))" for k using assms(2) by (cases b; cases k) auto
  ultimately show ?thesis using takeWhile_stop [OF assms(1)] by metis
qed

definition port_ok :: "int option \<Rightarrow> bool" where
  "port_ok p \<longleftrightarrow> (case p of None \<Rightarrow> True | Some n \<Rightarrow> 0 \<le> n \<and> n \<le> 2147483647 \<and> length (to_string n) \<le> 5)"

lemma to_string_digits: "0 \<le> n \<Longrightarrow> to_string n \<noteq> [] \<and> (\<forall>c\<in>set (to_string n). is_digit c)"
  using show_nat_digits [of "nat n"] by (simp add: to_string_def)

lemma port_part_string:
  assumes "port_ok p"
  shows "port_part (port_string p @ CHR ''/'' # rest) = port_string p"
proof (cases p)
  case None
  then show ?thesis by (simp add: port_part_def port_string_def)
next
  case (Some n)
  have d: "to_string n \<noteq> []" "\<forall>c\<in>set (to_string n). is_digit c" "length (to_string n) \<le> 5"
    using assms Some to_string_digits [of n] by (auto simp: port_ok_def)
  have "takeWhile is_digit (take 5 (to_string n @ CHR ''/'' # rest)) = to_string n"
    by (rule take_stop [OF d(2) _ d(3)]) (simp add: chars(7))
  then show ?thesis using d(1) by (simp add: port_part_def port_string_def Some)
qed

lemma nth_slash: "j \<le> length w \<Longrightarrow> (w @ c # z) ! j \<in> set w \<union> {c}"
  by (cases "j < length w") (auto simp: nth_append)

lemma url_search_host:
  assumes "host_ok host" "port_ok p"
  shows "url_search (host @ port_string p @ CHR ''/'' # rest) = Some (host @ port_string p)"
proof -
  obtain a d where h: "host = a @ ''.'' @ d" "a \<noteq> []" "length a \<le> 256" "d \<noteq> []" "length d \<le> 16"
    "\<forall>c\<in>set a. url_char c \<and> c \<noteq> CHR '':''" "\<forall>c\<in>set d. label_char c" using assms(1) by (auto simp: host_ok_def)
  let ?s = "host @ port_string p @ CHR ''/'' # rest"
  let ?w = "host @ port_string p"
  have pd: "\<forall>c\<in>set (port_string p). url_char c \<and> c \<noteq> CHR ''.''"
    using assms(2) to_string_digits chars(2,9) by (auto simp: port_string_def port_ok_def split: option.splits)
  have w: "\<forall>c\<in>set ?w. url_char c" using h pd chars(3,8) by auto
  let ?n = "length (takeWhile url_char (take 256 ?s))"
  have n1: "?n \<le> length ?w" using takeWhile_slash [of 256 ?w rest] by simp
  have n2: "length a \<le> ?n"
  proof -
    have "take (length a) (take 256 ?s) = a" using h by simp
    then have "take 256 ?s = a @ drop (length a) (take 256 ?s)" by (metis append_take_drop_id)
    moreover have "takeWhile url_char (a @ x) = a @ takeWhile url_char x" for x
      using h(6) by (simp add: takeWhile_append2)
    ultimately show ?thesis by (metis le_add1 length_append)
  qed
  have "match_at ?s ?n = match_at ?s (length a)"
  proof (rule match_at_skip [OF n2], intro allI impI)
    fix k assume k: "length a < k \<and> k \<le> ?n" "k < length ?s"
    then have kw: "k \<le> length ?w" using n1 by simp
    define j where "j = k - length a - 1"
    have kj: "k = length a + 1 + j" using k j_def by simp
    have e: "?s ! k = ((d @ port_string p) @ CHR ''/'' # rest) ! j"
      by (simp add: h(1) kj nth_append)
    have jl: "j \<le> length (d @ port_string p)" using kw kj h(1) by simp
    have "?s ! k \<in> set (d @ port_string p) \<union> {CHR ''/''}" unfolding e by (rule nth_slash [OF jl])
    moreover have "x \<noteq> CHR ''.''" if "x \<in> set (d @ port_string p) \<union> {CHR ''/''}" for x
      using that h(7) chars(6) pd by auto
    ultimately show "?s ! k \<noteq> CHR ''.''" by blast
  qed
  moreover have "match_at ?s (length a) = Some ?w"
  proof -
    obtain m where m: "length a = Suc m" using h(2) by (cases a) auto
    have l: "label_part (d @ port_string p @ CHR ''/'' # rest) = d"
      unfolding label_part_def
      by (rule take_stop [OF h(7) _ h(5)]) (use chars(4,5) in \<open>auto simp: port_string_def split: option.splits\<close>)
    have dr: "drop (Suc (Suc m)) ?s = d @ port_string p @ CHR ''/'' # rest" using m by (simp add: h(1))
    have dr2: "drop (Suc (Suc m) + length d) ?s = port_string p @ CHR ''/'' # rest"
      by (simp only: drop_drop [symmetric] add.commute [of "Suc (Suc m)"]) (simp only: drop_drop [symmetric] dr, simp)
    have "take (Suc m) ?s = a" "?s ! Suc m = CHR ''.''" "Suc m < length ?s"
      using m by (simp_all add: h(1) nth_append)
    then show ?thesis unfolding m match_at.simps using l h(4) dr dr2 port_part_string [OF assms(2), of rest]
      by (simp add: Let_def h(1))
  qed
  ultimately have "match_at ?s ?n = Some ?w" by simp
  moreover obtain c t where "?s = c # t" using h(1,2) by (cases a) auto
  ultimately show ?thesis by simp
qed

lemma url_search_url:
  assumes "host_ok host" "port_ok p"
  shows "url_search (''http://'' @ host @ port_string p @ CHR ''/'' # rest) = Some (host @ port_string p)"
  using url_search_skip [of "''http:''" "CHR ''/'' # host @ port_string p @ CHR ''/'' # rest"]
    url_search_skip [of "[]" "host @ port_string p @ CHR ''/'' # rest"] url_search_host [OF assms]
  by simp

definition no_clobber :: "(string \<times> string) list \<Rightarrow> bool" where
  "no_clobber hs \<longleftrightarrow> (\<forall>(k, v)\<in>set hs. map tolower k \<noteq> ''method'' \<and> map tolower k \<noteq> ''path'')"

lemma fold_headers_other:
  "\<forall>(k, v)\<in>set hs. map tolower k \<noteq> x \<Longrightarrow> fold (\<lambda>(k, v) msg. msg(map tolower k \<mapsto> v)) hs msg x = msg x"
  by (induction hs arbitrary: msg) auto

lemma host_okE:
  assumes "host_ok h"
  obtains a d where "h = a @ ''.'' @ d" "a \<noteq> []" "length a \<le> 256" "d \<noteq> []" "length d \<le> 16"
    "\<forall>c\<in>set a. url_char c \<and> c \<noteq> CHR '':''" "\<forall>c\<in>set d. label_char c"
  using assms unfolding host_ok_def by (elim exE conjE) (rule that)

lemma host_no_colon:
  assumes "host_ok h"
  shows "CHR '':'' \<notin> set h"
proof -
  obtain a d where h: "h = a @ ''.'' @ d" "a \<noteq> []" "length a \<le> 256" "d \<noteq> []" "length d \<le> 16"
    "\<forall>c\<in>set a. url_char c \<and> c \<noteq> CHR '':''" "\<forall>c\<in>set d. label_char c"
    using assms by (rule host_okE)
  have "CHR '':'' \<notin> set a" using h(6) by auto
  moreover have "CHR '':'' \<notin> set d" using h(7) chars(4) by metis
  ultimately have "CHR '':'' \<notin> set a" "CHR '':'' \<notin> set d" .
  then show ?thesis by (simp add: h(1))
qed

lemma host_port_string:
  assumes "host_ok h" "port_ok p"
  shows "host_port m (h @ port_string p)
    = Parsed m h (case p of None \<Rightarrow> if m = ''CONNECT'' then 443 else 80 | Some n \<Rightarrow> n)"
proof (cases p)
  case None
  have "find_idx ((=) (CHR '':'')) h = None" using host_no_colon [OF assms(1)] by (auto simp: find_idx_None)
  then show ?thesis by (simp add: host_port_def port_string_def None find_char_def)
next
  case (Some n)
  have "find_char (CHR '':'') (h @ port_string p) 0 = Some (length h)"
    using find_char_append [OF host_no_colon [OF assms(1)]] by (simp add: port_string_def Some)
  then show ?thesis using assms(2) stoi_to_string [of n]
    by (simp add: host_port_def port_string_def Some port_ok_def)
qed

lemma parse_request_render:
  assumes "first_line_ok m url v" "\<forall>h\<in>set hs. header_ok h" "no_clobber hs"
    "url = ''http://'' @ h @ port_string p @ ''/'' @ rest" "host_ok h" "port_ok p"
  shows "parse_request (render m url v hs body) True
    = Parsed m h (case p of None \<Rightarrow> if m = ''CONNECT'' then 443 else 80 | Some n \<Rightarrow> n)"
proof -
  have msg: "parse_http_message (render m url v hs body) ''method'' = Some m"
    "parse_http_message (render m url v hs body) ''path'' = Some url"
    using assms(3) unfolding parse_render [OF assms(1,2)]
    by (subst fold_headers_other; fastforce simp: no_clobber_def)+
  show ?thesis
    unfolding parse_request_def Let_def msg
    using url_search_url [OF assms(5,6), of rest] host_port_string [OF assms(5,6)] by (simp add: assms(4))
qed

lemma find_after:
  assumes "t \<noteq> []" "hd t \<noteq> CHR '' ''"
  shows "find_str t (m @ CHR '' '' # s) (length m) = Some (length m + 1) \<longleftrightarrow> starts_with t s"
proof -
  have ns: "\<not> starts_with t (CHR '' '' # s)" using assms by (cases t) auto
  have "find_sub t s = Some 0 \<longleftrightarrow> starts_with t s" using assms(1) by (cases s; cases t) auto
  then show ?thesis using ns by (auto simp: find_str_def)
qed

lemma erase_after_hit:
  assumes "t \<noteq> []" "hd t \<noteq> CHR '' ''" "length t \<le> l"
  shows "erase_after (length m) t (m @ CHR '' '' # t @ s, l) = (m @ CHR '' '' # s, l - length t)"
  using assms find_after [OF assms(1,2), of m "t @ s"] by (simp add: erase_after_def erase_def)

lemma erase_after_miss:
  assumes "t \<noteq> []" "hd t \<noteq> CHR '' ''" "s \<noteq> []" "hd s \<noteq> hd t"
  shows "erase_after (length m) t (m @ CHR '' '' # s, l) = (m @ CHR '' '' # s, l)"
proof -
  have "\<not> starts_with t s" using assms by (cases t; cases s) auto
  then show ?thesis using find_after [OF assms(1,2), of m s] by (simp add: erase_after_def)
qed

text \<open>The line that is removed stands alone in a message: an occurrence of it ends with the end of a line.\<close>

lemma first_part: "a @ x # b = p @ x # t \<Longrightarrow> x \<notin> set a \<Longrightarrow> x \<notin> set p \<Longrightarrow> a = p"
proof (induction a arbitrary: p)
  case Nil
  then show ?case by (cases p) auto
next
  case (Cons c a)
  then show ?case by (cases p) auto
qed

lemma find_line:
  assumes "p = p' @ [x]" "x \<notin> set p'" "x \<notin> set a" "\<forall>u. a @ [x] \<noteq> u @ p"
  shows "find_sub p (a @ x # b) = map_option ((+) (Suc (length a))) (find_sub p b)"
  using assms(3,4)
proof (induction a)
  case Nil
  have "\<not> starts_with p (x # b)"
  proof
    assume "starts_with p (x # b)"
    then obtain t where "x # b = p' @ x # t" by (auto simp: starts_with_append assms(1))
    then have "p' = []" using assms(2) by (cases p') auto
    then show False using Nil(2) [rule_format, of "[]"] assms(1) by simp
  qed
  then show ?case by (cases "find_sub p b") simp_all
next
  case (Cons c a)
  have "\<not> starts_with p (c # a @ x # b)"
  proof
    assume "starts_with p (c # a @ x # b)"
    then obtain t where "(c # a) @ x # b = p' @ x # t" by (auto simp: starts_with_append assms(1))
    then have "c # a = p'" using Cons.prems(1) assms(2) by (rule first_part)
    then show False using Cons.prems(2) [rule_format, of "[]"] assms(1) by simp
  qed
  moreover have "\<forall>u. a @ [x] \<noteq> u @ p" using Cons.prems(2) by (metis append_Cons)
  ultimately show ?case using Cons.IH Cons.prems(1) by (cases "find_sub p b") simp_all
qed

definition proxy_line :: "string \<times> string \<Rightarrow> bool" where
  "proxy_line = (\<lambda>(k, v). map tolower k = ''proxy-connection'' \<and> map tolower v = ''keep-alive'')"

fun without_proxy :: "(string \<times> string) list \<Rightarrow> (string \<times> string) list" where
  "without_proxy [] = []"
| "without_proxy (h # hs) = (if proxy_line h then hs else h # without_proxy hs)"

definition has_proxy :: "(string \<times> string) list \<Rightarrow> bool" where
  "has_proxy hs = (\<exists>h\<in>set hs. proxy_line h)"

text \<open>A line that does not end with the text of the removed one.\<close>

definition plain_line :: "string \<Rightarrow> bool" where
  "plain_line s = (\<forall>u. map tolower (s @ CRLF) \<noteq> u @ proxy_conn_str)"

lemma CRLF_chars: "CRLF = [CHR 0x0D, CHR 0x0A]"
  by (simp add: CRLF_def)

lemma tolower_eqD:
  assumes "tolower c = d" "of_char d < (97::nat)"
  shows "c = d"
proof (rule ccontr)
  assume "c \<noteq> d"
  then have r: "CHR ''A'' \<le> c" "c \<le> CHR ''Z''" "d = char_of (of_char c + 32 :: nat)"
    using assms(1) by (auto simp: tolower_def split: if_splits)
  then have "65 \<le> (of_char c :: nat)" "(of_char c :: nat) \<le> 90" by (simp_all add: less_eq_char_def)
  then have "of_char d = (of_char c + 32 :: nat)" using r(3) by simp
  then show False using assms(2) \<open>65 \<le> (of_char c :: nat)\<close> by simp
qed

lemma tolower_clean: "clean s \<Longrightarrow> CHR 0x0A \<notin> set (map tolower s)"
  by (auto simp: clean_def dest: tolower_eqD [OF sym])

lemma lower_CRLF: "map tolower CRLF = CRLF"
  by (simp add: CRLF_chars tolower_def)

lemma find_plain_line:
  assumes "clean s" "plain_line s"
  shows "find_sub proxy_conn_str (map tolower (s @ CRLF @ b))
    = map_option ((+) (length s + 2)) (find_sub proxy_conn_str (map tolower b))"
proof -
  have p: "proxy_conn_str = (''proxy-connection: keep-alive'' @ [CHR 0x0D]) @ [CHR 0x0A]"
    by (simp add: proxy_conn_str_def CRLF_chars)
  have n: "CHR 0x0A \<notin> set (''proxy-connection: keep-alive'' @ [CHR 0x0D])" by simp
  have a: "CHR 0x0A \<notin> set (map tolower s @ [CHR 0x0D])" using tolower_clean [OF assms(1)] by simp
  have e: "map tolower (s @ CRLF @ b) = (map tolower s @ [CHR 0x0D]) @ CHR 0x0A # map tolower b"
    by (simp add: lower_CRLF) (simp add: CRLF_chars)
  have "\<forall>u. (map tolower s @ [CHR 0x0D]) @ [CHR 0x0A] \<noteq> u @ proxy_conn_str"
    using assms(2) by (simp add: plain_line_def lower_CRLF) (simp add: CRLF_chars)
  from find_line [OF p n a this, of "map tolower b"] show ?thesis unfolding e by simp
qed

lemma header_line: "render_header h = (fst h @ '': '' @ snd h) @ CRLF"
  by (simp add: render_header_def)

lemma proxy_line_text: "proxy_line h \<Longrightarrow> map tolower (render_header h) = proxy_conn_str"
  by (cases h) (simp add: proxy_line_def render_header_def proxy_conn_str_def lower_CRLF, simp add: tolower_def)

lemma erase_append: "erase (length a + p) n (a @ w) = a @ erase p n w"
  by (simp add: erase_def)

lemma find_proxy_header:
  assumes "\<forall>h\<in>set hs. header_ok h" "\<forall>h\<in>set hs. proxy_line h \<or> plain_line (fst h @ '': '' @ snd h)"
    and "has_proxy hs \<or> find_sub proxy_conn_str (map tolower body) = None"
  shows "(case find_sub proxy_conn_str (map tolower (concat (map render_header hs) @ CRLF @ body)) of
      None \<Rightarrow> \<not> has_proxy hs \<and> without_proxy hs = hs
    | Some p \<Rightarrow> has_proxy hs \<and> erase p (length proxy_conn_str) (concat (map render_header hs) @ CRLF @ body)
        = concat (map render_header (without_proxy hs)) @ CRLF @ body)"
  using assms
proof (induction hs)
  case Nil
  have "plain_line []" by (auto simp: plain_line_def lower_CRLF dest!: arg_cong [where f = length]) (simp add: CRLF_chars proxy_conn_str_def)
  then show ?case using find_plain_line [of "[]" body] Nil(3) by (simp add: has_proxy_def clean_def)
next
  case (Cons h hs)
  let ?rest = "concat (map render_header hs) @ CRLF @ body"
  show ?case
  proof (cases "proxy_line h")
    case True
    have t: "map tolower (render_header h @ ?rest) = proxy_conn_str @ map tolower ?rest"
      using proxy_line_text [OF True] by simp
    have "find_sub proxy_conn_str (proxy_conn_str @ w) = Some 0" for w
      using starts_with_self [of proxy_conn_str w] by (cases "proxy_conn_str @ w") (auto simp: proxy_conn_str_def)
    moreover have "length proxy_conn_str = length (render_header h)" using arg_cong [OF proxy_line_text [OF True], of length] by simp
    ultimately show ?thesis using True t by (simp add: has_proxy_def erase_def)
  next
    case False
    let ?l = "fst h @ '': '' @ snd h"
    have "clean ?l" using Cons.prems(1) by (cases h) (auto simp: header_ok_def clean_def)
    moreover have "plain_line ?l" using Cons.prems(2) False by simp
    ultimately have f: "find_sub proxy_conn_str (map tolower (?l @ CRLF @ ?rest))
        = map_option ((+) (length ?l + 2)) (find_sub proxy_conn_str (map tolower ?rest))" by (rule find_plain_line)
    have e: "concat (map render_header (h # hs)) @ CRLF @ body = ?l @ CRLF @ ?rest" by (simp add: header_line)
    have hp: "has_proxy (h # hs) = has_proxy hs" using False by (simp add: has_proxy_def)
    have IH: "case find_sub proxy_conn_str (map tolower ?rest) of
      None \<Rightarrow> \<not> has_proxy hs \<and> without_proxy hs = hs
    | Some p \<Rightarrow> has_proxy hs \<and> erase p (length proxy_conn_str) ?rest = concat (map render_header (without_proxy hs)) @ CRLF @ body"
      by (rule Cons.IH) (use Cons.prems hp in auto)
    have er: "erase (length ?l + 2 + p) n (?l @ CRLF @ w) = ?l @ CRLF @ erase p n w" for p n w
      using erase_append [of "?l @ CRLF" p n w] by (simp add: CRLF_chars)
    show ?thesis
    proof (cases "find_sub proxy_conn_str (map tolower ?rest)")
      case None
      then show ?thesis using IH f False hp unfolding e by simp
    next
      case (Some p)
      then show ?thesis using IH f False hp er [of p "length proxy_conn_str" ?rest] unfolding e by (simp add: header_line)
    qed
  qed
qed

lemma last_part:
  assumes "a @ c # s = b @ c # t" "c \<notin> set s" "c \<notin> set t"
  shows "s = t"
proof -
  have "rev s @ c # rev a = rev t @ c # rev b" using arg_cong [OF assms(1), of rev] by simp
  then have "rev s = rev t" by (rule first_part) (simp_all add: assms(2,3))
  then show ?thesis by simp
qed

lemma plain_first_line:
  assumes "CHR '' '' \<notin> set v" "map tolower v \<noteq> ''keep-alive''"
  shows "plain_line (a @ CHR '' '' # v)"
  unfolding plain_line_def
proof (intro allI notI)
  fix u assume "map tolower ((a @ CHR '' '' # v) @ CRLF) = u @ proxy_conn_str"
  then have "map tolower a @ CHR '' '' # (map tolower v @ CRLF) = (u @ ''proxy-connection:'') @ CHR '' '' # (''keep-alive'' @ CRLF)"
    by (simp add: proxy_conn_str_def lower_CRLF) (simp add: tolower_def)
  moreover have "CHR '' '' \<notin> set (map tolower v @ CRLF)" using assms(1) by (auto simp: CRLF_chars dest: tolower_eqD [OF sym])
  moreover have "CHR '' '' \<notin> set (''keep-alive'' @ CRLF)" by (simp add: CRLF_chars)
  ultimately have "map tolower v @ CRLF = ''keep-alive'' @ CRLF" by (rule last_part)
  then show False using assms(2) by simp
qed

lemma erase_proxy_header_render:
  assumes "first_line_ok m path v" "CHR '' '' \<notin> set v" "map tolower v \<noteq> ''keep-alive''"
    and hs: "\<forall>h\<in>set hs. header_ok h" "\<forall>h\<in>set hs. proxy_line h \<or> plain_line (fst h @ '': '' @ snd h)"
      "has_proxy hs \<or> find_sub proxy_conn_str (map tolower body) = None"
    and l: "has_proxy hs \<Longrightarrow> length proxy_conn_str \<le> l"
  shows "erase_proxy_header (render m path v hs body, l)
    = (render m path v (without_proxy hs) body, l - (if has_proxy hs then length proxy_conn_str else 0))"
proof -
  let ?f = "(m @ '' '' @ path) @ CHR '' '' # v" and ?rest = "concat (map render_header hs) @ CRLF @ body"
  have r: "render m path v hs' body = ?f @ CRLF @ concat (map render_header hs') @ CRLF @ body" for hs'
    by (simp add: render_def)
  have "clean ?f" using assms(1) by (auto simp: first_line_ok_def clean_def)
  from find_plain_line [OF this plain_first_line [OF assms(2,3)], of ?rest]
  have f: "find_str proxy_conn_str (map tolower (render m path v hs body)) 0
      = map_option ((+) (length ?f + 2)) (find_sub proxy_conn_str (map tolower ?rest))"
    unfolding r find_str_def by (cases "find_sub proxy_conn_str (map tolower ?rest)") simp_all
  have er: "erase (length ?f + 2 + p) n (?f @ CRLF @ w) = ?f @ CRLF @ erase p n w" for p n w
    using erase_append [of "?f @ CRLF" p n w] by (simp add: CRLF_chars)
  show ?thesis
  proof (cases "find_sub proxy_conn_str (map tolower ?rest)")
    case None
    then show ?thesis using find_proxy_header [OF hs] f by (simp add: erase_proxy_header_def)
  next
    case (Some p)
    then have h: "has_proxy hs" "erase p (length proxy_conn_str) ?rest = concat (map render_header (without_proxy hs)) @ CRLF @ body"
      using find_proxy_header [OF hs] by simp_all
    then show ?thesis using Some f l er [of p "length proxy_conn_str" ?rest]
      by (simp only: erase_proxy_header_def prod.case option.case option.map r if_True if_P)
  qed
qed

text \<open>C11: The rewriting of a proxy request. Take a message in the usual form: one of the methods the proxy knows, a URL that
  names a dotted host, with or without a port of at most five digits, and a path, a version without blanks (and not \<open>keep-alive\<close>), and
  headers with a name free of colons and a value without blanks at its ends, none of them called method or path.
  Then remove_proxy_strings leaves the same message with scheme, host and port taken out of the
  URL and without the first header \<open>Proxy-Connection: keep-alive\<close> (in any case of its letters), padded with blanks to
  the old size, and last_char is reduced by what was removed. The text of that header must not stand anywhere else
  in the message: not as the end of another line, nor in the body when no header has it.\<close>

theorem remove_proxy_strings_render:
  assumes "first_line_ok m url v" "\<forall>h\<in>set hs. header_ok h" "no_clobber hs" "validate_http_method m"
    and url: "url = ''http://'' @ h @ port_string p @ ''/'' @ rest" "host_ok h" "port_ok p"
    and v: "CHR '' '' \<notin> set v" "map tolower v \<noteq> ''keep-alive''"
    and hs: "\<forall>h\<in>set hs. proxy_line h \<or> plain_line (fst h @ '': '' @ snd h)"
      "has_proxy hs \<or> find_sub proxy_conn_str (map tolower body) = None"
    and l: "length (''http://'' @ h @ port_string p) + (if has_proxy hs then length proxy_conn_str else 0) \<le> l"
  shows "remove_proxy_strings (render m url v hs body) l = Returns
    (resize (CHR '' '') (length (render m url v hs body)) (render m (''/'' @ rest) v (without_proxy hs) body),
     l - (length (''http://'' @ h @ port_string p) + (if has_proxy hs then length proxy_conn_str else 0)))"
proof -
  let ?port = "case p of None \<Rightarrow> if m = ''CONNECT'' then 443 else 80 | Some n \<Rightarrow> n"
  let ?rest = "''/'' @ rest @ '' '' @ v @ CRLF @ concat (map render_header hs) @ CRLF @ body"
  have hh: "h \<noteq> []" "hd h \<noteq> CHR '' ''"
  proof -
    obtain a d where h: "h = a @ ''.'' @ d" "a \<noteq> []" "length a \<le> 256" "d \<noteq> []" "length d \<le> 16"
    "\<forall>c\<in>set a. url_char c \<and> c \<noteq> CHR '':''" "\<forall>c\<in>set d. label_char c"
      using url(2) by (rule host_okE)
    have sp: "\<not> url_char (CHR '' '')" by (simp add: url_char_def is_digit_def)
    have "hd h \<in> set a" using h(1,2) by simp
    then have "url_char (hd h)" using h(6) by blast
    then show "hd h \<noteq> CHR '' ''" using sp by metis
    show "h \<noteq> []" using h(1) by simp
  qed
  have r0: "render m url v hs body = m @ CHR '' '' # ''http://'' @ h @ port_string p @ ?rest"
    by (simp add: render_def url(1))
  have e1: "erase_after (length m) ''http://'' (render m url v hs body, l) = (m @ CHR '' '' # h @ port_string p @ ?rest, l - 7)"
    unfolding r0 using erase_after_hit [of "''http://''" l m "h @ port_string p @ ?rest"] l by simp
  have e2: "erase_after (length m) h (m @ CHR '' '' # h @ port_string p @ ?rest, l - 7) = (m @ CHR '' '' # port_string p @ ?rest, l - 7 - length h)"
    using erase_after_hit [OF hh, of "l - 7" m "port_string p @ ?rest"] l by simp
  have e3: "erase_after (length m) (CHR '':'' # to_string ?port) (m @ CHR '' '' # port_string p @ ?rest, l - 7 - length h)
     = (m @ CHR '' '' # ?rest, l - 7 - length h - length (port_string p))"
  proof (cases p)
    case None
    then show ?thesis using erase_after_miss [of "CHR '':'' # to_string ?port" ?rest m] by (simp add: port_string_def)
  next
    case (Some n)
    then show ?thesis using erase_after_hit [of "CHR '':'' # to_string n" "l - 7 - length h" m ?rest] l
      by (simp add: port_string_def)
  qed
  have r1: "m @ CHR '' '' # ?rest = render m (''/'' @ rest) v hs body" by (simp add: render_def)
  have ll: "l - 7 - length h - length (port_string p) = l - length (''http://'' @ h @ port_string p)" by simp
  have fl: "first_line_ok m (''/'' @ rest) v" using assms(1) by (auto simp: first_line_ok_def clean_def url(1))
  have e4: "erase_proxy_header (render m (''/'' @ rest) v hs body, l - length (''http://'' @ h @ port_string p))
      = (render m (''/'' @ rest) v (without_proxy hs) body,
         l - length (''http://'' @ h @ port_string p) - (if has_proxy hs then length proxy_conn_str else 0))"
    by (rule erase_proxy_header_render [OF fl v assms(2) hs]) (use l in simp)
  have e: "erase_proxy_header (erase_after (length m) (CHR '':'' # to_string ?port)
        (erase_after (length m) h (erase_after (length m) ''http://'' (render m url v hs body, l))))
      = (render m (''/'' @ rest) v (without_proxy hs) body,
         l - (length (''http://'' @ h @ port_string p) + (if has_proxy hs then length proxy_conn_str else 0)))"
    unfolding e1 e2 e3 r1 ll e4 by simp
  show ?thesis
    unfolding remove_proxy_strings_def parse_request_render [OF assms(1-3) url]
    using assms(4) by (simp only: request.case Let_def e prod.case not_True_eq_False if_False)
qed

text \<open>Whatever the buffer holds, remove_proxy_strings keeps its size and never increases last_char.\<close>

theorem remove_proxy_strings_bounds:
  assumes "remove_proxy_strings request l = Returns (r, l')"
  shows "length r = length request \<and> l' \<le> l"
proof -
  have e: "snd (erase_after n t x) \<le> snd x" for n t and x :: "string \<times> nat"
    by (cases x) (simp add: erase_after_def)
  have p: "snd (erase_proxy_header x) \<le> snd x" for x
    by (cases x) (simp add: erase_proxy_header_def split: option.splits)
  have "snd (erase_proxy_header (erase_after n t (erase_after n t' (erase_after n t'' (request, l))))) \<le> l" for n t t' t''
    using p [of "erase_after n t (erase_after n t' (erase_after n t'' (request, l)))"]
      e [of n t "erase_after n t' (erase_after n t'' (request, l))"] e [of n t' "erase_after n t'' (request, l)"]
      e [of n t'' "(request, l)"] by simp
  then show ?thesis using assms
    by (auto simp: remove_proxy_strings_def Let_def split: request.splits if_splits prod.splits) (metis snd_conv)
qed

text \<open>C27: parse_http_message reads back a message in the usual form: method, path and version of the first
  line, and for every header its value under the lower-case name, the later header winning.\<close>

theorem parse_http_message_render:
  assumes "first_line_ok m p v" "\<forall>h\<in>set hs. header_ok h"
  shows "parse_http_message (render m p v hs body)
    = fold (\<lambda>(k, x) msg. msg(map tolower k \<mapsto> x)) hs [''method'' \<mapsto> m, ''path'' \<mapsto> p, ''version'' \<mapsto> v]"
  by (rule parse_render [OF assms])

lemma parse_http_message_render_witness:
  "parse_http_message (render ''GET'' ''/a'' ''HTTP/1.1'' [(''Host'', ''x.org'')] ''...'')
    = fold (\<lambda>(k, x) msg. msg(map tolower k \<mapsto> x)) [(''Host'', ''x.org'')] [''method'' \<mapsto> ''GET'', ''path'' \<mapsto> ''/a'', ''version'' \<mapsto> ''HTTP/1.1'']"
  by (rule parse_http_message_render) (simp_all add: first_line_ok_def header_ok_def clean_def)

lemma later_header:
  assumes "first_line_ok m p v" "\<forall>h\<in>set (hs1 @ (k, x) # hs2). header_ok h"
    "\<forall>(k', y)\<in>set hs2. map tolower k' \<noteq> map tolower k"
  shows "parse_http_message (render m p v (hs1 @ (k, x) # hs2) body) (map tolower k) = Some x"
  unfolding parse_render [OF assms(1,2)] using assms(3) by (simp add: fold_headers_other)

text \<open>The first line and the headers share one map: a header named Path replaces the URL of the
  request, and the proxy takes the host from the header.\<close>

theorem parse_request_path_header:
  assumes "first_line_ok m url v" "\<forall>h\<in>set (hs1 @ (k, x) # hs2). header_ok h" "map tolower k = ''path''"
    "\<forall>(k', y)\<in>set hs2. map tolower k' \<noteq> ''path''" "\<forall>(k', y)\<in>set (hs1 @ hs2). map tolower k' \<noteq> ''method''"
    "url_search x = Some h" "CHR '':'' \<notin> set h"
  shows "parse_request (render m url v (hs1 @ (k, x) # hs2) body) True
    = Parsed m h (if m = ''CONNECT'' then 443 else 80)"
proof -
  have p: "parse_http_message (render m url v (hs1 @ (k, x) # hs2) body) ''path'' = Some x"
    using later_header [OF assms(1,2)] assms(3,4) by auto
  have "parse_http_message (render m url v (hs1 @ (k, x) # hs2) body) ''method'' = Some m"
    unfolding parse_render [OF assms(1,2)]
    by (subst fold_headers_other) (use assms(3,5) in auto)
  moreover have "find_idx ((=) (CHR '':'')) h = None" using assms(7) by (auto simp: find_idx_None)
  ultimately show ?thesis using p assms(6) by (simp add: parse_request_def host_port_def find_char_def Let_def)
qed

lemma parse_request_path_header_witness:
  "parse_request (render ''GET'' ''http://a.org/'' ''HTTP/1.1'' ([] @ (''Path'', ''b.org'') # []) []) True
    = Parsed ''GET'' ''b.org'' (if ''GET'' = ''CONNECT'' then 443 else 80)"
proof (rule parse_request_path_header)
  show "url_search ''b.org'' = Some ''b.org''" "map tolower ''Path'' = ''path''" by code_simp+
qed (simp_all add: first_line_ok_def header_ok_def clean_def)

text \<open>The exception of std::stoi is not caught: when what follows the first colon of the address is
  not a number, parse_request and remove_proxy_strings throw.\<close>

theorem parse_request_throws:
  assumes "parse_http_message request ''method'' = Some m" "parse_http_message request ''path'' = Some path"
    "url_search path = Some (a @ CHR '':'' # b)" "CHR '':'' \<notin> set a" "strtol10 b = None"
  shows "parse_request request True = Thrown ''invalid_argument''
    \<and> remove_proxy_strings request last_char = Throws ''invalid_argument''"
proof -
  have "find_char (CHR '':'') (a @ CHR '':'' # b) 0 = Some (length a)" by (rule find_char_append [OF assms(4)])
  then have "parse_request request True = Thrown ''invalid_argument''"
    using assms by (simp add: parse_request_def host_port_def stoi_def Let_def)
  then show ?thesis by (simp add: remove_proxy_strings_def)
qed

lemma parse_request_throws_witness:
  "parse_request (render ''GET'' ''http://me:pw@a.org/'' ''HTTP/1.1'' [] []) True = Thrown ''invalid_argument''
    \<and> remove_proxy_strings (render ''GET'' ''http://me:pw@a.org/'' ''HTTP/1.1'' [] []) 40 = Throws ''invalid_argument''"
proof (rule parse_request_throws [where a = "''me''" and b = "''pw@a.org''" and m = "''GET''" and path = "''http://me:pw@a.org/''"])
  show "url_search ''http://me:pw@a.org/'' = Some (''me'' @ CHR '':'' # ''pw@a.org'')" by code_simp
  show "strtol10 ''pw@a.org'' = None" by code_simp
  have r: "parse_http_message (render ''GET'' ''http://me:pw@a.org/'' ''HTTP/1.1'' [] [])
      = [''method'' \<mapsto> ''GET'', ''path'' \<mapsto> ''http://me:pw@a.org/'', ''version'' \<mapsto> ''HTTP/1.1'']"
    by (subst parse_render) (simp_all add: first_line_ok_def clean_def)
  show "parse_http_message (render ''GET'' ''http://me:pw@a.org/'' ''HTTP/1.1'' [] []) ''method'' = Some ''GET''"
    "parse_http_message (render ''GET'' ''http://me:pw@a.org/'' ''HTTP/1.1'' [] []) ''path'' = Some ''http://me:pw@a.org/''"
    unfolding r by simp_all
qed simp

definition proxied :: "(string \<times> string) list" where
  "proxied = [(''Host'', ''a.org''), (''Proxy-Connection'', ''Keep-Alive''), (''Accept'', ''text'')]"

lemma remove_proxy_strings_render_witness:
  "remove_proxy_strings (render ''GET'' (''http://'' @ ''a.org'' @ port_string (Some 81) @ ''/'' @ ''x'') ''HTTP/1.1'' proxied []) 90 = Returns
    (resize (CHR '' '') (length (render ''GET'' (''http://'' @ ''a.org'' @ port_string (Some 81) @ ''/'' @ ''x'') ''HTTP/1.1'' proxied []))
       (render ''GET'' (''/'' @ ''x'') ''HTTP/1.1'' (without_proxy proxied) []),
     90 - (length (''http://'' @ ''a.org'' @ port_string (Some 81)) + (if has_proxy proxied then length proxy_conn_str else 0)))"
proof (rule remove_proxy_strings_render)
  have s: "port_string (Some 81) = '':81''" by code_simp
  have pl: "proxy_line (''Proxy-Connection'', ''Keep-Alive'')" by code_simp
  then have hp: "has_proxy proxied" by (simp add: has_proxy_def proxied_def)
  show "first_line_ok ''GET'' (''http://'' @ ''a.org'' @ port_string (Some 81) @ ''/'' @ ''x'') ''HTTP/1.1''"
    by (simp add: first_line_ok_def clean_def s)
  show "host_ok ''a.org''" unfolding host_ok_def
    by (rule exI [of _ "''a''"], rule exI [of _ "''org''"]) (simp add: url_char_def label_char_def is_digit_def)
  show "port_ok (Some 81)" using s by (simp add: port_ok_def port_string_def)
  show "length (''http://'' @ ''a.org'' @ port_string (Some 81)) + (if has_proxy proxied then length proxy_conn_str else 0) \<le> 90"
    using hp by (simp add: s proxy_conn_str_def CRLF_chars)
  show "validate_http_method ''GET''" by code_simp
  show "has_proxy proxied \<or> find_sub proxy_conn_str (map tolower []) = None" using hp by simp
  have "plain_line ''Host: a.org''" "plain_line ''Accept: text''"
    by (auto simp: plain_line_def lower_CRLF proxy_conn_str_def tolower_def dest!: arg_cong [where f = length])
  then show "\<forall>h\<in>set proxied. proxy_line h \<or> plain_line (fst h @ '': '' @ snd h)"
    using pl by (simp add: proxied_def)
qed (simp_all add: no_clobber_def proxied_def header_ok_def clean_def tolower_def)

lemma remove_proxy_strings_bounds_witness:
  "length (''hello'' :: string) = length ''hello'' \<and> (5::nat) \<le> 5"
  by (rule remove_proxy_strings_bounds [of "''hello''" 5]) code_simp

end
