(* ===== verification/Profiles.thy ===== *)
theory Profiles
  imports Settings Utils Strings "HOL-Library.List_Lexorder"
begin

text \<open>
  \<open>profiles.cpp\<close>: the profiles by connection name in a \<open>std::map\<close>, which keeps its keys in
  lexicographic order, and the choice of the profile for a network interface and an access point.
\<close>

section \<open>An ordered table\<close>

text \<open>What the users of a table rely on.\<close>

locale table =
  fixes get :: "'t \<Rightarrow> 'k \<Rightarrow> 'v option" and put :: "'k \<Rightarrow> 'v \<Rightarrow> 't \<Rightarrow> 't" and ok :: "'t \<Rightarrow> bool"
  assumes get_put: "ok t \<Longrightarrow> get (put k v t) k' = (if k' = k then Some v else get t k')"
    and ok_put: "ok t \<Longrightarrow> ok (put k v t)"
begin

lemma ok_fold: "ok t \<Longrightarrow> ok (fold (\<lambda>(k, v). put k v) kvs t)"
  by (induction kvs arbitrary: t) (auto intro: ok_put)

lemma get_fold: "ok t \<Longrightarrow> get (fold (\<lambda>(k, v). put k v) kvs t) k
    = (case map_of (rev kvs) k of None \<Rightarrow> get t k | Some v \<Rightarrow> Some v)"
proof (induction kvs arbitrary: t)
  case (Cons kv kvs)
  obtain a b where kv: "kv = (a, b)" by fastforce
  show ?case using Cons.IH [OF ok_put [OF Cons.prems, of a b]] Cons.prems
    by (auto simp: kv get_put map_add_def split: option.splits)
qed simp

lemma get_from_fold:
  assumes "ok t" "\<And>k v. get t k = Some v \<Longrightarrow> P v" "\<And>k v. (k, v) \<in> set kvs \<Longrightarrow> P v"
    "get (fold (\<lambda>(k, v). put k v) kvs t) k = Some v"
  shows "P v"
proof (cases "map_of (rev kvs) k")
  case None
  then show ?thesis using assms get_fold by auto
next
  case (Some w)
  then have "(k, w) \<in> set kvs" by (auto dest: map_of_SomeD)
  then show ?thesis using assms Some get_fold by auto
qed

end

type_synonym profiles = "(string \<times> Profile_s) list"

fun add_profile :: "string \<Rightarrow> Profile_s \<Rightarrow> profiles \<Rightarrow> profiles" where
  "add_profile name profile [] = [(name, profile)]"
| "add_profile name profile ((k, p) # ps) =
     (if name < k then (name, profile) # (k, p) # ps
      else if name = k then (name, profile) # ps
      else (k, p) # add_profile name profile ps)"

definition profiles_ok :: "profiles \<Rightarrow> bool" where
  "profiles_ok ps = sorted_wrt (<) (map fst ps)"

lemma set_add_profile: "fst ` set (add_profile n p ps) = insert n (fst ` set ps)"
proof -
  have "set (map fst (add_profile n p ps)) = insert n (set (map fst ps))"
    by (induction n p ps rule: add_profile.induct) (auto simp del: set_map)
  then show ?thesis by simp
qed

lemma profiles_ok_add: "profiles_ok ps \<Longrightarrow> profiles_ok (add_profile n p ps)"
proof (induction ps)
  case (Cons kp ps)
  obtain k q where kp: "kp = (k, q)" by fastforce
  have s: "\<forall>x\<in>fst ` set ps. k < x" "profiles_ok ps" using Cons.prems by (auto simp: profiles_ok_def kp)
  have "\<forall>x\<in>fst ` set (add_profile n p ps). k < x" if "\<not> n < k" "n \<noteq> k"
    using that s(1) by (auto simp: set_add_profile)
  then show ?case using Cons s by (auto simp: kp profiles_ok_def)
qed (simp add: profiles_ok_def)

lemma map_of_add_profile:
  assumes "profiles_ok ps"
  shows "map_of (add_profile n p ps) k = (if k = n then Some p else map_of ps k)"
  using assms
proof (induction ps)
  case (Cons kp ps)
  obtain k' q where kp: "kp = (k', q)" by fastforce
  have "n \<notin> fst ` set ps" if "n < k'" using that Cons.prems by (fastforce simp: profiles_ok_def kp)
  then show ?case using Cons by (auto simp: kp profiles_ok_def)
qed simp

interpretation prof: table map_of add_profile profiles_ok
  by unfold_locales (auto simp: map_of_add_profile profiles_ok_add)

section \<open>Choosing a profile\<close>

text \<open>Both strings of a comparison are read up to their first NUL, which the name of a network may hold.\<close>

definition connection_name :: "string \<Rightarrow> string \<Rightarrow> string" where
  "connection_name iface wifi_ap = c_str (iface @ (if wifi_ap = [] then [] else CHR '':'' # wifi_ap))"

text \<open>The result, the profile in force, and the name of the chosen profile (None: not written).\<close>

definition change_profile :: "profiles \<Rightarrow> string \<Rightarrow> string \<Rightarrow> Profile_s \<Rightarrow> int \<times> Profile_s \<times> string option" where
  "change_profile ps iface wifi_ap current =
     (if ps = [] then (0, current, None)
      else case find (\<lambda>(k, p). wildcard_match (c_str k) (connection_name iface wifi_ap)) ps of
        Some (k, p) \<Rightarrow> (0, p, Some k)
      | None \<Rightarrow>
          (case map_of ps ''default'' of
             Some p \<Rightarrow> (0, p, Some ''default'')
           | None \<Rightarrow> (-1, current, None)))"

definition matching :: "profiles \<Rightarrow> string \<Rightarrow> string \<Rightarrow> string set" where
  "matching ps iface wifi_ap = {k \<in> fst ` set ps. wildcard_match (c_str k) (connection_name iface wifi_ap)}"

lemma find_first_match:
  assumes "profiles_ok ps" "matching ps iface wifi \<noteq> {}"
  obtains k p where "find (\<lambda>(k, p). wildcard_match (c_str k) (connection_name iface wifi)) ps = Some (k, p)"
    "k \<in> matching ps iface wifi" "\<forall>k'\<in>matching ps iface wifi. k \<le> k'" "map_of ps k = Some p"
proof (cases "find (\<lambda>(k, p). wildcard_match (c_str k) (connection_name iface wifi)) ps")
  case None
  then show ?thesis using assms(2) by (auto simp: matching_def find_None_iff)
next
  case (Some kp)
  obtain k p where kp: "kp = (k, p)" by fastforce
  from find_Some_iff [THEN iffD1, OF Some]
  obtain i where i0: "i < length ps" "case ps ! i of (k, p) \<Rightarrow> wildcard_match (c_str k) (connection_name iface wifi)"
    "kp = ps ! i" "\<forall>j<i. \<not> (case ps ! j of (k, p) \<Rightarrow> wildcard_match (c_str k) (connection_name iface wifi))"
    by (elim exE conjE)
  have pi: "ps ! i = (k, p)" using i0(3) kp by simp
  have i: "i < length ps" "ps ! i = (k, p)" "wildcard_match (c_str k) (connection_name iface wifi)"
    using i0(1,2) pi by simp_all
  have before: "\<not> wildcard_match (c_str (fst (ps ! j))) (connection_name iface wifi)" if "j < i" for j
    using i0(4) that by (simp add: case_prod_beta)
  have mem: "(k, p) \<in> set ps" using i by (metis nth_mem)
  have s: "sorted_wrt (<) (map fst ps)" using assms(1) by (simp add: profiles_ok_def)
  then have "distinct (map fst ps)" by (simp add: strict_sorted_iff)
  then have m: "map_of ps k = Some p" using mem by simp
  have "k \<le> k'" if g: "k' \<in> matching ps iface wifi" for k'
  proof -
    obtain j where j: "j < length ps" "fst (ps ! j) = k'" using g by (auto simp: matching_def in_set_conv_nth)
    moreover have "wildcard_match (c_str k') (connection_name iface wifi)" using g by (simp add: matching_def)
    ultimately have "\<not> j < i" using before by blast
    show ?thesis
    proof (cases "i = j")
      case True
      then show ?thesis using pi j(2) by simp
    next
      case False
      then have "fst (ps ! i) < fst (ps ! j)"
        using s j(1) \<open>\<not> j < i\<close> by (simp add: sorted_wrt_iff_nth_less)
      then show ?thesis using pi j(2) by simp
    qed
  qed
  moreover have "k \<in> matching ps iface wifi" using mem i(3) by (force simp: matching_def)
  ultimately show ?thesis using that Some m by (simp add: kp)
qed

text \<open>C28: change_profile takes the profile with the smallest name, in the order of the map, whose pattern
  matches the connection; only if none matches, the profile named default; and it fails, leaving the
  profile in force, exactly when there are profiles but neither.\<close>

theorem change_profile_choice:
  assumes "profiles_ok ps" "ps \<noteq> []"
  shows "(matching ps iface wifi \<noteq> {} \<longrightarrow>
      (\<exists>k\<in>matching ps iface wifi. (\<forall>k'\<in>matching ps iface wifi. k \<le> k')
         \<and> change_profile ps iface wifi current = (0, the (map_of ps k), Some k)))
    \<and> (matching ps iface wifi = {} \<longrightarrow> change_profile ps iface wifi current
        = (case map_of ps ''default'' of Some p \<Rightarrow> (0, p, Some ''default'') | None \<Rightarrow> (-1, current, None)))"
proof (cases "matching ps iface wifi = {}")
  case True
  then have "find (\<lambda>(k, p). wildcard_match (c_str k) (connection_name iface wifi)) ps = None"
    by (fastforce simp: find_None_iff matching_def)
  then show ?thesis using True assms(2) by (simp add: change_profile_def split: option.splits)
next
  case False
  obtain k p where "find (\<lambda>(k, p). wildcard_match (c_str k) (connection_name iface wifi)) ps = Some (k, p)"
    "k \<in> matching ps iface wifi" "\<forall>k'\<in>matching ps iface wifi. k \<le> k'" "map_of ps k = Some p"
    by (rule find_first_match [OF assms(1) False])
  then show ?thesis using False assms(2) by (auto simp: change_profile_def)
qed

definition sample_profiles :: profiles where
  "sample_profiles = [(''default'', default_Profile), (''wlan*'', default_Profile\<lparr>doh := True\<rparr>)]"

lemma change_profile_choice_witness:
  "\<exists>k\<in>matching sample_profiles ''wlan0'' [].
     change_profile sample_profiles ''wlan0'' [] default_Profile = (0, the (map_of sample_profiles k), Some k)"
proof -
  have "profiles_ok sample_profiles" "sample_profiles \<noteq> []" by (simp_all add: profiles_ok_def sample_profiles_def)
  note choice = change_profile_choice [OF this, of "''wlan0''" "[]" default_Profile]
  have "wildcard_match (c_str ''wlan*'') (connection_name ''wlan0'' [])" by code_simp
  then have "matching sample_profiles ''wlan0'' [] \<noteq> {}" by (auto simp: matching_def sample_profiles_def)
  then show ?thesis using choice by blast
qed

end
