(* ===== verification/Cmdline.thy ===== *)
theory Cmdline
  imports Profiles Strings
begin

text \<open>
  \<open>parse_cmdline\<close> of \<open>dpitunnel-cli.cpp\<close>. What \<open>getopt_long_only\<close> delivers is the input: the index
  of the option in the table and its argument, or an unknown option. The state is what the function
  writes: the process settings, the profile under construction with its name, the table of profiles
  and the profile in force. A store to a narrower integer keeps the low bits, before the range check.
\<close>

datatype getopt = Opt nat string | Unknown

record cmd_state =
  settings :: Settings_perst_s
  cur_name :: string
  profile :: Profile_s
  profiles :: profiles
  active :: Profile_s

text \<open>The value of \<open>parse_cmdline\<close>, or the next state. \<open>Auto_conf\<close> is the call of \<open>run_autoconf\<close>,
  with the settings at that moment.\<close>

datatype cmd_result = Next cmd_state | Reject | Auto_conf Settings_perst_s

definition set_profile :: "(Profile_s \<Rightarrow> Profile_s) \<Rightarrow> cmd_state \<Rightarrow> cmd_result" where
  "set_profile f st = Next (st\<lparr>profile := f (profile st)\<rparr>)"

definition set_settings :: "(Settings_perst_s \<Rightarrow> Settings_perst_s) \<Rightarrow> cmd_state \<Rightarrow> cmd_result" where
  "set_settings f st = Next (st\<lparr>settings := f (settings st)\<rparr>)"

definition checked :: "bool \<Rightarrow> cmd_result \<Rightarrow> cmd_result" where
  "checked ok r = (if ok then r else Reject)"

text \<open>One name of \<open>--desync-attacks\<close>.\<close>

definition attack_name :: "string \<Rightarrow> Profile_s \<Rightarrow> Profile_s option" where
  "attack_name p P =
     (if Some p = ZERO_ATTACKS_NAMES DESYNC_ZERO_FAKE then Some (P\<lparr>desync_zero_attack := DESYNC_ZERO_FAKE\<rparr>)
      else if Some p = ZERO_ATTACKS_NAMES DESYNC_ZERO_RST then Some (P\<lparr>desync_zero_attack := DESYNC_ZERO_RST\<rparr>)
      else if Some p = ZERO_ATTACKS_NAMES DESYNC_ZERO_RSTACK then Some (P\<lparr>desync_zero_attack := DESYNC_ZERO_RSTACK\<rparr>)
      else if Some p = FIRST_ATTACKS_NAMES DESYNC_FIRST_DISORDER then Some (P\<lparr>desync_first_attack := DESYNC_FIRST_DISORDER\<rparr>)
      else if Some p = FIRST_ATTACKS_NAMES DESYNC_FIRST_DISORDER_FAKE then Some (P\<lparr>desync_first_attack := DESYNC_FIRST_DISORDER_FAKE\<rparr>)
      else if Some p = FIRST_ATTACKS_NAMES DESYNC_FIRST_SPLIT then Some (P\<lparr>desync_first_attack := DESYNC_FIRST_SPLIT\<rparr>)
      else if Some p = FIRST_ATTACKS_NAMES DESYNC_FIRST_SPLIT_FAKE then Some (P\<lparr>desync_first_attack := DESYNC_FIRST_SPLIT_FAKE\<rparr>)
      else None)"

fun attack_names :: "string list \<Rightarrow> Profile_s \<Rightarrow> Profile_s option" where
  "attack_names [] P = Some P"
| "attack_names (p # ps) P = (case attack_name p P of None \<Rightarrow> None | Some P' \<Rightarrow> attack_names ps P')"

text \<open>\<open>strtok(..., "-")\<close>: the nonempty parts; the first three set the fields.\<close>

definition auto_ttl_parts :: "string \<Rightarrow> string list" where
  "auto_ttl_parts s = filter (\<lambda>p. p \<noteq> []) (split_on (CHR ''-'') [] s)"

definition set_auto_ttl :: "string list \<Rightarrow> Profile_s \<Rightarrow> Profile_s" where
  "set_auto_ttl parts P =
     (let num = (\<lambda>i. word_of_int (atoi (parts ! i)) :: u16);
          P1 = (if 0 < length parts then P\<lparr>auto_ttl_a1 := num 0\<rparr> else P);
          P2 = (if 1 < length parts then P1\<lparr>auto_ttl_a2 := num 1\<rparr> else P1)
      in if 2 < length parts then P2\<lparr>auto_ttl_max := num 2\<rparr> else P2)"

definition set_desync :: "string \<Rightarrow> cmd_state \<Rightarrow> cmd_result" where
  "set_desync optarg st =
     (case attack_names (split_on (CHR '','') [] optarg) ((profile st)\<lparr>desync_attacks := True\<rparr>) of
        None \<Rightarrow> Reject
      | Some P \<Rightarrow> Next (st\<lparr>profile := P\<rparr>))"

definition set_auto :: "string \<Rightarrow> cmd_state \<Rightarrow> cmd_result" where
  "set_auto optarg st =
     (let parts = auto_ttl_parts optarg;
          P = set_auto_ttl parts ((profile st)\<lparr>auto_ttl := True\<rparr>)
      in if length parts \<noteq> 3 then Reject
         else Next (st\<lparr>profile := (if min_ttl P = 0 then P\<lparr>min_ttl := 3\<rparr> else P)\<rparr>))"

definition new_profile :: "string \<Rightarrow> cmd_state \<Rightarrow> cmd_result" where
  "new_profile optarg st =
     Next (st\<lparr>profiles := (if cur_name st \<noteq> [] then add_profile (cur_name st) (profile st) (profiles st)
                            else profiles st),
              cur_name := optarg, profile := default_Profile\<rparr>)"

text \<open>The range checks on the stored values.\<close>

definition u16_in :: "nat \<Rightarrow> nat \<Rightarrow> u16 \<Rightarrow> bool" where
  "u16_in lo hi w = (lo \<le> unat w \<and> unat w \<le> hi)"

text \<open>The options 14 to 25, then 0 to 13.\<close>

definition more_options :: "nat \<Rightarrow> string \<Rightarrow> cmd_state \<Rightarrow> cmd_result" where
  "more_options opt_id optarg st =
     (let n = atoi optarg; w16 = (word_of_int n :: u16) in
      if opt_id = 14 then checked (0 \<le> sint w16 \<and> sint w16 \<le> 14) (set_profile (\<lambda>P. P\<lparr>window_scale_factor := w16\<rparr>) st)
      else if opt_id = 15 then new_profile optarg st
      else if opt_id = 16 then set_profile (\<lambda>P. P\<lparr>builtin_dns := True\<rparr>) st
      else if opt_id = 17 then set_profile (\<lambda>P. P\<lparr>builtin_dns_ip := optarg\<rparr>) st
      else if opt_id = 18 then checked (1 \<le> n \<and> n \<le> 65535) (set_profile (\<lambda>P. P\<lparr>builtin_dns_port := n\<rparr>) st)
      else if opt_id = 19 then set_settings (\<lambda>s. s\<lparr>pid_file := optarg\<rparr>) st
      else if opt_id = 20 then checked (u16_in 1 255 w16) (set_profile (\<lambda>P. P\<lparr>min_ttl := w16\<rparr>) st)
      else if opt_id = 21 then set_auto optarg st
      else if opt_id = 22 then set_profile (\<lambda>P. P\<lparr>wrong_seq := True\<rparr>) st
      else if opt_id = 23 then
        (if optarg = PROXY_MODE_NAMES MODE_PROXY then set_settings (\<lambda>s. s\<lparr>proxy_mode := MODE_PROXY\<rparr>) st
         else if optarg = PROXY_MODE_NAMES MODE_TRANSPARENT then set_settings (\<lambda>s. s\<lparr>proxy_mode := MODE_TRANSPARENT\<rparr>) st
         else Reject)
      else if opt_id = 24 then set_settings (\<lambda>s. s\<lparr>whitelist_path := optarg\<rparr>) st
      else if opt_id = 25 then set_settings (\<lambda>s. s\<lparr>custom_ips_path := optarg\<rparr>) st
      else Next st)"

definition option_step :: "nat \<Rightarrow> string \<Rightarrow> cmd_state \<Rightarrow> cmd_result" where
  "option_step opt_id optarg st =
     (let n = atoi optarg; w16 = (word_of_int n :: u16); w32 = (word_of_int n :: u32) in
      if opt_id = 0 then set_settings (\<lambda>s. s\<lparr>server_address := optarg\<rparr>) st
      else if opt_id = 1 then checked (1 \<le> n \<and> n \<le> 65535) (set_settings (\<lambda>s. s\<lparr>server_port := n\<rparr>) st)
      else if opt_id = 2 then checked (128 \<le> unat w32 \<and> unat w32 \<le> 65535) (set_profile (\<lambda>P. P\<lparr>buffer_size := w32\<rparr>) st)
      else if opt_id = 3 then checked (unat w32 \<le> 65535) (set_profile (\<lambda>P. P\<lparr>split_position := w32\<rparr>) st)
      else if opt_id = 4 then checked (u16_in 1 255 w16) (set_profile (\<lambda>P. P\<lparr>fake_packets_ttl := w16\<rparr>) st)
      else if opt_id = 5 then set_profile (\<lambda>P. P\<lparr>doh := True\<rparr>) st
      else if opt_id = 6 then set_profile (\<lambda>P. P\<lparr>doh_server := optarg\<rparr>) st
      else if opt_id = 7 then set_settings (\<lambda>s. s\<lparr>ca_bundle_path := optarg\<rparr>) st
      else if opt_id = 8 then set_profile (\<lambda>P. P\<lparr>split_at_sni := True\<rparr>) st
      else if opt_id = 9 then set_desync optarg st
      else if opt_id = 10 then Auto_conf (settings st)
      else if opt_id = 11 then Reject
      else if opt_id = 12 then set_settings (\<lambda>s. s\<lparr>daemon := True\<rparr>) st
      else if opt_id = 13 then checked (u16_in 1 65535 w16) (set_profile (\<lambda>P. P\<lparr>window_size := w16\<rparr>) st)
      else more_options opt_id optarg st)"

fun option_loop :: "getopt list \<Rightarrow> cmd_state \<Rightarrow> cmd_result" where
  "option_loop [] st =
     Next (if cur_name st \<noteq> [] then st\<lparr>profiles := add_profile (cur_name st) (profile st) (profiles st)\<rparr>
           else st\<lparr>active := profile st\<rparr>)"
| "option_loop (Unknown # opts) st = Reject"
| "option_loop (Opt opt_id optarg # opts) st =
     (case option_step opt_id optarg st of Next st' \<Rightarrow> option_loop opts st' | r \<Rightarrow> r)"

definition initial_cmd_state :: cmd_state where
  "initial_cmd_state = \<lparr>settings = default_Settings, cur_name = [], profile = default_Profile,
     profiles = [], active = default_Profile\<rparr>"

definition parse_cmdline :: "getopt list \<Rightarrow> cmd_result" where
  "parse_cmdline opts = option_loop opts initial_cmd_state"

section \<open>What is accepted\<close>

definition valid_profile :: "Profile_s \<Rightarrow> bool" where
  "valid_profile P \<longleftrightarrow> 128 \<le> unat (buffer_size P) \<and> unat (buffer_size P) \<le> 65535
     \<and> unat (split_position P) \<le> 65535 \<and> unat (fake_packets_ttl P) \<le> 255
     \<and> -1 \<le> sint (window_scale_factor P) \<and> sint (window_scale_factor P) \<le> 14
     \<and> unat (min_ttl P) \<le> 255 \<and> 1 \<le> builtin_dns_port P \<and> builtin_dns_port P \<le> 65535
     \<and> (auto_ttl P \<longrightarrow> 0 < unat (min_ttl P)) \<and> (desync_attacks P = False \<longrightarrow>
          desync_zero_attack P = DESYNC_ZERO_NONE \<and> desync_first_attack P = DESYNC_FIRST_NONE)"

definition valid_cmd_state :: "cmd_state \<Rightarrow> bool" where
  "valid_cmd_state st \<longleftrightarrow> valid_profile (profile st) \<and> valid_profile (active st)
     \<and> profiles_ok (profiles st) \<and> (\<forall>P\<in>ran (map_of (profiles st)). valid_profile P)
     \<and> 1 \<le> server_port (settings st) \<and> server_port (settings st) \<le> 65535"

lemma valid_default: "valid_profile default_Profile"
  by (simp add: valid_profile_def default_Profile_def)

lemma valid_add:
  assumes "profiles_ok ps" "\<forall>P\<in>ran (map_of ps). valid_profile P" "valid_profile P"
  shows "profiles_ok (add_profile n P ps) \<and> (\<forall>P\<in>ran (map_of (add_profile n P ps)). valid_profile P)"
  using assms by (auto simp: prof.ok_put ran_def prof.get_put split: if_splits)

lemma attack_names_valid:
  "attack_names ns P = Some P' \<Longrightarrow> desync_attacks P \<Longrightarrow> valid_profile P \<Longrightarrow> valid_profile P'"
proof (induction ns arbitrary: P)
  case (Cons n ns)
  obtain Q where Q: "attack_name n P = Some Q" "attack_names ns Q = Some P'"
    using Cons.prems(1) by (auto split: option.splits)
  then have "desync_attacks Q \<and> valid_profile Q" using Cons.prems(2,3)
    by (auto simp: attack_name_def valid_profile_def split: if_splits)
  then show ?case using Cons.IH Q(2) by blast
qed simp

definition keeps_valid :: "cmd_result \<Rightarrow> bool" where
  "keeps_valid r = (case r of Next st \<Rightarrow> valid_cmd_state st | _ \<Rightarrow> True)"

lemma keeps_valid_intros:
  "valid_cmd_state st \<Longrightarrow> valid_profile (f (profile st)) \<Longrightarrow> keeps_valid (set_profile f st)"
  "valid_cmd_state st \<Longrightarrow> 1 \<le> server_port (g (settings st)) \<and> server_port (g (settings st)) \<le> 65535 \<Longrightarrow> keeps_valid (set_settings g st)"
  "(ok \<Longrightarrow> keeps_valid r) \<Longrightarrow> keeps_valid (checked ok r)"
  "keeps_valid Reject" "keeps_valid (Auto_conf S)" "valid_cmd_state st \<Longrightarrow> keeps_valid (Next st)"
  by (auto simp: keeps_valid_def set_profile_def set_settings_def checked_def valid_cmd_state_def)

lemma set_auto_ttl_fields:
  "buffer_size (set_auto_ttl ps P) = buffer_size P" "split_position (set_auto_ttl ps P) = split_position P"
  "fake_packets_ttl (set_auto_ttl ps P) = fake_packets_ttl P"
  "window_scale_factor (set_auto_ttl ps P) = window_scale_factor P" "min_ttl (set_auto_ttl ps P) = min_ttl P"
  "builtin_dns_port (set_auto_ttl ps P) = builtin_dns_port P" "auto_ttl (set_auto_ttl ps P) = auto_ttl P"
  "desync_attacks (set_auto_ttl ps P) = desync_attacks P" "desync_zero_attack (set_auto_ttl ps P) = desync_zero_attack P"
  "desync_first_attack (set_auto_ttl ps P) = desync_first_attack P"
  by (simp_all add: set_auto_ttl_def Let_def)

lemma set_auto_valid:
  assumes "valid_cmd_state st"
  shows "keeps_valid (set_auto a st)"
proof -
  have v: "valid_profile (profile st)" using assms by (simp add: valid_cmd_state_def)
  let ?P = "set_auto_ttl (auto_ttl_parts a) ((profile st)\<lparr>auto_ttl := True\<rparr>)"
  have "unat w \<noteq> 0 \<longleftrightarrow> w \<noteq> 0" for w :: u16 by (simp add: unat_eq_zero)
  then have "valid_profile (if min_ttl ?P = 0 then ?P\<lparr>min_ttl := 3\<rparr> else ?P)"
    using v by (simp add: valid_profile_def set_auto_ttl_fields)
  then show ?thesis using assms by (simp add: set_auto_def keeps_valid_def Let_def valid_cmd_state_def)
qed

lemma set_desync_valid:
  assumes "valid_cmd_state st"
  shows "keeps_valid (set_desync a st)"
proof -
  have "valid_profile ((profile st)\<lparr>desync_attacks := True\<rparr>)"
    using assms by (auto simp: valid_cmd_state_def valid_profile_def)
  then show ?thesis using assms attack_names_valid [of "split_on (CHR '','') [] a" "(profile st)\<lparr>desync_attacks := True\<rparr>"]
    by (auto simp: set_desync_def keeps_valid_def valid_cmd_state_def split: option.splits)
qed

lemma new_profile_valid: "valid_cmd_state st \<Longrightarrow> keeps_valid (new_profile a st)"
  using valid_add [of "profiles st" "profile st" "cur_name st"] valid_default
  by (auto simp: keeps_valid_def new_profile_def valid_cmd_state_def)

lemma keeps_valid_if: "(b \<Longrightarrow> keeps_valid x) \<Longrightarrow> (\<not> b \<Longrightarrow> keeps_valid y) \<Longrightarrow> keeps_valid (if b then x else y)"
  by simp

lemma valid_profile_updates:
  assumes "valid_profile P"
  shows "128 \<le> unat w \<Longrightarrow> unat w \<le> 65535 \<Longrightarrow> valid_profile (P\<lparr>buffer_size := w\<rparr>)"
    "unat w \<le> 65535 \<Longrightarrow> valid_profile (P\<lparr>split_position := w\<rparr>)"
    "u16_in 1 255 v \<Longrightarrow> valid_profile (P\<lparr>fake_packets_ttl := v\<rparr>)"
    "u16_in 1 255 v \<Longrightarrow> valid_profile (P\<lparr>min_ttl := v\<rparr>)"
    "0 \<le> sint v \<Longrightarrow> sint v \<le> 14 \<Longrightarrow> valid_profile (P\<lparr>window_scale_factor := v\<rparr>)"
    "1 \<le> n \<Longrightarrow> n \<le> 65535 \<Longrightarrow> valid_profile (P\<lparr>builtin_dns_port := n\<rparr>)"
    "valid_profile (P\<lparr>doh := b\<rparr>)" "valid_profile (P\<lparr>doh_server := t\<rparr>)" "valid_profile (P\<lparr>split_at_sni := b\<rparr>)"
    "valid_profile (P\<lparr>window_size := v\<rparr>)" "valid_profile (P\<lparr>builtin_dns := b\<rparr>)"
    "valid_profile (P\<lparr>builtin_dns_ip := t\<rparr>)" "valid_profile (P\<lparr>wrong_seq := b\<rparr>)"
  using assms by (simp_all add: valid_profile_def u16_in_def)

lemma option_step_valid:
  assumes st: "valid_cmd_state st"
  shows "keeps_valid (option_step i a st)"
proof -
  have v: "valid_profile (profile st)" and s: "1 \<le> server_port (settings st) \<and> server_port (settings st) \<le> 65535"
    using st by (simp_all add: valid_cmd_state_def)
  show ?thesis
    unfolding option_step_def more_options_def Let_def
    by (intro keeps_valid_if; (rule set_auto_valid [OF st] set_desync_valid [OF st] new_profile_valid [OF st]
          keeps_valid_intros(4,5) keeps_valid_intros(6) [OF st])?;
        (intro keeps_valid_intros(3))?; (rule keeps_valid_intros(1) [OF st] keeps_valid_intros(2) [OF st]);
        (intro valid_profile_updates v)?; (use s in simp)?)
qed

lemma option_loop_valid: "valid_cmd_state st \<Longrightarrow> keeps_valid (option_loop opts st)"
proof (induction opts st rule: option_loop.induct)
  case (1 st)
  then show ?case using valid_add [of "profiles st" "profile st" "cur_name st"]
    by (auto simp: keeps_valid_def valid_cmd_state_def)
next
  case (2 opts st)
  then show ?case by (simp add: keeps_valid_def)
next
  case (3 i a opts st)
  then show ?case using option_step_valid [OF 3(2), of i a]
    by (auto simp: keeps_valid_def split: cmd_result.splits)
qed

lemma initial_valid: "valid_cmd_state initial_cmd_state"
  by (simp add: valid_cmd_state_def initial_cmd_state_def valid_default profiles_ok_def default_Settings_def)

text \<open>C14: Every configuration that \<open>parse_cmdline\<close> accepts is within its ranges: buffer size 128 to 65535,
  TTL and minimal TTL at most 255, window scale -1 to 14, ports 1 to 65535, a minimal TTL set when the
  automatic TTL is on, no desync attack without the desync flag; the table of profiles is sorted, and
  this holds of the profile in force and of every profile of the table.\<close>

theorem parse_cmdline_valid:
  assumes "parse_cmdline opts = Next st"
  shows "valid_cmd_state st"
  using option_loop_valid [OF initial_valid, of opts] assms by (simp add: parse_cmdline_def keeps_valid_def)

lemma parse_cmdline_valid_witness:
  "valid_cmd_state (initial_cmd_state\<lparr>cur_name := ''wlan0'', profiles := [(''wlan0'', default_Profile\<lparr>doh := True\<rparr>)], profile := default_Profile\<lparr>doh := True\<rparr>\<rparr>)"
  by (rule parse_cmdline_valid [of "[Opt 15 ''wlan0'', Opt 5 []]"])
    (simp add: parse_cmdline_def initial_cmd_state_def option_step_def more_options_def new_profile_def set_profile_def)

text \<open>The TTL is narrowed to 16 bits before its range is checked: \<open>--ttl\<close> with 65536 + n is accepted
  for every n from 1 to 255, and stands for n.\<close>

theorem ttl_wraps:
  assumes "atoi a = 65536 + n" "1 \<le> n" "n \<le> 255"
  shows "option_step 4 a st = Next (st\<lparr>profile := (profile st)\<lparr>fake_packets_ttl := word_of_int n\<rparr>\<rparr>)"
proof -
  have w: "(word_of_int (65536 + n) :: u16) = word_of_int n"
    by (simp add: word_of_int_eq_iff take_bit_eq_mod del: of_int_add)
  have "u16_in 1 255 (word_of_int n)"
    using assms(2,3) by (simp add: u16_in_def unsigned_of_int take_bit_int_eq_self nat_le_iff)
  then show ?thesis unfolding option_step_def Let_def assms(1) w
    by (simp add: checked_def set_profile_def)
qed

lemma ttl_wraps_witness: "option_step 4 ''65537'' initial_cmd_state
   = Next (initial_cmd_state\<lparr>profile := (profile initial_cmd_state)\<lparr>fake_packets_ttl := word_of_int 1\<rparr>\<rparr>)"
proof (rule ttl_wraps)
  show "atoi ''65537'' = 65536 + 1" by code_simp
qed simp_all

text \<open>What the options before the first \<open>--profile\<close> set in the profile is lost: the option starts from the
  default profile and stores nothing, so the rest of the command line runs as if they had not been given.\<close>

theorem early_options_lost:
  assumes "cur_name st = []" "n \<noteq> []"
  shows "option_loop (Opt 15 n # opts) st = option_loop opts (st\<lparr>cur_name := n, profile := default_Profile\<rparr>)"
  using assms by (simp add: option_step_def more_options_def new_profile_def)

lemma early_options_lost_witness:
  "option_loop [Opt 15 ''wlan0''] (initial_cmd_state\<lparr>profile := default_Profile\<lparr>doh := True\<rparr>\<rparr>)
   = option_loop [] (initial_cmd_state\<lparr>profile := default_Profile\<lparr>doh := True\<rparr>, cur_name := ''wlan0'', profile := default_Profile\<rparr>)"
  using early_options_lost [of "initial_cmd_state\<lparr>profile := default_Profile\<lparr>doh := True\<rparr>\<rparr>" "''wlan0''" "[]"]
  by (simp add: initial_cmd_state_def)

end
