(* ===== verification/Dnsbuf.thy ===== *)
theory Dnsbuf
  imports Prelude
begin

text \<open>
  \<open>dnslib/buffer.cpp\<close>: the cursor over the bytes of a DNS message. A \<open>dns::Exception\<close> is a value,
  and an access outside of an array is one too; the arithmetic of the bounds check is that of
  \<open>unsigned int\<close>. The reader of domain names follows compression links and is shown to end, the
  writer looks for the tail of a name in what is already written.
\<close>

record buffer =
  mBuffer :: bytes
  mBufferPtr :: nat
  mLinkPos :: "nat list"

datatype dns_stop = Exception | Bad_access

type_synonym 'a buf = "buffer \<Rightarrow> dns_stop + 'a \<times> buffer"

definition yield :: "'a \<Rightarrow> 'a buf" where
  "yield x = (\<lambda>b. Inr (x, b))"

definition follow :: "'a buf \<Rightarrow> ('a \<Rightarrow> 'c buf) \<Rightarrow> 'c buf" where
  "follow m f = (\<lambda>b. case m b of Inl e \<Rightarrow> Inl e | Inr (x, b') \<Rightarrow> f x b')"

definition new_buffer :: "bytes \<Rightarrow> buffer" where
  "new_buffer d = \<lparr>mBuffer = d, mBufferPtr = 0, mLinkPos = []\<rparr>"

section \<open>Bytes and numbers\<close>

definition checkAvailableSpace :: "u32 \<Rightarrow> unit buf" where
  "checkAvailableSpace k b =
     (if (word_of_nat (length (mBuffer b)) :: u32) < word_of_nat (mBufferPtr b) + k then Inl Exception
      else Inr ((), b))"

definition getBytes :: "u32 \<Rightarrow> bytes buf" where
  "getBytes k = follow (checkAvailableSpace k) (\<lambda>_ b.
     if mBufferPtr b + unat k \<le> length (mBuffer b)
     then Inr (take (unat k) (drop (mBufferPtr b) (mBuffer b)), b\<lparr>mBufferPtr := mBufferPtr b + unat k\<rparr>)
     else Inl Bad_access)"

definition store :: "bytes \<Rightarrow> unit buf" where
  "store d = follow (checkAvailableSpace (word_of_nat (length d))) (\<lambda>_ b.
     if mBufferPtr b + length d \<le> length (mBuffer b)
     then Inr ((), b\<lparr>mBuffer := take (mBufferPtr b) (mBuffer b) @ d @ drop (mBufferPtr b + length d) (mBuffer b),
                     mBufferPtr := mBufferPtr b + length d\<rparr>)
     else Inl Bad_access)"

definition putBytes :: "bytes \<Rightarrow> unit buf" where
  "putBytes d = (if d = [] then yield () else store d)"

definition get8bits :: "u8 buf" where
  "get8bits = follow (getBytes 1) (\<lambda>d. yield (d ! 0))"

definition put8bits :: "u8 \<Rightarrow> unit buf" where
  "put8bits v = store [v AND 0xFF]"

definition get16bits :: "u32 buf" where
  "get16bits = follow (getBytes 2) (\<lambda>d. yield (push_bit 8 (ucast (d ! 0)) + ucast (d ! 1)))"

definition put16bits :: "u32 \<Rightarrow> unit buf" where
  "put16bits v = store [ucast (drop_bit 8 (v AND 0xFF00)), ucast (v AND 0xFF)]"

definition get32bits :: "u32 buf" where
  "get32bits = follow (getBytes 4) (\<lambda>d. yield (push_bit 24 (ucast (d ! 0)) + push_bit 16 (ucast (d ! 1))
     + push_bit 8 (ucast (d ! 2)) + ucast (d ! 3)))"

definition put32bits :: "u32 \<Rightarrow> unit buf" where
  "put32bits v = store [ucast (drop_bit 24 (v AND 0xFF000000)), ucast (drop_bit 16 (v AND 0x00FF0000)),
     ucast (drop_bit 8 (v AND 0x0000FF00)), ucast (v AND 0x000000FF)]"

definition setPos :: "nat \<Rightarrow> unit buf" where
  "setPos p b = (if length (mBuffer b) \<le> p then Inl Exception else Inr ((), b\<lparr>mBufferPtr := p\<rparr>))"

definition getPos :: "nat buf" where
  "getPos b = Inr (mBufferPtr b, b)"

definition getDnsCharacterString :: "bytes buf" where
  "getDnsCharacterString = follow get8bits (\<lambda>n. if 0 < n then getBytes (ucast n) else yield [])"

definition putDnsCharacterString :: "bytes \<Rightarrow> unit buf" where
  "putDnsCharacterString s = follow (put8bits (word_of_nat (length s))) (\<lambda>_. putBytes s)"

section \<open>Reading a domain name\<close>

definition MAX_LABEL_LEN :: nat where "MAX_LABEL_LEN = 63"
definition MAX_DOMAIN_LEN :: nat where "MAX_DOMAIN_LEN = 255"

definition dot_append :: "bytes \<Rightarrow> bytes \<Rightarrow> bytes" where
  "dot_append domain l = (if domain = [] then l else domain @ 46 # l)"

definition link_addr :: "u8 \<Rightarrow> u8 \<Rightarrow> nat" where
  "link_addr c1 c2 = unat (push_bit 8 (ucast (c1 AND 63)) + ucast c2 :: u32)"

text \<open>What is left of \<open>getDnsDomainName\<close> after its loop.\<close>

definition finish_name :: "bytes buf \<Rightarrow> bytes buf" where
  "finish_name m = follow m (\<lambda>domain b.
     if MAX_DOMAIN_LEN < length domain then Inl Exception
     else Inr (domain, b\<lparr>mLinkPos := butlast (mLinkPos b)\<rparr>))"

lemma follow_cong [fundef_cong]:
  "m b = m' b' \<Longrightarrow> (\<And>x c. m' b' = Inr (x, c) \<Longrightarrow> f x c = f' x c) \<Longrightarrow> follow m f b = follow m' f' b'"
  by (auto simp: follow_def split: sum.splits)

lemma finish_name_cong [fundef_cong]: "m b = m' b' \<Longrightarrow> finish_name m b = finish_name m' b'"
  unfolding finish_name_def by (rule follow_cong) auto

section \<open>Reading moves the cursor only\<close>

lemma follow_Inr:
  "follow m f b = Inr r \<longleftrightarrow> (\<exists>x b'. m b = Inr (x, b') \<and> f x b' = Inr r)"
  by (auto simp: follow_def split: sum.splits)

lemma follow_Inl:
  "follow m f b = Inl e \<longleftrightarrow> m b = Inl e \<or> (\<exists>x b'. m b = Inr (x, b') \<and> f x b' = Inl e)"
  by (auto simp: follow_def split: sum.splits)

lemma follow_step [simp]:
  "m b = Inr (x, b') \<Longrightarrow> follow m f b = f x b'" "m b = Inl e \<Longrightarrow> follow m f b = Inl e"
  "follow (yield x) f b = f x b"
  by (simp_all add: follow_def yield_def)

lemma getBytes_Inr:
  "getBytes k b = Inr (d, b') \<Longrightarrow> mBufferPtr b + unat k \<le> length (mBuffer b)
     \<and> d = take (unat k) (drop (mBufferPtr b) (mBuffer b)) \<and> b' = b\<lparr>mBufferPtr := mBufferPtr b + unat k\<rparr>"
  by (auto simp: getBytes_def follow_Inr checkAvailableSpace_def split: if_splits)

lemma get8bits_Inr:
  "get8bits b = Inr (c, b') \<Longrightarrow> mBufferPtr b < length (mBuffer b) \<and> c = mBuffer b ! mBufferPtr b
     \<and> b' = b\<lparr>mBufferPtr := Suc (mBufferPtr b)\<rparr>"
  unfolding get8bits_def follow_Inr by (auto simp: yield_def dest!: getBytes_Inr)

lemma setPos_Inr: "setPos p b = Inr (u, b') \<Longrightarrow> p < length (mBuffer b) \<and> b' = b\<lparr>mBufferPtr := p\<rparr>"
  by (auto simp: setPos_def split: if_splits)

text \<open>Each link remembers the position it was followed from, so the number of free positions
  goes down with each link, and the loop moves forward in between.\<close>

definition free_pos :: "buffer \<Rightarrow> nat" where
  "free_pos b = card ({..length (mBuffer b)} - set (mLinkPos b))"

definition name_rank :: "bool \<Rightarrow> buffer \<Rightarrow> nat" where
  "name_rank entering b =
     (if length (mBuffer b) < mBufferPtr b then (if entering then 1 else 0)
      else if entering then 2 * free_pos b + 2 else 2 * free_pos b + 3)"

lemma free_pos_push:
  assumes "\<not> length (mBuffer b) < mBufferPtr b" "mBufferPtr b \<notin> set (mLinkPos b)"
  shows "free_pos (b\<lparr>mLinkPos := mLinkPos b @ [mBufferPtr b]\<rparr>) < free_pos b"
proof -
  let ?S = "{..length (mBuffer b)} - set (mLinkPos b)"
  have "mBufferPtr b \<in> ?S" using assms by simp
  then have "card (?S - {mBufferPtr b}) < card ?S" by (intro card_Diff1_less) auto
  moreover have "{..length (mBuffer b)} - set (mLinkPos b @ [mBufferPtr b]) = ?S - {mBufferPtr b}" by simp blast
  ultimately show ?thesis unfolding free_pos_def by (simp del: set_append)
qed

lemma free_pos_ptr [simp]: "free_pos (b\<lparr>mBufferPtr := p\<rparr>) = free_pos b"
  by (simp add: free_pos_def)

lemma unat_small: "0 < unat c \<longleftrightarrow> c \<noteq> (0 :: u8)"
  by (metis neq0_conv unat_0 unsigned_eq_0_iff)

section \<open>\<open>getDnsDomainName\<close>\<close>

function getDnsDomainName :: "bool \<Rightarrow> buffer \<Rightarrow> dns_stop + bytes \<times> buffer"
  and name_loop :: "bool \<Rightarrow> bytes \<Rightarrow> buffer \<Rightarrow> dns_stop + bytes \<times> buffer" where
  "getDnsDomainName compressionAllowed b =
     (if mBufferPtr b \<in> set (mLinkPos b) then Inl Exception
      else finish_name (name_loop compressionAllowed []) (b\<lparr>mLinkPos := mLinkPos b @ [mBufferPtr b]\<rparr>))"
| "name_loop compressionAllowed domain b = follow get8bits (\<lambda>ctrlCode b1.
     if ctrlCode = 0 then Inr (domain, b1)
     else if drop_bit 6 ctrlCode = 3 then
       (if \<not> compressionAllowed then Inl Exception
        else follow get8bits (\<lambda>ctrlCode2 b2.
          follow (setPos (link_addr ctrlCode ctrlCode2)) (\<lambda>_ b3.
          follow (getDnsDomainName True) (\<lambda>linkDomain b4.
          follow (setPos (mBufferPtr b2)) (\<lambda>_ b5.
            Inr (dot_append domain linkDomain, b5)) b4) b3) b2) b1)
     else if MAX_LABEL_LEN < unat ctrlCode then Inl Exception
     else follow (getBytes (ucast ctrlCode)) (\<lambda>l b2.
       name_loop compressionAllowed (dot_append domain l) b2) b1) b"
  by pat_completeness auto

termination
  by (relation "measures [\<lambda>x. case x of Inl (_, b) \<Rightarrow> name_rank True b | Inr (_, _, b) \<Rightarrow> name_rank False b,
       \<lambda>x. case x of Inl _ \<Rightarrow> 0 | Inr (_, _, b) \<Rightarrow> length (mBuffer b) - mBufferPtr b]")
    (auto simp: name_rank_def unat_small dest!: get8bits_Inr setPos_Inr getBytes_Inr dest: free_pos_push)

declare getDnsDomainName.simps [simp del] name_loop.simps [simp del]

section \<open>Writing a domain name\<close>

text \<open>
  The first loop of \<open>putDnsDomainName\<close>: the labels, each behind its length, into the array
  \<open>domain\<close> of 256 bytes; \<open>idx\<close> is \<open>domainLabelIndexes\<close>. The last argument is what is left of the value.
\<close>

fun label_loop :: "nat \<Rightarrow> nat \<Rightarrow> nat \<Rightarrow> bytes \<Rightarrow> nat list \<Rightarrow> bytes \<Rightarrow> dns_stop + bytes \<times> nat list \<times> nat" where
  "label_loop labelLen labelLenPos domainPos domain idx [] =
     (if MAX_LABEL_LEN < labelLen then Inl Exception
      else if length domain \<le> domainPos then Inl Bad_access
      else Inr (domain[labelLenPos := word_of_nat labelLen, domainPos := 0], idx @ [labelLenPos], domainPos + 1))"
| "label_loop labelLen labelLenPos domainPos domain idx (c # cs) =
     (if c = 46 then
        (if MAX_LABEL_LEN < labelLen then Inl Exception
         else if cs = [] then Inr (domain[labelLenPos := word_of_nat labelLen], idx @ [labelLenPos], domainPos)
         else label_loop 0 domainPos (domainPos + 1) (domain[labelLenPos := word_of_nat labelLen]) (idx @ [labelLenPos]) cs)
      else if length domain \<le> domainPos then Inl Bad_access
      else label_loop (labelLen + 1) labelLenPos (domainPos + 1) (domain[domainPos := c]) idx cs)"

text \<open>The search for a compression tip, among the bytes before the cursor.\<close>

definition find_tip :: "bytes \<Rightarrow> bytes \<Rightarrow> nat option" where
  "find_tip written subDomain =
     List.find (\<lambda>q. take (length subDomain) (drop q written) = subDomain) [0..<length written - length subDomain]"

fun put_labels :: "bytes \<Rightarrow> nat list \<Rightarrow> bool buf" where
  "put_labels domain [] b = Inr (False, b)"
| "put_labels domain (domainLabelPos # idx) b =
     (let subDomain = drop domainLabelPos domain
      in case find_tip (take (mBufferPtr b) (mBuffer b)) subDomain of
           Some compressionTipPos \<Rightarrow>
             follow (put16bits (0xC000 + word_of_nat compressionTipPos)) (\<lambda>_. yield True) b
         | None \<Rightarrow>
             follow (putBytes (take (unat (subDomain ! 0) + 1) subDomain)) (\<lambda>_. put_labels domain idx) b)"

definition putDnsDomainName :: "bytes \<Rightarrow> bool \<Rightarrow> unit buf" where
  "putDnsDomainName s compressionAllowed =
     (if MAX_DOMAIN_LEN < length s then (\<lambda>_. Inl Exception)
      else if s = [] then put8bits 0
      else case label_loop 0 0 1 (replicate (MAX_DOMAIN_LEN + 1) 0) [] s of
        Inl e \<Rightarrow> (\<lambda>_. Inl e)
      | Inr (domain, idx, domainPos) \<Rightarrow>
          if compressionAllowed then
            follow (put_labels (take domainPos domain) idx) (\<lambda>found. if found then yield () else put8bits 0)
          else putBytes (take domainPos domain))"

section \<open>Reading stays inside of the bytes\<close>

definition buffer_ok :: "buffer \<Rightarrow> bool" where
  "buffer_ok b = (mBufferPtr b \<le> length (mBuffer b) \<and> length (mBuffer b) \<le> 512)"

definition inside :: "('a \<Rightarrow> bool) \<Rightarrow> dns_stop + 'a \<times> buffer \<Rightarrow> bool" where
  "inside Q r = (case r of Inl e \<Rightarrow> e = Exception | Inr (x, b') \<Rightarrow> buffer_ok b' \<and> Q x)"

definition within :: "'a buf \<Rightarrow> ('a \<Rightarrow> bool) \<Rightarrow> bool" where
  "within m Q = (\<forall>b. buffer_ok b \<longrightarrow> inside Q (m b))"

named_theorems reading \<open>readers that stay inside of the bytes\<close>

lemma inside_follow:
  assumes "inside R (m b)" "\<And>x b'. m b = Inr (x, b') \<Longrightarrow> R x \<Longrightarrow> buffer_ok b' \<Longrightarrow> inside Q (f x b')"
  shows "inside Q (follow m f b)"
  using assms by (auto simp: inside_def follow_def split: sum.splits)

lemma within_follow: "within m R \<Longrightarrow> (\<And>x. R x \<Longrightarrow> within (f x) Q) \<Longrightarrow> within (follow m f) Q"
  unfolding within_def by (blast intro: inside_follow)

lemma within_yield: "Q x \<Longrightarrow> within (yield x) Q"
  by (simp add: within_def inside_def yield_def)

lemma within_fail [reading]: "within (\<lambda>_. Inl Exception) Q"
  by (simp add: within_def inside_def)

lemma within_if: "(c \<Longrightarrow> within m Q) \<Longrightarrow> (\<not> c \<Longrightarrow> within n Q) \<Longrightarrow> within (if c then m else n) Q"
  by simp

lemma within_weaken: "within m Q \<Longrightarrow> (\<And>x. Q x \<Longrightarrow> R x) \<Longrightarrow> within m R"
  by (fastforce simp: within_def inside_def split: sum.splits)

lemma unat_pos_plus:
  assumes "n \<le> 512" "unat k < 100000"
  shows "unat ((word_of_nat n :: u32) + k) = n + unat k"
proof -
  have "unat (word_of_nat n :: u32) = n" using assms(1) by (simp add: unsigned_of_nat take_bit_nat_eq_self)
  then show ?thesis using assms by (simp add: unat_word_ariths)
qed

lemma check_ok:
  assumes "buffer_ok b" "unat k < 100000"
  shows "checkAvailableSpace k b = (if length (mBuffer b) < mBufferPtr b + unat k then Inl Exception else Inr ((), b))"
proof -
  have p: "mBufferPtr b \<le> 512" and l: "length (mBuffer b) \<le> 512" using assms(1) by (auto simp: buffer_ok_def)
  have "unat (word_of_nat (length (mBuffer b)) :: u32) = length (mBuffer b)"
    using l by (simp add: unsigned_of_nat take_bit_nat_eq_self)
  then show ?thesis using unat_pos_plus [OF p assms(2)] by (simp add: checkAvailableSpace_def word_less_nat_alt)
qed

lemma getBytes_ok:
  assumes "buffer_ok b" "unat k < 100000"
  shows "getBytes k b = (if length (mBuffer b) < mBufferPtr b + unat k then Inl Exception
     else Inr (take (unat k) (drop (mBufferPtr b) (mBuffer b)), b\<lparr>mBufferPtr := mBufferPtr b + unat k\<rparr>))"
  by (simp add: getBytes_def follow_def check_ok [OF assms])

lemma getBytes_within: "unat k < 100000 \<Longrightarrow> within (getBytes k) (\<lambda>d. length d = unat k)"
  by (auto simp: within_def inside_def getBytes_ok) (simp add: buffer_ok_def)

lemma get8bits_within [reading]: "within get8bits (\<lambda>_. True)"
  unfolding get8bits_def by (rule within_follow [OF getBytes_within within_yield]) simp_all

lemma unat_ucast_u32: "unat (ucast (c::u8) :: u32) = unat c"
  by (rule unat_ucast_byte32)

lemma get16_value: "unat (push_bit 8 (ucast (a::u8)) + ucast (c::u8) :: u32) = 256 * unat a + unat c"
  using unat_byte [of a] unat_byte [of c] by (simp add: unat_word_ariths unat_hi unat_ucast_byte32)

lemma get16bits_within [reading]: "within get16bits (\<lambda>v. unat v < 65536)"
  unfolding get16bits_def
proof (rule within_follow [OF getBytes_within within_yield])
  fix d :: bytes
  show "unat (push_bit 8 (ucast (d ! 0)) + ucast (d ! 1) :: u32) < 65536"
    using unat_byte [of "d ! 0"] unat_byte [of "d ! 1"] by (simp only: get16_value)
qed simp

lemma get32bits_within [reading]: "within get32bits (\<lambda>_. True)"
  unfolding get32bits_def by (rule within_follow [OF getBytes_within within_yield]) simp_all

lemma getPos_within [reading]: "within getPos (\<lambda>_. True)"
  by (simp add: within_def inside_def getPos_def)

lemma string_within [reading]: "within getDnsCharacterString (\<lambda>_. True)"
  unfolding getDnsCharacterString_def
proof (rule within_follow [OF get8bits_within])
  fix c :: u8
  have "unat (ucast c :: u32) < 100000" using unat_byte [of c] by (simp add: unat_ucast_byte32)
  then show "within (if 0 < c then getBytes (ucast c) else yield []) (\<lambda>_. True)"
    by (auto intro: within_if within_yield within_weaken [OF getBytes_within])
qed


lemma setPos_inside: "buffer_ok b \<Longrightarrow> inside (\<lambda>_. True) (setPos p b)"
  by (auto simp: inside_def setPos_def buffer_ok_def)

lemma setPos_within [reading]: "within (setPos p) (\<lambda>_. True)"
  by (simp add: within_def setPos_inside)

lemma inside_within:
  "within m R \<Longrightarrow> buffer_ok b \<Longrightarrow> (\<And>x b'. m b = Inr (x, b') \<Longrightarrow> R x \<Longrightarrow> buffer_ok b' \<Longrightarrow> inside Q (f x b')) \<Longrightarrow> inside Q (follow m f b)"
  by (rule inside_follow [of R]) (auto simp: within_def)

lemma finish_inside: "inside (\<lambda>_. True) (m b) \<Longrightarrow> inside (\<lambda>_. True) (finish_name m b)"
  unfolding finish_name_def
  by (rule inside_follow, assumption) (simp add: inside_def buffer_ok_def)

lemma name_inside:
  "buffer_ok b \<Longrightarrow> inside (\<lambda>_. True) (getDnsDomainName c b)"
  "buffer_ok b' \<Longrightarrow> inside (\<lambda>_. True) (name_loop c' d b')"
proof (induction c b and c' d b' rule: getDnsDomainName_name_loop.induct)
  case (1 c b)
  show ?case
  proof (cases "mBufferPtr b \<in> set (mLinkPos b)")
    case True
    then show ?thesis by (simp add: getDnsDomainName.simps [of c b] inside_def)
  next
    case False
    have "buffer_ok (b\<lparr>mLinkPos := mLinkPos b @ [mBufferPtr b]\<rparr>)" using 1(2) by (simp add: buffer_ok_def)
    then show ?thesis
      unfolding getDnsDomainName.simps [of c b] using False 1(1) by (simp add: finish_inside)
  qed
next
  case (2 c domain b)
  have bytes: "within (getBytes (ucast (x::u8))) (\<lambda>_. True)" for x
    by (rule within_weaken [OF getBytes_within]) (use unat_byte [of x] in \<open>simp_all add: unat_ucast_byte32\<close>)
  have name: "inside Q (follow (getDnsDomainName True) f b3)"
    if "inside (\<lambda>_. True) (getDnsDomainName True b3)" "\<And>x b'. buffer_ok b' \<Longrightarrow> inside Q (f x b')" for Q f b3
    using that by (auto intro: inside_follow [where m = "getDnsDomainName True" and R = "\<lambda>_. True"])
  show ?case
    unfolding name_loop.simps [of c domain b]
  proof (rule inside_within [OF get8bits_within 2(3)], goal_cases)
    case (1 ctrl b1)
    note read = 1
    consider "ctrl = 0" | "ctrl \<noteq> 0" "drop_bit 6 ctrl = 3" "\<not> c" | "ctrl \<noteq> 0" "drop_bit 6 ctrl = 3" "c"
      | "ctrl \<noteq> 0" "drop_bit 6 ctrl \<noteq> 3" "MAX_LABEL_LEN < unat ctrl"
      | "ctrl \<noteq> 0" "drop_bit 6 ctrl \<noteq> 3" "\<not> MAX_LABEL_LEN < unat ctrl" by blast
    then show ?case
    proof cases
      case 3
      have "inside (\<lambda>_. True) (follow get8bits (\<lambda>ctrlCode2 b2. follow (setPos (link_addr ctrl ctrlCode2))
        (\<lambda>_. follow (getDnsDomainName True) (\<lambda>linkDomain. follow (setPos (mBufferPtr b2))
          (\<lambda>_ b5. Inr (dot_append domain linkDomain, b5)))) b2) b1)"
      proof (rule inside_within [OF get8bits_within read(3)], rule inside_within [OF setPos_within], assumption, rule name, goal_cases)
        case (1 ctrl2 b2 u b3)
        then show ?case using 2(1) [OF read(1) 3(1,2)] 3(3) by blast
      next
        case (2 ctrl2 b2 u b3 l b4)
        show ?case by (rule inside_within [OF setPos_within 2(7)]) (simp add: inside_def)
      qed
      then show ?thesis using 3 by simp
    next
      case 5
      have "inside (\<lambda>_. True) (follow (getBytes (ucast ctrl)) (\<lambda>l. name_loop c (dot_append domain l)) b1)"
        by (rule inside_within [OF bytes read(3)]) (rule 2(2) [OF read(1) 5])
      then show ?thesis using 5 by simp
    qed (use read in \<open>simp_all add: inside_def\<close>)
  qed
qed


lemma name_within [reading]: "within (getDnsDomainName c) (\<lambda>_. True)"
  by (simp add: within_def name_inside)

lemma getBytes_reading [reading]:
  "within (getBytes 4) (\<lambda>_. True)" "within (getBytes 16) (\<lambda>_. True)"
  by (rule within_weaken [OF getBytes_within], simp_all)+

lemma bytes_within: "unat sz < 65536 \<Longrightarrow> within (getBytes sz) (\<lambda>_. True)"
  by (rule within_weaken [OF getBytes_within]) simp_all

end
