(* ===== verification/Dnsrr.thy ===== *)
theory Dnsrr
  imports Dnsbuf
begin

text \<open>
  \<open>dnslib/rr.cpp\<close>, \<open>rr.h\<close> and \<open>dns.h\<close>: the data of resource records by type, and the records.
  A type field is the number on the wire, so unknown types stay what they are.
\<close>

datatype eRDataType = RDATA_A | RDATA_NS | RDATA_MD | RDATA_MF | RDATA_CNAME | RDATA_SOA | RDATA_MB
  | RDATA_MG | RDATA_MR | RDATA_NULL | RDATA_WKS | RDATA_PTR | RDATA_HINFO | RDATA_MINFO | RDATA_MX
  | RDATA_TXT | RDATA_AAAA | RDATA_NAPTR | RDATA_SRV | RDATA_A6 | RDATA_OPT | RDATA_ANY

fun rdata_code :: "eRDataType \<Rightarrow> u32" where
  "rdata_code RDATA_A = 1" | "rdata_code RDATA_NS = 2" | "rdata_code RDATA_MD = 3"
| "rdata_code RDATA_MF = 4" | "rdata_code RDATA_CNAME = 5" | "rdata_code RDATA_SOA = 6"
| "rdata_code RDATA_MB = 7" | "rdata_code RDATA_MG = 8" | "rdata_code RDATA_MR = 9"
| "rdata_code RDATA_NULL = 10" | "rdata_code RDATA_WKS = 11" | "rdata_code RDATA_PTR = 12"
| "rdata_code RDATA_HINFO = 13" | "rdata_code RDATA_MINFO = 14" | "rdata_code RDATA_MX = 15"
| "rdata_code RDATA_TXT = 16" | "rdata_code RDATA_AAAA = 28" | "rdata_code RDATA_NAPTR = 35"
| "rdata_code RDATA_SRV = 0x21" | "rdata_code RDATA_A6 = 0x26" | "rdata_code RDATA_OPT = 0x29"
| "rdata_code RDATA_ANY = 0xFF"

definition CLASS_IN :: u32 where "CLASS_IN = 1"

text \<open>The subclasses of \<open>RData\<close>. \<open>RDataWithName\<close> carries the type of the class derived from it.\<close>

datatype rdata =
    RDataWithName eRDataType (mName: bytes)
  | RDataHINFO (mCpu: bytes) (mOs: bytes)
  | RDataMINFO (mRMailBx: bytes) (mMailBx: bytes)
  | RDataMX (mPreference: u32) (mExchange: bytes)
  | RDataNULL (mData: bytes)
  | RDataSOA (mMName: bytes) (mRName: bytes) (mSerial: u32) (mRefresh: u32) (mRetry: u32) (mExpire: u32) (mMinimum: u32)
  | RDataTXT (mTexts: "bytes list")
  | RDataA (mAddr: bytes)
  | RDataWKS (mAddr: bytes) (mProtocol: u32) (mBitmap: bytes)
  | RDataAAAA (mAddr: bytes)
  | RDataNAPTR (mOrder: u32) (mPreference: u32) (mFlags: bytes) (mServices: bytes) (mRegExp: bytes) (mReplacement: bytes)

fun getType :: "rdata \<Rightarrow> eRDataType" where
  "getType (RDataWithName t n) = t" | "getType (RDataHINFO c os) = RDATA_HINFO"
| "getType (RDataMINFO r m) = RDATA_MINFO" | "getType (RDataMX p x) = RDATA_MX"
| "getType (RDataNULL d) = RDATA_NULL" | "getType (RDataSOA m r s f y x i) = RDATA_SOA"
| "getType (RDataTXT ts) = RDATA_TXT" | "getType (RDataA a) = RDATA_A"
| "getType (RDataWKS a p b) = RDATA_WKS" | "getType (RDataAAAA a) = RDATA_AAAA"
| "getType (RDataNAPTR n p f s r x) = RDATA_NAPTR"

section \<open>Decoding\<close>

definition RDataWithName_decode :: "eRDataType \<Rightarrow> rdata buf" where
  "RDataWithName_decode t = follow (getDnsDomainName True) (\<lambda>n. yield (RDataWithName t n))"

definition RDataHINFO_decode :: "rdata buf" where
  "RDataHINFO_decode = follow getDnsCharacterString (\<lambda>c. follow getDnsCharacterString (\<lambda>os.
     yield (RDataHINFO c os)))"

definition RDataMINFO_decode :: "rdata buf" where
  "RDataMINFO_decode = follow (getDnsDomainName True) (\<lambda>r. follow (getDnsDomainName True) (\<lambda>m.
     yield (RDataMINFO r m)))"

definition RDataMX_decode :: "rdata buf" where
  "RDataMX_decode = follow get16bits (\<lambda>p. follow (getDnsDomainName True) (\<lambda>x. yield (RDataMX p x)))"

definition RDataNULL_decode :: "u32 \<Rightarrow> rdata buf" where
  "RDataNULL_decode sz = follow (getBytes sz) (\<lambda>d. yield (RDataNULL d))"

definition RDataSOA_decode :: "rdata buf" where
  "RDataSOA_decode = follow (getDnsDomainName True) (\<lambda>m. follow (getDnsDomainName True) (\<lambda>r.
     follow get32bits (\<lambda>serial. follow get32bits (\<lambda>refresh. follow get32bits (\<lambda>retry.
     follow get32bits (\<lambda>expire. follow get32bits (\<lambda>minimum.
       yield (RDataSOA m r serial refresh retry expire minimum))))))))"

lemma getDnsCharacterString_moves:
  "getDnsCharacterString b = Inr (s, b') \<Longrightarrow> mBufferPtr b < mBufferPtr b'"
  by (auto simp: getDnsCharacterString_def follow_Inr yield_def split: if_splits dest!: get8bits_Inr getBytes_Inr)

function texts_loop :: "nat \<Rightarrow> nat \<Rightarrow> bytes list \<Rightarrow> buffer \<Rightarrow> dns_stop + bytes list \<times> buffer" where
  "texts_loop posStart sz texts b =
     (if mBufferPtr b - posStart < sz
      then follow getDnsCharacterString (\<lambda>t. texts_loop posStart sz (texts @ [t])) b
      else Inr (texts, b))"
  by pat_completeness auto
termination
  by (relation "measure (\<lambda>(posStart, sz, texts, b). posStart + sz - mBufferPtr b)")
    (auto dest: getDnsCharacterString_moves)

declare texts_loop.simps [simp del]

definition RDataTXT_decode :: "u32 \<Rightarrow> rdata buf" where
  "RDataTXT_decode sz = follow getPos (\<lambda>posStart. follow (texts_loop posStart (unat sz) []) (\<lambda>ts.
     yield (RDataTXT ts)))"

definition RDataA_decode :: "rdata buf" where
  "RDataA_decode = follow (getBytes 4) (\<lambda>d. yield (RDataA d))"

definition RDataWKS_decode :: "u32 \<Rightarrow> rdata buf" where
  "RDataWKS_decode sz = follow (getBytes 4) (\<lambda>a. follow get8bits (\<lambda>p. follow (getBytes (sz - 5)) (\<lambda>bm.
     yield (RDataWKS a (ucast p) bm))))"

definition RDataAAAA_decode :: "rdata buf" where
  "RDataAAAA_decode = follow (getBytes 16) (\<lambda>d. yield (RDataAAAA d))"

definition RDataNAPTR_decode :: "rdata buf" where
  "RDataNAPTR_decode = follow get16bits (\<lambda>n. follow get16bits (\<lambda>p. follow getDnsCharacterString (\<lambda>f.
     follow getDnsCharacterString (\<lambda>s. follow getDnsCharacterString (\<lambda>r.
     follow (getDnsDomainName False) (\<lambda>x. yield (RDataNAPTR n p f s r x)))))))"

section \<open>Encoding\<close>

fun put_each :: "('a \<Rightarrow> unit buf) \<Rightarrow> 'a list \<Rightarrow> unit buf" where
  "put_each put [] = yield ()"
| "put_each put (x # xs) = follow (put x) (\<lambda>_. put_each put xs)"

fun rdata_encode :: "rdata \<Rightarrow> unit buf" where
  "rdata_encode (RDataWithName t n) = putDnsDomainName n True"
| "rdata_encode (RDataHINFO c os) = follow (putDnsCharacterString c) (\<lambda>_. putDnsCharacterString os)"
| "rdata_encode (RDataMINFO r m) = follow (putDnsDomainName r True) (\<lambda>_. putDnsDomainName m True)"
| "rdata_encode (RDataMX p x) = follow (put16bits p) (\<lambda>_. putDnsDomainName x True)"
| "rdata_encode (RDataNULL d) = putBytes d"
| "rdata_encode (RDataSOA m r serial refresh retry expire minimum) =
     follow (putDnsDomainName m True) (\<lambda>_. follow (putDnsDomainName r True) (\<lambda>_.
       put_each put32bits [serial, refresh, retry, expire, minimum]))"
| "rdata_encode (RDataTXT ts) = put_each putDnsCharacterString ts"
| "rdata_encode (RDataA a) = put_each put8bits a"
| "rdata_encode (RDataWKS a p bm) = follow (put_each put8bits a) (\<lambda>_. follow (put8bits (ucast p)) (\<lambda>_. putBytes bm))"
| "rdata_encode (RDataAAAA a) = put_each put8bits a"
| "rdata_encode (RDataNAPTR n p f s r x) = follow (put16bits n) (\<lambda>_. follow (put16bits p) (\<lambda>_.
     follow (putDnsCharacterString f) (\<lambda>_. follow (putDnsCharacterString s) (\<lambda>_.
     follow (putDnsCharacterString r) (\<lambda>_. putDnsDomainName x False)))))"

section \<open>Resource records\<close>

record ResourceRecord =
  rr_name :: bytes
  rr_type :: u32
  rr_class :: u32
  rr_ttl :: u32
  rr_data_size :: u32
  rr_data :: "rdata option"

definition new_ResourceRecord :: ResourceRecord where
  "new_ResourceRecord = \<lparr>rr_name = [], rr_type = rdata_code RDATA_NULL, rr_class = CLASS_IN, rr_ttl = 0,
     rr_data_size = 0, rr_data = None\<rparr>"

definition setRData :: "rdata \<Rightarrow> ResourceRecord \<Rightarrow> ResourceRecord" where
  "setRData d rr = rr\<lparr>rr_data := Some d, rr_type := rdata_code (getType d)\<rparr>"

text \<open>The choice of the class in \<open>ResourceRecord::decode\<close>; for WKS it is that of A.\<close>

definition rdata_decode :: "u32 \<Rightarrow> u32 \<Rightarrow> rdata buf" where
  "rdata_decode t sz =
     (if t = rdata_code RDATA_CNAME then RDataWithName_decode RDATA_CNAME
      else if t = rdata_code RDATA_HINFO then RDataHINFO_decode
      else if t = rdata_code RDATA_MB then RDataWithName_decode RDATA_MB
      else if t = rdata_code RDATA_MD then RDataWithName_decode RDATA_MD
      else if t = rdata_code RDATA_MF then RDataWithName_decode RDATA_MF
      else if t = rdata_code RDATA_MG then RDataWithName_decode RDATA_MG
      else if t = rdata_code RDATA_MINFO then RDataMINFO_decode
      else if t = rdata_code RDATA_MR then RDataWithName_decode RDATA_MR
      else if t = rdata_code RDATA_MX then RDataMX_decode
      else if t = rdata_code RDATA_NS then RDataWithName_decode RDATA_NS
      else if t = rdata_code RDATA_PTR then RDataWithName_decode RDATA_PTR
      else if t = rdata_code RDATA_SOA then RDataSOA_decode
      else if t = rdata_code RDATA_TXT then RDataTXT_decode sz
      else if t = rdata_code RDATA_A then RDataA_decode
      else if t = rdata_code RDATA_WKS then RDataA_decode
      else if t = rdata_code RDATA_AAAA then RDataAAAA_decode
      else if t = rdata_code RDATA_NAPTR then RDataNAPTR_decode
      else RDataNULL_decode sz)"

definition rr_decode :: "ResourceRecord buf" where
  "rr_decode = follow (getDnsDomainName True) (\<lambda>n. follow get16bits (\<lambda>t. follow get16bits (\<lambda>c.
     follow get32bits (\<lambda>ttl. follow get16bits (\<lambda>sz.
       let rr = \<lparr>rr_name = n, rr_type = t, rr_class = c, rr_ttl = ttl, rr_data_size = sz, rr_data = None\<rparr>
       in if 0 < sz then
            follow getPos (\<lambda>bPos. follow (rdata_decode t sz) (\<lambda>d. follow getPos (\<lambda>p.
              if p - bPos \<noteq> unat sz then (\<lambda>_. Inl Exception) else yield (rr\<lparr>rr_data := Some d\<rparr>))))
          else yield rr)))))"

definition rr_encode :: "ResourceRecord \<Rightarrow> ResourceRecord buf" where
  "rr_encode rr = follow (putDnsDomainName (rr_name rr) True) (\<lambda>_. follow (put16bits (rr_type rr)) (\<lambda>_.
     follow (put16bits (rr_class rr)) (\<lambda>_. follow (put32bits (rr_ttl rr)) (\<lambda>_.
     follow getPos (\<lambda>lenPos. follow (put16bits 0) (\<lambda>_.
       case rr_data rr of
         None \<Rightarrow> yield rr
       | Some d \<Rightarrow> follow (rdata_encode d) (\<lambda>_. follow getPos (\<lambda>lastPos.
           let sz = word_of_nat (lastPos - lenPos - 2)
           in follow (setPos lenPos) (\<lambda>_. follow (put16bits sz) (\<lambda>_. follow (setPos lastPos) (\<lambda>_.
                yield (rr\<lparr>rr_data_size := sz\<rparr>))))))))))))"

section \<open>Decoding stays inside of the bytes\<close>

lemma texts_inside: "buffer_ok b \<Longrightarrow> inside (\<lambda>_. True) (texts_loop posStart sz texts b)"
proof (induction posStart sz texts b rule: texts_loop.induct)
  case (1 posStart sz texts b)
  show ?case
  proof (cases "mBufferPtr b - posStart < sz")
    case True
    have "inside (\<lambda>_. True) (follow getDnsCharacterString (\<lambda>t. texts_loop posStart sz (texts @ [t])) b)"
      by (rule inside_within [OF string_within 1(2)]) (rule 1(1) [OF True])
    then show ?thesis using True by (simp add: texts_loop.simps [of posStart sz texts b])
  next
    case False
    then show ?thesis using 1(2) by (simp add: texts_loop.simps [of posStart sz texts b] inside_def)
  qed
qed

lemma texts_within [reading]: "within (texts_loop posStart sz texts) (\<lambda>_. True)"
  by (simp add: within_def texts_inside)

lemmas rdata_decoders = RDataWithName_decode_def RDataHINFO_decode_def RDataMINFO_decode_def RDataMX_decode_def
  RDataNULL_decode_def RDataSOA_decode_def RDataTXT_decode_def RDataA_decode_def RDataAAAA_decode_def RDataNAPTR_decode_def

lemma rdata_within: "unat sz < 65536 \<Longrightarrow> within (rdata_decode t sz) (\<lambda>_. True)"
  unfolding rdata_decode_def rdata_decoders
  by (intro within_if; ((rule within_follow, rule reading bytes_within, assumption?)+, rule within_yield, rule TrueI))

lemma rr_within [reading]: "within rr_decode (\<lambda>_. True)"
  unfolding rr_decode_def Let_def
  by (((rule within_follow, rule reading)+, (rule within_if)?; (rule within_yield, rule TrueI)?),
      (rule within_follow, rule reading), (rule within_follow, rule rdata_within, assumption),
      (rule within_follow, rule reading), rule within_if, rule within_fail, rule within_yield, rule TrueI)

end
