(* ===== verification/Dnsmsg.thy ===== *)
theory Dnsmsg
  imports Dnsrr
begin

text \<open>
  \<open>dnslib/message.cpp\<close> and \<open>qs.cpp\<close>: a DNS message, its header fields, questions and records.
\<close>

definition QCLASS_IN :: u32 where "QCLASS_IN = 1"
definition MAX_MSG_LEN :: nat where "MAX_MSG_LEN = 512"

record QuerySection =
  mQName :: bytes
  mQType :: u32
  mQClass :: u32

definition new_QuerySection :: "bytes \<Rightarrow> QuerySection" where
  "new_QuerySection n = \<lparr>mQName = n, mQType = 0, mQClass = QCLASS_IN\<rparr>"

definition qs_encode :: "QuerySection \<Rightarrow> unit buf" where
  "qs_encode qs = follow (putDnsDomainName (mQName qs) True) (\<lambda>_. follow (put16bits (mQType qs)) (\<lambda>_.
     put16bits (mQClass qs)))"

record Message =
  mId :: u32
  mQr :: u32
  mOpCode :: u32
  mAA :: u32
  mTC :: u32
  mRD :: u32
  mRA :: u32
  mRCode :: u32
  mQueries :: "QuerySection list"
  mAnswers :: "ResourceRecord list"
  mAuthorities :: "ResourceRecord list"
  mAdditional :: "ResourceRecord list"

definition new_Message :: Message where
  "new_Message = \<lparr>mId = 0, mQr = 0, mOpCode = 0, mAA = 0, mTC = 0, mRD = 0, mRA = 0, mRCode = 0,
     mQueries = [], mAnswers = [], mAuthorities = [], mAdditional = []\<rparr>"

definition qs_decode :: "QuerySection buf" where
  "qs_decode = follow (getDnsDomainName True) (\<lambda>n. follow get16bits (\<lambda>t. follow get16bits (\<lambda>c.
     yield \<lparr>mQName = n, mQType = t, mQClass = c\<rparr>)))"

text \<open>The loops over the counts of the header.\<close>

fun get_each :: "'a buf \<Rightarrow> nat \<Rightarrow> 'a list buf" where
  "get_each get 0 = yield []"
| "get_each get (Suc n) = follow get (\<lambda>x. follow (get_each get n) (\<lambda>xs. yield (x # xs)))"

definition bit_field :: "u32 \<Rightarrow> nat \<Rightarrow> u32 \<Rightarrow> u32" where
  "bit_field flags i k = drop_bit i flags AND k"

definition decode_body :: "Message \<Rightarrow> Message buf" where
  "decode_body this = follow get16bits (\<lambda>mid. follow get16bits (\<lambda>flags.
     follow get16bits (\<lambda>qdCount. follow get16bits (\<lambda>anCount. follow get16bits (\<lambda>nsCount. follow get16bits (\<lambda>arCount.
     follow (get_each qs_decode (unat qdCount)) (\<lambda>qs.
     follow (get_each rr_decode (unat anCount)) (\<lambda>an.
     follow (get_each rr_decode (unat nsCount)) (\<lambda>ns.
     follow (get_each rr_decode (unat arCount)) (\<lambda>ar.
       yield (this\<lparr>mId := mid, mQr := bit_field flags 15 1, mOpCode := bit_field flags 11 15,
         mAA := bit_field flags 10 1, mTC := bit_field flags 9 1, mRD := bit_field flags 8 1,
         mRA := bit_field flags 7 1, mQueries := qs, mAnswers := an, mAuthorities := ns,
         mAdditional := ar\<rparr>)))))))))))"

text \<open>\<open>Message::decode\<close> on the message \<open>this\<close>; the response code is not read.\<close>

definition message_decode :: "bytes \<Rightarrow> Message \<Rightarrow> dns_stop + Message" where
  "message_decode d this =
     (if MAX_MSG_LEN < length d then Inl Exception
      else case decode_body this (new_buffer d) of
        Inl e \<Rightarrow> Inl e
      | Inr (m, b) \<Rightarrow> if mBufferPtr b \<noteq> length d then Inl Exception else Inr m)"

definition header_fields :: "Message \<Rightarrow> u32" where
  "header_fields m = push_bit 15 (mQr m AND 1) + push_bit 11 (mOpCode m AND 15) + push_bit 10 (mAA m AND 1)
     + push_bit 9 (mTC m AND 1) + push_bit 8 (mRD m AND 1) + push_bit 7 (mRA m AND 1) + (mRCode m AND 15)"

fun encode_each :: "('a \<Rightarrow> 'a buf) \<Rightarrow> 'a list \<Rightarrow> 'a list buf" where
  "encode_each enc [] = yield []"
| "encode_each enc (x # xs) = follow (enc x) (\<lambda>y. follow (encode_each enc xs) (\<lambda>ys. yield (y # ys)))"

definition encode_body :: "Message \<Rightarrow> Message buf" where
  "encode_body m = follow (put16bits (mId m)) (\<lambda>_. follow (put16bits (header_fields m)) (\<lambda>_.
     follow (put16bits (word_of_nat (length (mQueries m)))) (\<lambda>_. follow (put16bits (word_of_nat (length (mAnswers m)))) (\<lambda>_.
     follow (put16bits (word_of_nat (length (mAuthorities m)))) (\<lambda>_. follow (put16bits (word_of_nat (length (mAdditional m)))) (\<lambda>_.
     follow (put_each qs_encode (mQueries m)) (\<lambda>_.
     follow (encode_each rr_encode (mAnswers m)) (\<lambda>an.
     follow (encode_each rr_encode (mAuthorities m)) (\<lambda>ns.
     follow (encode_each rr_encode (mAdditional m)) (\<lambda>ar.
       yield (m\<lparr>mAnswers := an, mAuthorities := ns, mAdditional := ar\<rparr>)))))))))))"

text \<open>\<open>Message::encode\<close> into the given array: the array, \<open>validSize\<close> and the message.\<close>

definition message_encode :: "Message \<Rightarrow> bytes \<Rightarrow> dns_stop + bytes \<times> nat \<times> Message" where
  "message_encode m d = (case encode_body m (new_buffer d) of
     Inl e \<Rightarrow> Inl e
   | Inr (m', b) \<Rightarrow> Inr (mBuffer b, mBufferPtr b, m'))"

section \<open>Decoding ends inside of the bytes\<close>

lemma qs_within [reading]: "within qs_decode (\<lambda>_. True)"
  unfolding qs_decode_def by ((rule within_follow, rule reading)+, rule within_yield, rule TrueI)

lemma each_within: "within get (\<lambda>_. True) \<Longrightarrow> within (get_each get n) (\<lambda>_. True)"
  by (induction n) (auto intro!: within_follow within_yield)

lemma body_within: "within (decode_body this) (\<lambda>_. True)"
  unfolding decode_body_def
  by ((rule within_follow, rule reading each_within [OF qs_within] each_within [OF rr_within])+, rule within_yield, rule TrueI)

lemma decode_Inl: "message_decode d this = Inl x \<Longrightarrow> x = Exception"
proof (cases "length d \<le> 512")
  case True
  then have "inside (\<lambda>_. True) (decode_body this (new_buffer d))"
    using body_within by (simp add: within_def buffer_ok_def new_buffer_def)
  then show "message_decode d this = Inl x \<Longrightarrow> x = Exception"
    by (auto simp: message_decode_def inside_def split: sum.splits if_splits)
qed (simp add: message_decode_def MAX_MSG_LEN_def)

text \<open>C8: Whatever bytes a server sends, \<open>Message::decode\<close> ends, with a message or with the exception of the
  library, and never reads outside of the bytes received: for every length, any header counts, any
  record types and sizes, and any chain of compression links.\<close>

theorem message_decode_inside: "message_decode d this \<noteq> Inl Bad_access"
  using decode_Inl [of d this Bad_access] by auto

end
