(* ===== verification/Dnswire.thy ===== *)
theory Dnswire
  imports Dnsmsg
begin

text \<open>
  Domain names on the wire: labels behind their lengths, and links to a tail written before. What
  \<open>getDnsDomainName\<close> reads there and what \<open>putDnsDomainName\<close> writes.
\<close>

section \<open>Bytes at a position\<close>

definition at :: "bytes \<Rightarrow> nat \<Rightarrow> bytes \<Rightarrow> bool" where
  "at d p x = (p + length x \<le> length d \<and> (\<forall>i<length x. d ! (p + i) = x ! i))"

lemma at_Nil [simp]: "at d p [] \<longleftrightarrow> p \<le> length d"
  by (simp add: at_def)

lemma at_Cons [simp]: "at d p (c # x) \<longleftrightarrow> p < length d \<and> d ! p = c \<and> at d (Suc p) x"
  by (auto simp: at_def less_Suc_eq_0_disj)

lemma at_append [simp]: "at d p (x @ y) \<longleftrightarrow> at d p x \<and> at d (p + length x) y"
proof (induction x arbitrary: p)
  case Nil
  then show ?case by (auto simp: at_def)
qed simp

lemma at_extend: "at d p x \<Longrightarrow> at (d @ y) p x"
  by (auto simp: at_def nth_append)

lemma at_end: "at (w @ x) (length w) x"
  by (simp add: at_def)

lemma at_take: "at d p x \<longleftrightarrow> p + length x \<le> length d \<and> take (length x) (drop p d) = x"
proof -
  have "take (length x) (drop p d) = x \<longleftrightarrow> (\<forall>i<length x. d ! (p + i) = x ! i)" if "p + length x \<le> length d"
    using that by (auto simp: list_eq_iff_nth_eq)
  then show ?thesis by (auto simp: at_def)
qed

lemma at_update: "at d p x \<Longrightarrow> r < p \<or> p + length x \<le> r \<Longrightarrow> at (d[r := v]) p x"
  by (auto simp: at_def nth_list_update)

section \<open>Domain names on the wire\<close>

definition labels_ok :: "bytes list \<Rightarrow> bool" where
  "labels_ok ls = (\<forall>l\<in>set ls. l \<noteq> [] \<and> length l \<le> 63 \<and> 0 \<notin> set l \<and> 46 \<notin> set l)"

definition wire :: "bytes list \<Rightarrow> bytes" where
  "wire ls = concat (map (\<lambda>l. word_of_nat (length l) # l) ls)"

definition join :: "bytes list \<Rightarrow> bytes" where
  "join ls = foldl dot_append [] ls"

lemma labels_ok_simps [simp]:
  "labels_ok []" "labels_ok (l # ls) \<longleftrightarrow> l \<noteq> [] \<and> length l \<le> 63 \<and> 0 \<notin> set l \<and> 46 \<notin> set l \<and> labels_ok ls"
  "labels_ok (us @ vs) \<longleftrightarrow> labels_ok us \<and> labels_ok vs"
  by (auto simp: labels_ok_def)

lemma wire_simps [simp]:
  "wire [] = []" "wire (l # ls) = word_of_nat (length l) # l @ wire ls" "wire (us @ vs) = wire us @ wire vs"
  by (simp_all add: wire_def)

lemma join_Nil [simp]: "join [] = []" and join_one [simp]: "join [l] = l"
  by (simp_all add: join_def dot_append_def)

lemma foldl_dot:
  "a \<noteq> [] \<Longrightarrow> foldl dot_append a ls = a @ concat (map (\<lambda>l. 46 # l) ls)"
  by (induction ls arbitrary: a) (simp_all add: dot_append_def)

lemma join_Cons: "l \<noteq> [] \<Longrightarrow> join (l # ls) = l @ concat (map (\<lambda>l. 46 # l) ls)"
  by (simp add: join_def dot_append_def foldl_dot)

lemma join_Cons2: "l \<noteq> [] \<Longrightarrow> l2 \<noteq> [] \<Longrightarrow> join (l # l2 # ls) = l @ 46 # join (l2 # ls)"
  by (simp add: join_Cons)

lemma join_nonempty: "labels_ok ls \<Longrightarrow> join ls = [] \<longleftrightarrow> ls = []"
  by (cases ls) (auto simp: join_Cons)

lemma dot_append_join:
  assumes "labels_ok vs" "vs \<noteq> []"
  shows "dot_append a (join vs) = foldl dot_append a vs"
proof (cases "a = []")
  case True
  then show ?thesis by (simp add: dot_append_def join_def)
next
  case False
  then show ?thesis using assms by (cases vs) (auto simp: foldl_dot dot_append_def join_Cons)
qed

lemma length_wire: "labels_ok ls \<Longrightarrow> ls \<noteq> [] \<Longrightarrow> length (wire ls) = Suc (length (join ls))"
proof (induction ls)
  case (Cons l ls)
  have "length (concat (map (\<lambda>l. 46 # l) ls)) = length (wire ls)" for ls :: "bytes list"
    by (induction ls) simp_all
  then show ?case using Cons.prems by (simp add: join_Cons)
qed simp

lemma length_byte: "length l \<le> 63 \<Longrightarrow> unat (word_of_nat (length l) :: u8) = length l"
  by (simp add: unsigned_of_nat take_bit_nat_eq_self)

lemma length_byte_nonzero: "l \<noteq> [] \<Longrightarrow> length l \<le> 63 \<Longrightarrow> (word_of_nat (length l) :: u8) \<noteq> 0"
  using length_byte [of l] by (metis length_0_conv unat_0)

lemma length_byte_label:
  assumes "length l \<le> 63"
  shows "drop_bit 6 (word_of_nat (length l) :: u8) \<noteq> 3" "\<not> MAX_LABEL_LEN < unat (word_of_nat (length l) :: u8)"
proof -
  have "unat (drop_bit 6 (word_of_nat (length l) :: u8)) = length l div 64"
    by (simp only: unat_drop_bit_eq length_byte [OF assms]) (simp add: drop_bit_eq_div)
  also have "\<dots> = 0" using assms by simp
  finally have "drop_bit 6 (word_of_nat (length l) :: u8) = 0" by (simp add: unat_eq_zero)
  then show "drop_bit 6 (word_of_nat (length l) :: u8) \<noteq> 3" by simp
  show "\<not> MAX_LABEL_LEN < unat (word_of_nat (length l) :: u8)"
    using assms by (simp add: MAX_LABEL_LEN_def length_byte)
qed

lemma wire_nonzero: "labels_ok ls \<Longrightarrow> 0 \<notin> set (wire ls)"
  by (induction ls) (auto simp: length_byte_nonzero dest: length_byte_nonzero)

section \<open>Reading\<close>

abbreviation rd :: "bytes \<Rightarrow> nat \<Rightarrow> nat list \<Rightarrow> buffer" where
  "rd d p ls \<equiv> \<lparr>mBuffer = d, mBufferPtr = p, mLinkPos = ls\<rparr>"

lemma getBytes_at:
  assumes "length d \<le> 512" "at d p x" "unat k = length x"
  shows "getBytes k (rd d p ls) = Inr (x, rd d (p + length x) ls)"
proof -
  have "p + length x \<le> length d" using assms(2) by (simp add: at_def)
  then have "buffer_ok (rd d p ls)" "unat k < 100000" using assms by (auto simp: buffer_ok_def)
  then show ?thesis using assms by (simp add: getBytes_ok at_take)
qed

lemma get8bits_at:
  assumes "length d \<le> 512" "at d p [c]"
  shows "get8bits (rd d p ls) = Inr (c, rd d (Suc p) ls)"
  using getBytes_at [OF assms, of 1] by (simp add: get8bits_def yield_def)

lemma name_loop_labels:
  assumes "length d \<le> 512" "labels_ok us" "at d p (wire us)"
  shows "name_loop c a (rd d p ls) = name_loop c (foldl dot_append a us) (rd d (p + length (wire us)) ls)"
  using assms(2,3)
proof (induction us arbitrary: a p)
  case (Cons l us)
  have l: "l \<noteq> []" "length l \<le> 63" and us: "labels_ok us" "at d (Suc p + length l) (wire us)"
    using Cons.prems by auto
  have "get8bits (rd d p ls) = Inr (word_of_nat (length l), rd d (Suc p) ls)"
    using Cons.prems(2) by (intro get8bits_at [OF assms(1)]) auto
  moreover have "getBytes (ucast (word_of_nat (length l) :: u8)) (rd d (Suc p) ls) = Inr (l, rd d (Suc p + length l) ls)"
    using Cons.prems(2) l by (intro getBytes_at [OF assms(1)]) (auto simp: unat_ucast_byte32 length_byte)
  ultimately have "name_loop c a (rd d p ls) = name_loop c (dot_append a l) (rd d (Suc p + length l) ls)"
    using length_byte_nonzero [OF l] length_byte_label [OF l(2)]
    by (subst name_loop.simps) simp
  then show ?case using Cons.IH [OF us] by (simp add: ac_simps)
qed simp

lemma name_loop_end:
  assumes "length d \<le> 512" "at d p [0]"
  shows "name_loop c a (rd d p ls) = Inr (a, rd d (Suc p) ls)"
  by (subst name_loop.simps) (simp add: get8bits_at [OF assms])

lemma name_direct:
  assumes "length d \<le> 512" "labels_ok us" "at d p (wire us @ [0])" "length (join us) \<le> 255" "p \<notin> set ls"
  shows "getDnsDomainName c (rd d p ls) = Inr (join us, rd d (p + length (wire us) + 1) ls)"
proof -
  have "name_loop c [] (rd d p (ls @ [p])) = Inr (join us, rd d (p + length (wire us) + 1) (ls @ [p]))"
    using assms(1-3) by (simp add: name_loop_labels [of d us] name_loop_end join_def)
  then show ?thesis using assms(4,5)
    by (subst getDnsDomainName.simps) (simp add: finish_name_def MAX_DOMAIN_LEN_def)
qed

text \<open>A link: two bytes with the address in their low 14 bits.\<close>

definition link :: "nat \<Rightarrow> bytes" where
  "link q = [word_of_nat (192 + q div 256), word_of_nat (q mod 256)]"

lemma link_bytes:
  assumes "q < 16384"
  shows "drop_bit 6 (link q ! 0) = 3" "link_addr (link q ! 0) (link q ! 1) = q" "link q ! 0 \<noteq> 0"
proof -
  have q: "q div 256 < 64" using assms by auto
  have hi: "unat (word_of_nat (192 + q div 256) :: u8) = 192 + q div 256"
    using q by (simp add: unsigned_of_nat take_bit_nat_eq_self del: of_nat_add)
  have "unat (drop_bit 6 (word_of_nat (192 + q div 256) :: u8)) = 3"
    by (simp only: unat_drop_bit_eq hi) (use q in \<open>simp add: drop_bit_eq_div\<close>)
  then show "drop_bit 6 (link q ! 0) = 3" by (simp add: link_def word_unat_eq_iff del: of_nat_add)
  show "link q ! 0 \<noteq> 0" using hi by (auto simp: link_def simp del: of_nat_add)
  have "unat ((word_of_nat (192 + q div 256) :: u8) AND 63) = (192 + q div 256) mod 64"
  proof -
    have "(word_of_nat (192 + q div 256) :: u8) AND 63 = take_bit 6 (word_of_nat (192 + q div 256))"
      by (simp add: take_bit_eq_mask mask_eq_exp_minus_1 del: of_nat_add)
    then show ?thesis by (simp only: unsigned_take_bit_eq hi) (simp add: take_bit_eq_mod)
  qed
  also have "\<dots> = q div 256" using q by (simp add: mod_if)
  finally have "unat ((word_of_nat (192 + q div 256) :: u8) AND 63) = q div 256" .
  moreover have "unat (word_of_nat (q mod 256) :: u8) = q mod 256"
    by (simp add: unsigned_of_nat take_bit_eq_mod)
  ultimately show "link_addr (link q ! 0) (link q ! 1) = q"
    by (simp add: link_addr_def link_def get16_value del: of_nat_add)
qed

lemma name_linked:
  assumes "length d \<le> 512" "labels_ok (us @ vs)" "at d p (wire us @ link q)" "at d q (wire vs @ [0])"
    "vs \<noteq> []" "q \<noteq> p" "p + length (wire us) + 2 < length d" "length (join (us @ vs)) \<le> 255"
  shows "getDnsDomainName True (rd d p []) = Inr (join (us @ vs), rd d (p + length (wire us) + 2) [])"
proof -
  let ?p = "p + length (wire us)"
  have q: "q < length d" using assms(4) by (auto simp: at_def)
  then have q': "q < 16384" using assms(1) by simp
  have J: "dot_append (join us) (join vs) = join (us @ vs)"
    using dot_append_join [of vs "join us"] assms(2,5) by (simp add: join_def)
  have "length (join vs) \<le> length (dot_append (join us) (join vs))" by (simp add: dot_append_def)
  then have "length (join vs) \<le> length (join (us @ vs))" by (simp only: J)
  then have name: "getDnsDomainName True (rd d q [p]) = Inr (join vs, rd d (q + length (wire vs) + 1) [p])"
    using name_direct [OF assms(1) _ assms(4), of "[p]" True] assms(2,6,8) by simp
  have get: "get8bits (rd d ?p [p]) = Inr (link q ! 0, rd d (Suc ?p) [p])"
      "get8bits (rd d (Suc ?p) [p]) = Inr (link q ! 1, rd d (Suc (Suc ?p)) [p])"
    using assms(3) by (auto intro!: get8bits_at [OF assms(1)] simp: link_def)
  have "name_loop True (join us) (rd d ?p [p]) = Inr (join (us @ vs), rd d (?p + 2) [p])"
    using q assms(2,5,7) name link_bytes [OF q']
    by (subst name_loop.simps) (simp add: get setPos_def J)
  then have "name_loop True [] (rd d p [p]) = Inr (join (us @ vs), rd d (?p + 2) [p])"
    using assms(1-3) by (simp add: name_loop_labels [of d us] join_def)
  then show ?thesis using assms(8)
    by (subst getDnsDomainName.simps) (simp add: finish_name_def MAX_DOMAIN_LEN_def)
qed


lemma name_keeps:
  "getDnsDomainName c b = Inr (n, b') \<Longrightarrow> mBuffer b' = mBuffer b"
  "name_loop c' d b1 = Inr (n', b1') \<Longrightarrow> mBuffer b1' = mBuffer b1"
proof (induction c b and c' d b1 arbitrary: n b' and n' b1' rule: getDnsDomainName_name_loop.induct)
  case (1 c b)
  from 1(2) obtain m b2 where "name_loop c [] (b\<lparr>mLinkPos := mLinkPos b @ [mBufferPtr b]\<rparr>) = Inr (m, b2)"
      "mBuffer b' = mBuffer b2" "mBufferPtr b \<notin> set (mLinkPos b)"
    unfolding getDnsDomainName.simps [of c b] finish_name_def by (auto simp: follow_Inr split: if_splits)
  then show ?case using 1(1) [of m b2] by simp
next
  case (2 c domain b)
  from 2(3) obtain x b2 where g: "get8bits b = Inr (x, b2)"
    unfolding name_loop.simps [of c domain b] by (elim follow_Inr [THEN iffD1, THEN exE] exE conjE)
  have b2: "mBuffer b2 = mBuffer b" using get8bits_Inr [OF g] by simp
  note eq = 2(3) [unfolded name_loop.simps [of c domain b] follow_step(1) [where m = get8bits, OF g]]
  consider "x = 0" | "x \<noteq> 0" "drop_bit 6 x = 3" | "x \<noteq> 0" "drop_bit 6 x \<noteq> 3" by blast
  then show ?case
  proof cases
    case 2
    from eq 2 have "c" by (auto split: if_splits)
    with eq 2 obtain y b3 b4 l b5 b6 where st: "get8bits b2 = Inr (y, b3)" "setPos (link_addr x y) b3 = Inr ((), b4)"
        "getDnsDomainName True b4 = Inr (l, b5)" "setPos (mBufferPtr b3) b5 = Inr ((), b6)" "b1' = b6"
      by (auto simp: follow_Inr)
    then have "mBuffer b5 = mBuffer b4" using "2.IH"(1) [OF g 2 _ st(1,2) st(3)] \<open>c\<close> by simp
    then show ?thesis using b2 get8bits_Inr [OF st(1)] setPos_Inr [OF st(2)] setPos_Inr [OF st(4)] st(5) by simp
  next
    case 3
    then have "\<not> MAX_LABEL_LEN < unat x" using eq by (auto split: if_splits)
    with eq 3 obtain l b3 where st: "getBytes (ucast x) b2 = Inr (l, b3)"
        "name_loop c (dot_append domain l) b3 = Inr (n', b1')"
      by (auto simp: follow_Inr)
    then have "mBuffer b1' = mBuffer b3"
      using "2.IH"(2) [OF g 3 _ st] \<open>\<not> MAX_LABEL_LEN < unat x\<close> by simp
    then show ?thesis using b2 getBytes_Inr [OF st(1)] by simp
  qed (use eq b2 in auto)
qed

lemma inside_Inl: "inside Q r \<Longrightarrow> (\<exists>x. r = Inr x) \<or> r = Inl Exception"
  by (cases r) (auto simp: inside_def)

text \<open>A message that ends with a compressed domain name cannot be decoded: whatever a link that occupies
  the last two bytes points to, the reader wants to set the cursor back behind it, which is the end of
  the buffer, and gives up with an exception.\<close>

theorem name_link_at_end:
  assumes "length d \<le> 512" "labels_ok us" "at d p (wire us @ link q)" "q < 16384"
    "p + length (wire us) + 2 = length d"
  shows "getDnsDomainName True (rd d p []) = Inl Exception"
proof -
  let ?p = "p + length (wire us)"
  have get: "get8bits (rd d ?p [p]) = Inr (link q ! 0, rd d (Suc ?p) [p])"
      "get8bits (rd d (Suc ?p) [p]) = Inr (link q ! 1, rd d (Suc (Suc ?p)) [p])"
    using assms(3) by (auto intro!: get8bits_at [OF assms(1)] simp: link_def)
  have step: "name_loop True (join us) (rd d ?p [p]) = follow (setPos q) (\<lambda>_. follow (getDnsDomainName True)
      (\<lambda>linkDomain. follow (setPos (length d)) (\<lambda>_ b. Inr (dot_append (join us) linkDomain, b)))) (rd d (length d) [p])"
    using link_bytes [OF assms(4)] assms(5) by (subst name_loop.simps) (simp add: get)
  have "\<dots> = Inl Exception"
  proof (cases "q < length d")
    case True
    then have ok: "buffer_ok (rd d q [p])" using assms(1) by (simp add: buffer_ok_def)
    have set_q: "setPos q (rd d (length d) [p]) = Inr ((), rd d q [p])" using True by (simp add: setPos_def)
    have "follow (getDnsDomainName True) (\<lambda>linkDomain. follow (setPos (length d)) (\<lambda>_ b. Inr (dot_append (join us) linkDomain, b)))
        (rd d q [p]) = Inl Exception"
    proof (cases "getDnsDomainName True (rd d q [p])")
      case (Inl e)
      then show ?thesis using inside_Inl [OF name_inside(1) [OF ok, of True]] by simp
    next
      case (Inr r)
      obtain l b where r: "r = (l, b)" by fastforce
      then have "mBuffer b = d" using name_keeps(1) [of True "rd d q [p]" l b] Inr by simp
      then show ?thesis using Inr r by (simp add: follow_Inl setPos_def)
    qed
    then show ?thesis by (simp only: follow_step(1) [where m = "setPos q", OF set_q])
  next
    case False
    then show ?thesis by (simp add: follow_Inl setPos_def)
  qed
  then have "name_loop True [] (rd d p [p]) = Inl Exception"
    using assms(1-3) step by (simp add: name_loop_labels [of d us] join_def)
  then show ?thesis by (subst getDnsDomainName.simps) (simp add: finish_name_def)
qed

text \<open>The name of the alias is \<open>a\<close> and a link, in a buffer that ends there.\<close>

lemma name_link_at_end_witness:
  "getDnsDomainName True (rd [1, 99, 0, 1, 97, 192, 0] 3 []) = Inl Exception"
  by (rule name_link_at_end [of _ "[[97]]" _ 0]) (simp_all add: link_def)

section \<open>Writing\<close>

definition written :: "buffer \<Rightarrow> bytes" where
  "written b = take (mBufferPtr b) (mBuffer b)"

definition writable :: "buffer \<Rightarrow> bool" where
  "writable b = (mBufferPtr b \<le> length (mBuffer b) \<and> length (mBuffer b) \<le> 16384)"

text \<open>A writer adds \<open>y\<close> behind what is written.\<close>

definition adds :: "buffer \<Rightarrow> bytes \<Rightarrow> buffer \<Rightarrow> bool" where
  "adds b y b' = (writable b' \<and> written b' = written b @ y \<and> length (mBuffer b') = length (mBuffer b)
     \<and> mBufferPtr b' = mBufferPtr b + length y)"

lemma length_written: "writable b \<Longrightarrow> length (written b) = mBufferPtr b"
  by (simp add: written_def writable_def)

lemma adds_trans: "adds b x c \<Longrightarrow> adds c y d \<Longrightarrow> adds b (x @ y) d"
  by (simp add: adds_def)

lemma adds_none: "writable b \<Longrightarrow> adds b [] b"
  by (simp add: adds_def)

text \<open>The action appends exactly \<open>y\<close>, or there is no room for it and it throws.\<close>

definition puts :: "unit buf \<Rightarrow> bytes \<Rightarrow> buffer \<Rightarrow> bool" where
  "puts m y b = (if mBufferPtr b + length y \<le> length (mBuffer b) then \<exists>b'. m b = Inr ((), b') \<and> adds b y b'
     else m b = Inl Exception)"

lemma puts_Inr: "puts m y b \<Longrightarrow> m b = Inr (u, b') \<Longrightarrow> adds b y b'"
  by (auto simp: puts_def split: if_splits)

lemma puts_room: "puts m y b \<Longrightarrow> mBufferPtr b + length y \<le> length (mBuffer b) \<Longrightarrow> \<exists>b'. m b = Inr ((), b') \<and> adds b y b'"
  by (simp add: puts_def)

lemma puts_follow:
  assumes "puts m y b" "\<And>b'. adds b y b' \<Longrightarrow> puts (f ()) z b'"
  shows "puts (follow m f) (y @ z) b"
proof (cases "mBufferPtr b + length y \<le> length (mBuffer b)")
  case True
  then obtain b' where b': "m b = Inr ((), b')" "adds b y b'" using puts_room [OF assms(1)] by auto
  have "mBufferPtr b' = mBufferPtr b + length y" "length (mBuffer b') = length (mBuffer b)"
    using b'(2) by (simp_all add: adds_def)
  moreover have "adds b (y @ z) d" if "adds b' z d" for d by (rule adds_trans [OF b'(2) that])
  ultimately show ?thesis using assms(2) [OF b'(2)] b'(1) by (auto simp: puts_def)
next
  case False
  then show ?thesis using assms(1) by (simp add: puts_def)
qed

lemma puts_yield: "writable b \<Longrightarrow> puts (yield ()) [] b"
  by (simp add: puts_def yield_def adds_none) (simp add: writable_def)

lemma adds_writable: "adds b y b' \<Longrightarrow> writable b'" and adds_written: "adds b y b' \<Longrightarrow> written b' = written b @ y"
  by (simp_all add: adds_def)

lemma store_puts:
  assumes "writable b" "length d \<le> 16384"
  shows "puts (store d) d b"
proof -
  have l: "length (mBuffer b) \<le> 16384" "mBufferPtr b \<le> 16384" using assms(1) by (auto simp: writable_def)
  have u: "unat (word_of_nat n :: u32) = n" if "n \<le> 40000" for n
    using that by (simp add: unsigned_of_nat take_bit_nat_eq_self)
  have "unat (word_of_nat (mBufferPtr b) + word_of_nat (length d) :: u32) = mBufferPtr b + length d"
    using u [of "mBufferPtr b + length d"] l assms(2) by simp
  then have "checkAvailableSpace (word_of_nat (length d)) b
      = (if length (mBuffer b) < mBufferPtr b + length d then Inl Exception else Inr ((), b))"
    using u [of "length (mBuffer b)"] l by (simp add: checkAvailableSpace_def word_less_nat_alt)
  then show ?thesis using assms(1)
    by (auto simp: puts_def store_def follow_def adds_def writable_def written_def)
qed

lemma putBytes_puts: "writable b \<Longrightarrow> length d \<le> 16384 \<Longrightarrow> puts (putBytes d) d b"
  by (simp add: putBytes_def store_puts puts_yield)

definition wire16 :: "u32 \<Rightarrow> bytes" where
  "wire16 v = [ucast (drop_bit 8 v), ucast v]"

definition wire32 :: "u32 \<Rightarrow> bytes" where
  "wire32 v = [ucast (drop_bit 24 v), ucast (drop_bit 16 v), ucast (drop_bit 8 v), ucast v]"

lemma length_wires [simp]: "length (wire16 v) = 2" "length (wire32 v) = 4"
  by (simp_all add: wire16_def wire32_def)

lemma put_ints:
  "put8bits c = store [c]" "put16bits v = store (wire16 v)" "put32bits v = store (wire32 v)"
proof -
  show "put8bits c = store [c]"
  proof -
    have "c AND 0xFF = c" by (rule byte_eqI; simp add: bit_simps)
    then show ?thesis by (simp add: put8bits_def)
  qed
  have "(ucast (drop_bit 8 (v AND 0xFF00)) :: u8) = ucast (drop_bit 8 v)" "(ucast (v AND 0xFF) :: u8) = ucast v"
    by (rule byte_eqI; simp add: bit_simps)+
  then show "put16bits v = store (wire16 v)" by (simp add: put16bits_def wire16_def)
  have "(ucast (drop_bit 24 (v AND 0xFF000000)) :: u8) = ucast (drop_bit 24 v)"
    "(ucast (drop_bit 16 (v AND 0x00FF0000)) :: u8) = ucast (drop_bit 16 v)"
    "(ucast (drop_bit 8 (v AND 0x0000FF00)) :: u8) = ucast (drop_bit 8 v)"
    "(ucast (v AND 0x000000FF) :: u8) = ucast v"
    by (rule byte_eqI; simp add: bit_simps)+
  then show "put32bits v = store (wire32 v)" by (simp add: put32bits_def wire32_def)
qed

lemma put_int_puts:
  "writable b \<Longrightarrow> puts (put8bits c) [c] b" "writable b \<Longrightarrow> puts (put16bits v) (wire16 v) b" "writable b \<Longrightarrow> puts (put32bits v) (wire32 v) b"
  by (simp_all add: put_ints store_puts)

section \<open>The labels of a dotted name\<close>

fun positions :: "nat \<Rightarrow> bytes list \<Rightarrow> nat list" where
  "positions p [] = []"
| "positions p (l # ls) = p # positions (p + length l + 1) ls"

lemma label_chars:
  assumes "46 \<notin> set l" "length l \<le> length tail"
  shows "label_loop n lp (length pre) (pre @ tail) idx (l @ rest)
    = label_loop (n + length l) lp (length pre + length l) (pre @ l @ drop (length l) tail) idx rest"
  using assms
proof (induction l arbitrary: n pre tail)
  case (Cons c l)
  obtain t tail' where tail: "tail = t # tail'" using Cons.prems(2) by (cases tail) auto
  have "label_loop n lp (length pre) (pre @ tail) idx ((c # l) @ rest)
      = label_loop (n + 1) lp (length (pre @ [c])) ((pre @ [c]) @ tail') idx (l @ rest)"
    using Cons.prems(1) tail by simp
  also have "\<dots> = label_loop (n + 1 + length l) lp (length (pre @ [c]) + length l) ((pre @ [c]) @ l @ drop (length l) tail') idx rest"
    using Cons.prems tail by (intro Cons.IH) auto
  finally show ?case by (simp add: tail)
qed simp

lemma one_label:
  assumes "46 \<notin> set l" "length l \<le> length tail"
  shows "label_loop 0 (length pre) (length pre + 1) (pre @ d # tail) idx (l @ rest)
    = label_loop (length l) (length pre) (length pre + 1 + length l) (pre @ d # l @ drop (length l) tail) idx rest"
  using label_chars [OF assms, of 0 "length pre" "pre @ [d]" idx rest] by simp

lemma label_dot:
  assumes "46 \<notin> set l" "length l \<le> length tail" "length l \<le> 63" "rest \<noteq> []"
  shows "label_loop 0 (length pre) (length pre + 1) (pre @ d # tail) idx (l @ 46 # rest)
    = label_loop 0 (length (pre @ wire [l])) (length (pre @ wire [l]) + 1) ((pre @ wire [l]) @ drop (length l) tail)
        (idx @ [length pre]) rest"
  by (subst one_label [OF assms(1,2)]) (use assms(3,4) in \<open>simp add: MAX_LABEL_LEN_def list_update_append\<close>)

lemma split_tail:
  assumes "n < length tail"
  obtains a t u where "tail = a @ t # u" "length a = n"
  using id_take_nth_drop [OF assms] assms by (metis length_take min_absorb2 nat_less_le)

lemma join_more: "l \<noteq> [] \<Longrightarrow> labels_ok ls \<Longrightarrow> ls \<noteq> [] \<Longrightarrow> join (l # ls) = l @ 46 # join ls"
  by (cases ls) (auto simp: join_Cons)

lemma label_loop_join:
  assumes "labels_ok ls" "ls \<noteq> []" "length (join ls) < length tail"
  shows "label_loop 0 (length pre) (length pre + 1) (pre @ d # tail) idx (join ls)
    = Inr (pre @ wire ls @ 0 # drop (length (wire ls)) tail, idx @ positions (length pre) ls, length pre + length (wire ls) + 1)"
  using assms
proof (induction ls arbitrary: pre d tail idx)
  case (Cons l ls)
  have l: "l \<noteq> []" "length l \<le> 63" "46 \<notin> set l" "labels_ok ls" using Cons.prems by auto
  have "length l < length tail" using Cons.prems l by (simp add: join_Cons)
  then obtain a t u where t: "tail = a @ t # u" "length a = length l" by (rule split_tail)
  show ?case
  proof (cases "ls = []")
    case True
    have "label_loop 0 (length pre) (length pre + 1) (pre @ d # tail) idx (l @ [])
        = label_loop (length l) (length pre) (length pre + 1 + length l) (pre @ d # l @ t # u) idx []"
      using one_label [of l tail pre d idx "[]"] l(3) t by simp
    then show ?thesis using True l t by (simp add: MAX_LABEL_LEN_def list_update_append)
  next
    case False
    have ne: "join ls \<noteq> []" using False join_nonempty [OF l(4)] by simp
    have len: "length (join ls) < length u" using Cons.prems(3) t l False by (simp add: join_more)
    have "label_loop 0 (length pre) (length pre + 1) (pre @ d # tail) idx (l @ 46 # join ls)
        = label_loop 0 (length (pre @ wire [l])) (length (pre @ wire [l]) + 1) ((pre @ wire [l]) @ t # u) (idx @ [length pre]) (join ls)"
      using label_dot [of l tail "join ls" pre d idx] l t ne by simp
    also have "\<dots> = Inr ((pre @ wire [l]) @ wire ls @ 0 # drop (length (wire ls)) u, (idx @ [length pre]) @ positions (length (pre @ wire [l])) ls,
        length (pre @ wire [l]) + length (wire ls) + 1)"
      by (rule Cons.IH [OF l(4) False len])
    finally show ?thesis using l False t by (simp add: join_more)
  qed
qed simp

text \<open>A dot at the end: no zero byte is stored.\<close>

lemma label_loop_dot:
  assumes "labels_ok ls" "ls \<noteq> []" "length (join ls) \<le> length tail"
  shows "label_loop 0 (length pre) (length pre + 1) (pre @ d # tail) idx (join ls @ [46])
    = Inr (pre @ wire ls @ drop (length (join ls)) tail, idx @ positions (length pre) ls, length pre + length (wire ls))"
  using assms
proof (induction ls arbitrary: pre d tail idx)
  case (Cons l ls)
  have l: "l \<noteq> []" "length l \<le> 63" "46 \<notin> set l" "labels_ok ls" using Cons.prems by auto
  show ?case
  proof (cases "ls = []")
    case True
    then show ?thesis using one_label [of l tail pre d idx "[46]"] l Cons.prems
      by (simp add: MAX_LABEL_LEN_def list_update_append)
  next
    case False
    then have "length l < length tail" using Cons.prems l by (simp add: join_more)
    then obtain a t u where t: "tail = a @ t # u" "length a = length l" by (rule split_tail)
    have len: "length (join ls) \<le> length u" using Cons.prems(3) t l False by (simp add: join_more)
    have "label_loop 0 (length pre) (length pre + 1) (pre @ d # tail) idx (l @ 46 # join ls @ [46])
        = label_loop 0 (length (pre @ wire [l])) (length (pre @ wire [l]) + 1) ((pre @ wire [l]) @ t # u) (idx @ [length pre]) (join ls @ [46])"
      using label_dot [of l tail "join ls @ [46]" pre d idx] l t by simp
    also have "\<dots> = Inr ((pre @ wire [l]) @ wire ls @ drop (length (join ls)) u, (idx @ [length pre]) @ positions (length (pre @ wire [l])) ls,
        length (pre @ wire [l]) + length (wire ls))"
      by (rule Cons.IH [OF l(4) False len])
    finally show ?thesis using l False t by (simp add: join_more)
  qed
qed simp


section \<open>Compression\<close>

text \<open>What is appended for the labels: \<open>z\<close> is the end of the stored name, a zero byte or, behind a
  final dot, nothing.\<close>

fun compressed :: "bytes \<Rightarrow> bytes \<Rightarrow> bytes list \<Rightarrow> bytes" where
  "compressed w z [] = [0]"
| "compressed w z (l # ls) = (case find_tip w (wire (l # ls) @ z) of
     Some q \<Rightarrow> link q
   | None \<Rightarrow> wire [l] @ compressed (w @ wire [l]) z ls)"

lemma find_tip_Some:
  assumes "find_tip w s = Some q"
  shows "q + length s < length w \<and> at w q s"
proof -
  have "\<exists>i<length [0..<length w - length s]. take (length s) (drop ([0..<length w - length s] ! i) w) = s
      \<and> q = [0..<length w - length s] ! i"
    using assms unfolding find_tip_def find_Some_iff by auto
  then show ?thesis by (auto simp: at_take)
qed

lemma wire16_link: "q < 16384 \<Longrightarrow> wire16 (0xC000 + word_of_nat q) = link q"
proof -
  assume q: "q < 16384"
  have v: "unat (0xC000 + word_of_nat q :: u32) = 49152 + q"
  proof -
    have "unat (word_of_nat q :: u32) = q" using q by (simp add: unsigned_of_nat take_bit_nat_eq_self)
    then show ?thesis using q by (simp add: unat_word_ariths)
  qed
  have d: "(49152 + q) div 256 = 192 + q div 256" "(49152 + q) mod 256 = q mod 256"
    using div_mult_self1 [of 256 q 192] mod_mult_self1 [of q 192 256] by (simp_all add: add.commute)
  have c: "192 + q div 256 < 256" using q by auto
  have "unat (ucast (drop_bit 8 (0xC000 + word_of_nat q :: u32)) :: u8) = 192 + q div 256"
    by (simp only: unsigned_ucast_eq unat_drop32 v) (use c d(1) in \<open>simp add: take_bit_nat_eq_self\<close>)
  moreover have "unat (word_of_nat (192 + q div 256) :: u8) = 192 + q div 256"
    by (simp only: unsigned_of_nat) (use c in \<open>simp add: take_bit_nat_eq_self\<close>)
  ultimately have 1: "ucast (drop_bit 8 (0xC000 + word_of_nat q :: u32)) = (word_of_nat (192 + q div 256) :: u8)"
    by (simp only: word_unat_eq_iff)
  have "unat (ucast (0xC000 + word_of_nat q :: u32) :: u8) = q mod 256"
    by (simp only: unsigned_ucast_eq v) (simp add: take_bit_eq_mod d(2))
  moreover have "unat (word_of_nat (q mod 256) :: u8) = q mod 256"
    by (simp only: unsigned_of_nat) (simp add: take_bit_eq_mod)
  ultimately have 2: "ucast (0xC000 + word_of_nat q :: u32) = (word_of_nat (q mod 256) :: u8)"
    by (simp only: word_unat_eq_iff)
  show ?thesis by (simp only: wire16_def link_def 1 2)
qed

definition put_rest :: "bytes \<Rightarrow> nat list \<Rightarrow> unit buf" where
  "put_rest domain idx = follow (put_labels domain idx) (\<lambda>found. if found then yield () else put8bits 0)"

lemma put_rest_puts:
  assumes "labels_ok ls" "writable b"
  shows "puts (put_rest (pre @ wire ls @ z) (positions (length pre) ls)) (compressed (written b) z ls) b"
  using assms
proof (induction ls arbitrary: pre b)
  case Nil
  have "put_rest (pre @ wire [] @ z) (positions (length pre) []) b = put8bits 0 b"
    by (simp add: put_rest_def follow_def)
  then show ?case using put_int_puts(1) [OF Nil(2), of 0] by (simp add: puts_def)
next
  case (Cons l ls)
  let ?sub = "wire (l # ls) @ z"
  have sub: "drop (length pre) (pre @ wire (l # ls) @ z) = ?sub" by simp
  have l: "l \<noteq> []" "length l \<le> 63" "labels_ok ls" using Cons.prems(1) by auto
  show ?case
  proof (cases "find_tip (written b) ?sub")
    case (Some q)
    have "q < length (written b)" using find_tip_Some [OF Some] by simp
    then have q: "q < 16384" using Cons.prems(2) by (simp add: written_def writable_def)
    have "put_rest (pre @ wire (l # ls) @ z) (positions (length pre) (l # ls)) b
        = follow (put16bits (0xC000 + word_of_nat q)) (\<lambda>_. yield ()) b"
      using Some by (simp add: put_rest_def written_def follow_def yield_def split: sum.splits)
    moreover have "puts (follow (put16bits (0xC000 + word_of_nat q)) (\<lambda>_. yield ())) (wire16 (0xC000 + word_of_nat q) @ []) b"
      by (rule puts_follow [OF put_int_puts(2) [OF Cons.prems(2)]]) (blast intro: puts_yield adds_writable)
    ultimately show ?thesis using Some by (simp add: puts_def wire16_link [OF q])
  next
    case None
    have "take (unat (?sub ! 0) + 1) ?sub = wire [l]" using l by (simp add: length_byte)
    then have "put_rest (pre @ wire (l # ls) @ z) (positions (length pre) (l # ls)) b
        = follow (putBytes (wire [l])) (\<lambda>_. put_rest ((pre @ wire [l]) @ wire ls @ z) (positions (length (pre @ wire [l])) ls)) b"
      using None by (simp add: put_rest_def written_def follow_def split: sum.splits)
    moreover have "puts (follow (putBytes (wire [l])) (\<lambda>_. put_rest ((pre @ wire [l]) @ wire ls @ z) (positions (length (pre @ wire [l])) ls)))
        (wire [l] @ compressed (written b @ wire [l]) z ls) b"
    proof (rule puts_follow [OF putBytes_puts [OF Cons.prems(2)]])
      show "length (wire [l]) \<le> 16384" using l by simp
      fix b' assume b': "adds b (wire [l]) b'"
      then show "puts (put_rest ((pre @ wire [l]) @ wire ls @ z) (positions (length (pre @ wire [l])) ls))
          (compressed (written b @ wire [l]) z ls) b'"
        using Cons.IH [OF l(3) adds_writable [OF b'], of "pre @ wire [l]"] adds_written [OF b'] by (simp only:)
    qed
    ultimately show ?thesis using None by (simp add: puts_def)
  qed
qed

lemma putDnsDomainName_puts:
  assumes "labels_ok ls" "length (join ls) \<le> 254" "writable b"
  shows "puts (putDnsDomainName (join ls) True) (compressed (written b) [0] ls) b"
    "ls \<noteq> [] \<Longrightarrow> puts (putDnsDomainName (join ls @ [46]) True) (compressed (written b) [] ls) b"
    "puts (putDnsDomainName (join ls) False) (wire ls @ [0]) b"
proof -
  have arr: "replicate (MAX_DOMAIN_LEN + 1) (0::u8) = [] @ 0 # replicate 255 0"
    by (simp add: MAX_DOMAIN_LEN_def flip: replicate_Suc)
  have lw: "ls \<noteq> [] \<Longrightarrow> length (wire ls) = Suc (length (join ls))" by (rule length_wire [OF assms(1)])
  have empty: "join ls = [] \<longleftrightarrow> ls = []" by (rule join_nonempty [OF assms(1)])
  have loop: "ls \<noteq> [] \<Longrightarrow> label_loop 0 0 1 (replicate (MAX_DOMAIN_LEN + 1) 0) [] (join ls)
      = Inr (wire ls @ 0 # drop (length (wire ls)) (replicate 255 0), positions 0 ls, length (wire ls) + 1)"
    using label_loop_join [OF assms(1), of "replicate 255 0" "[]" 0 "[]"] assms(2) unfolding arr by simp
  have dot: "ls \<noteq> [] \<Longrightarrow> label_loop 0 0 1 (replicate (MAX_DOMAIN_LEN + 1) 0) [] (join ls @ [46])
      = Inr (wire ls @ drop (length (join ls)) (replicate 255 0), positions 0 ls, length (wire ls))"
    using label_loop_dot [OF assms(1), of "replicate 255 0" "[]" 0 "[]"] assms(2) unfolding arr by simp
  note rest = put_rest_puts [OF assms(1,3), of "[]", simplified]
  show "puts (putDnsDomainName (join ls) True) (compressed (written b) [0] ls) b"
  proof (cases "ls = []")
    case True
    then show ?thesis using put_int_puts(1) [OF assms(3), of 0] by (simp add: putDnsDomainName_def MAX_DOMAIN_LEN_def)
  next
    case False
    then show ?thesis using rest [of "[0]"] loop [OF False] assms(2) empty
      by (simp add: putDnsDomainName_def put_rest_def MAX_DOMAIN_LEN_def)
  qed
  show "puts (putDnsDomainName (join ls @ [46]) True) (compressed (written b) [] ls) b" if "ls \<noteq> []"
    using rest [of "[]"] dot [OF that] assms(2)
    by (simp add: putDnsDomainName_def put_rest_def MAX_DOMAIN_LEN_def)
  show "puts (putDnsDomainName (join ls) False) (wire ls @ [0]) b"
  proof (cases "ls = []")
    case True
    then show ?thesis using put_int_puts(1) [OF assms(3), of 0] by (simp add: putDnsDomainName_def MAX_DOMAIN_LEN_def)
  next
    case False
    then show ?thesis using putBytes_puts [OF assms(3), of "wire ls @ [0]"] loop [OF False] assms(2) empty lw
      by (simp add: putDnsDomainName_def MAX_DOMAIN_LEN_def)
  qed
qed

end
