(* ===== verification/Dnsimage.thy ===== *)
theory Dnsimage
  imports Dnswire
begin

text \<open>
  The bytes of a DNS message as images of values, and the round trip: what \<open>Message::encode\<close> writes,
  compressed names and lengths filled in later included, is what \<open>Message::decode\<close> reads.
\<close>

section \<open>Images\<close>

text \<open>
  The image of a value: it stands at a position of the message and ends at another. What a user of
  an encoding relies on: the writer leaves the image of the value, more bytes behind do not disturb
  it, and neither does the change of the low byte of a 16-bit zero before it, which is how
  \<open>ResourceRecord::encode\<close> fills in the length of the data.
\<close>

type_synonym 'a image = "bytes \<Rightarrow> nat \<Rightarrow> 'a \<Rightarrow> nat \<Rightarrow> bool"

fun images :: "'a image \<Rightarrow> 'a list image" where
  "images img d p [] e = (e = p \<and> p \<le> length d)"
| "images img d p (x # xs) e = (\<exists>m. img d p x m \<and> images img d m xs e)"

locale wire_image =
  fixes put :: "'a \<Rightarrow> unit buf" and img :: "'a image" and okv :: "'a \<Rightarrow> bool"
  assumes put_img: "okv x \<Longrightarrow> writable b \<Longrightarrow> put x b = Inr (u, b') \<Longrightarrow>
      (\<exists>y. adds b y b') \<and> img (written b') (mBufferPtr b) x (mBufferPtr b')"
    and img_append: "img d p x e \<Longrightarrow> img (d @ y) p x e"
    and img_patch: "img d p x e \<Longrightarrow> Suc (Suc r) \<le> p \<Longrightarrow> d ! r = 0 \<Longrightarrow> d ! Suc r = 0 \<Longrightarrow> img (d[Suc r := v]) p x e"
    and img_bound: "img d p x e \<Longrightarrow> p < e \<and> e \<le> length d"
    and img_take: "img d p x e \<Longrightarrow> img (take e d) p x e"
begin

lemma images_append: "images img d p xs e \<Longrightarrow> images img (d @ y) p xs e"
  by (induction xs arbitrary: p) (auto intro: img_append)

lemma images_bound: "images img d p xs e \<Longrightarrow> p \<le> e \<and> e \<le> length d \<and> (xs \<noteq> [] \<longrightarrow> p < e)"
  by (induction xs arbitrary: p) (auto, (fastforce dest: img_bound)+)

lemma images_patch:
  "images img d p xs e \<Longrightarrow> Suc (Suc r) \<le> p \<Longrightarrow> d ! r = 0 \<Longrightarrow> d ! Suc r = 0 \<Longrightarrow> images img (d[Suc r := v]) p xs e"
proof (induction xs arbitrary: p)
  case (Cons x xs)
  then obtain m where m: "img d p x m" "images img d m xs e" by auto
  then show ?case using Cons.IH [OF m(2)] Cons.prems img_patch [OF m(1)] img_bound [OF m(1)] by auto
qed simp

lemma images_take: "images img d p xs e \<Longrightarrow> images img (take e d) p xs e"
proof (induction xs arbitrary: p)
  case (Cons x xs)
  then obtain m where m: "img d p x m" "images img d m xs e" by auto
  have "m \<le> e" using images_bound [OF m(2)] by simp
  then have "take e d = take m d @ drop m (take e d)" by (metis append_take_drop_id min_absorb1 take_take)
  then have "img (take e d) p x m" using img_append [OF img_take [OF m(1)]] by metis
  then show ?case using Cons.IH [OF m(2)] by auto
qed simp

lemma images_prefix:
  assumes "images img d p xs e" "take e d' = take e d"
  shows "images img d' p xs e"
proof -
  have "images img (take e d' @ drop e d') p xs e"
    unfolding assms(2) by (rule images_append [OF images_take [OF assms(1)]])
  then show ?thesis by simp
qed

lemma put_images:
  "\<forall>x\<in>set xs. okv x \<Longrightarrow> writable b \<Longrightarrow> put_each put xs b = Inr (u, b') \<Longrightarrow>
    (\<exists>y. adds b y b') \<and> images img (written b') (mBufferPtr b) xs (mBufferPtr b')"
proof (induction xs arbitrary: b)
  case Nil
  then have "b' = b" by (simp add: yield_def)
  then show ?case using Nil adds_none length_written by fastforce
next
  case (Cons x xs)
  then obtain b1 where b1: "put x b = Inr ((), b1)" "put_each put xs b1 = Inr (u, b')"
    by (auto simp: follow_Inr)
  obtain y where y: "adds b y b1" and i: "img (written b1) (mBufferPtr b) x (mBufferPtr b1)"
    using put_img [OF _ _ b1(1)] Cons.prems by auto
  obtain z where z: "adds b1 z b'" and im: "images img (written b') (mBufferPtr b1) xs (mBufferPtr b')"
    using Cons.IH [OF _ adds_writable [OF y] b1(2)] Cons.prems by auto
  have "img (written b') (mBufferPtr b) x (mBufferPtr b1)"
    unfolding adds_written [OF z] by (rule img_append [OF i])
  then show ?case using im adds_trans [OF y z] by auto
qed

end

section \<open>Fields\<close>

datatype field = W16 u32 | W32 u32 | Raw bytes | Str bytes | Name bytes | Plain_name bytes

definition name_ok :: "bytes \<Rightarrow> bool" where
  "name_ok n = (length n \<le> 254 \<and> (\<exists>ls. labels_ok ls \<and> n = join ls))"

fun field_ok :: "field \<Rightarrow> bool" where
  "field_ok (W16 v) = (unat v < 65536)"
| "field_ok (W32 v) = True"
| "field_ok (Raw d) = (d \<noteq> [] \<and> length d \<le> 16384)"
| "field_ok (Str s) = (length s \<le> 255)"
| "field_ok (Name n) = name_ok n"
| "field_ok (Plain_name n) = name_ok n"

fun put_field :: "field \<Rightarrow> unit buf" where
  "put_field (W16 v) = put16bits v"
| "put_field (W32 v) = put32bits v"
| "put_field (Raw d) = putBytes d"
| "put_field (Str s) = putDnsCharacterString s"
| "put_field (Name n) = putDnsDomainName n True"
| "put_field (Plain_name n) = putDnsDomainName n False"

fun field_image :: "field image" where
  "field_image d p (W16 v) e = (unat v < 65536 \<and> at d p (wire16 v) \<and> e = p + 2)"
| "field_image d p (W32 v) e = (at d p (wire32 v) \<and> e = p + 4)"
| "field_image d p (Raw x) e = (x \<noteq> [] \<and> at d p x \<and> e = p + length x)"
| "field_image d p (Str s) e = (length s \<le> 255 \<and> at d p (word_of_nat (length s) # s) \<and> e = p + length s + 1)"
| "field_image d p (Plain_name n) e = (\<exists>ls. labels_ok ls \<and> n = join ls \<and> length n \<le> 254
     \<and> at d p (wire ls @ [0]) \<and> e = p + length (wire ls) + 1)"
| "field_image d p (Name n) e = (\<exists>us vs. labels_ok (us @ vs) \<and> n = join (us @ vs) \<and> length n \<le> 254
     \<and> (vs = [] \<and> at d p (wire us @ [0]) \<and> e = p + length (wire us) + 1
       \<or> vs \<noteq> [] \<and> (\<exists>q. at d p (wire us @ link q) \<and> at d q (wire vs @ [0]) \<and> q + length (wire vs) + 1 \<le> p
           \<and> e = p + length (wire us) + 2)))"

lemma length_link [simp]: "length (link q) = 2"
  by (simp add: link_def)

lemma compressed_cases:
  "\<exists>us vs. ls = us @ vs \<and> (vs = [] \<and> compressed w z ls = wire us @ [0]
     \<or> vs \<noteq> [] \<and> (\<exists>q. compressed w z ls = wire us @ link q \<and> find_tip (w @ wire us) (wire vs @ z) = Some q))"
proof (induction ls arbitrary: w)
  case (Cons l ls)
  show ?case
  proof (cases "find_tip w (wire (l # ls) @ z)")
    case None
    from Cons.IH [of "w @ wire [l]"] obtain us vs where "ls = us @ vs"
      "vs = [] \<and> compressed (w @ wire [l]) z ls = wire us @ [0] \<or> vs \<noteq> [] \<and> (\<exists>q. compressed (w @ wire [l]) z ls = wire us @ link q
         \<and> find_tip ((w @ wire [l]) @ wire us) (wire vs @ z) = Some q)" by blast
    then show ?thesis using None by (intro exI [of _ "l # us"] exI [of _ vs]) auto
  next
    case (Some q)
    then show ?thesis by (intro exI [of _ "[]"] exI [of _ "l # ls"]) simp
  qed
qed simp

text \<open>A tip lies before the name: it ends with a zero byte, and there is none in the labels.\<close>

lemma tip_before:
  assumes "labels_ok us" "find_tip (w @ wire us) (wire vs @ [0]) = Some q"
  shows "q + length (wire vs) + 1 \<le> length w" "at w q (wire vs @ [0])"
proof -
  have t: "q + length (wire vs) + 1 < length (w @ wire us)" "at (w @ wire us) q (wire vs @ [0])"
    using find_tip_Some [OF assms(2)] by simp_all
  then have z: "(w @ wire us) ! (q + length (wire vs)) = 0" by simp
  have "q + length (wire vs) < length w"
  proof (rule ccontr)
    assume "\<not> q + length (wire vs) < length w"
    then have "wire us ! (q + length (wire vs) - length w) = 0" "q + length (wire vs) - length w < length (wire us)"
      using z t(1) by (auto simp: nth_append)
    then show False using wire_nonzero [OF assms(1)] by (metis nth_mem)
  qed
  then show "q + length (wire vs) + 1 \<le> length w" by simp
  then show "at w q (wire vs @ [0])" using t(2) by (auto simp: at_def nth_append split: if_splits)
qed

lemma name_put_image:
  assumes "name_ok n" "writable b" "putDnsDomainName n True b = Inr (u, b')"
  shows "(\<exists>y. adds b y b') \<and> field_image (written b') (mBufferPtr b) (Name n) (mBufferPtr b')"
proof -
  obtain ls where ls: "labels_ok ls" "n = join ls" "length n \<le> 254" using assms(1) by (auto simp: name_ok_def)
  define w where "w = written b"
  have a: "adds b (compressed w [0] ls) b'"
    using puts_Inr [OF putDnsDomainName_puts(1) [OF ls(1) _ assms(2)]] ls assms(3) by (simp add: w_def)
  have w': "written b' = w @ compressed w [0] ls" and p: "mBufferPtr b = length w"
    and e: "mBufferPtr b' = length w + length (compressed w [0] ls)"
    using a length_written [OF assms(2)] by (simp_all add: adds_def w_def)
  obtain us vs where uv: "ls = us @ vs" and c: "vs = [] \<and> compressed w [0] ls = wire us @ [0]
     \<or> vs \<noteq> [] \<and> (\<exists>q. compressed w [0] ls = wire us @ link q \<and> find_tip (w @ wire us) (wire vs @ [0]) = Some q)"
    using compressed_cases [of ls w "[0]"] by blast
  have "field_image (written b') (mBufferPtr b) (Name n) (mBufferPtr b')"
    unfolding field_image.simps
  proof (intro exI conjI)
    show "labels_ok (us @ vs)" "n = join (us @ vs)" "length n \<le> 254" using ls uv by simp_all
    show "vs = [] \<and> at (written b') (mBufferPtr b) (wire us @ [0]) \<and> mBufferPtr b' = mBufferPtr b + length (wire us) + 1 \<or>
       vs \<noteq> [] \<and> (\<exists>q. at (written b') (mBufferPtr b) (wire us @ link q) \<and> at (written b') q (wire vs @ [0])
         \<and> q + length (wire vs) + 1 \<le> mBufferPtr b \<and> mBufferPtr b' = mBufferPtr b + length (wire us) + 2)"
      using c
    proof (elim disjE conjE exE)
      assume "vs = []" "compressed w [0] ls = wire us @ [0]"
      then show ?thesis using w' p e at_end [of w "wire us @ [0]"] by simp
    next
      fix q assume q: "vs \<noteq> []" "compressed w [0] ls = wire us @ link q" "find_tip (w @ wire us) (wire vs @ [0]) = Some q"
      have "labels_ok us" using ls uv by simp
      note t = tip_before [OF this q(3)]
      have "at (written b') q (wire vs @ [0])" unfolding w' by (rule at_extend [OF t(2)])
      moreover have "at (written b') (mBufferPtr b) (wire us @ link q)" unfolding w' p q(2) by (rule at_end)
      ultimately show ?thesis using q t(1) p e by auto
    qed
  qed
  then show ?thesis using a by blast
qed

lemma at_patch:
  assumes "at d q (wire vs @ [0])" "labels_ok vs" "vs \<noteq> []" "d ! r = 0" "d ! Suc r = 0"
  shows "at (d[Suc r := v]) q (wire vs @ [0])"
proof -
  have zero: "i = q + length (wire vs)" if "q \<le> i" "i \<le> q + length (wire vs)" "d ! i = 0" for i
  proof (rule ccontr)
    assume "i \<noteq> q + length (wire vs)"
    then have "wire vs ! (i - q) = 0" "i - q < length (wire vs)"
      using assms(1) that by (auto simp: at_def nth_append dest!: spec [of _ "i - q"] split: if_splits)
    then show False using wire_nonzero [OF assms(2)] by (metis nth_mem)
  qed
  have "wire vs \<noteq> []" using assms(3) by (cases vs) auto
  have "Suc r < q \<or> q + length (wire vs) < Suc r"
  proof (rule ccontr)
    assume n: "\<not> (Suc r < q \<or> q + length (wire vs) < Suc r)"
    then have "Suc r = q + length (wire vs)" using zero [of "Suc r"] assms(5) by simp
    moreover from this have "r = q + length (wire vs)"
      using zero [of r] assms(4) \<open>wire vs \<noteq> []\<close> by (cases "wire vs") auto
    ultimately show False by simp
  qed
  then show ?thesis by (intro at_update [OF assms(1)]) auto
qed

lemma field_image_transfer:
  assumes "field_image d p x e" "\<And>z. p + length z \<le> e \<Longrightarrow> at d p z \<Longrightarrow> at d' p z"
    "\<And>q vs. labels_ok vs \<Longrightarrow> vs \<noteq> [] \<Longrightarrow> q + length (wire vs) + 1 \<le> p \<Longrightarrow> at d q (wire vs @ [0]) \<Longrightarrow> at d' q (wire vs @ [0])"
  shows "field_image d' p x e"
proof (cases x)
  case (Name n)
  then obtain us vs where uv: "labels_ok (us @ vs)" "n = join (us @ vs)" "length n \<le> 254"
    and c: "vs = [] \<and> at d p (wire us @ [0]) \<and> e = p + length (wire us) + 1
       \<or> vs \<noteq> [] \<and> (\<exists>q. at d p (wire us @ link q) \<and> at d q (wire vs @ [0]) \<and> q + length (wire vs) + 1 \<le> p
           \<and> e = p + length (wire us) + 2)" using assms(1) by (simp only: field_image.simps) blast
  have "vs = [] \<and> at d' p (wire us @ [0]) \<and> e = p + length (wire us) + 1
       \<or> vs \<noteq> [] \<and> (\<exists>q. at d' p (wire us @ link q) \<and> at d' q (wire vs @ [0]) \<and> q + length (wire vs) + 1 \<le> p
           \<and> e = p + length (wire us) + 2)"
    using c
  proof (elim disjE conjE exE)
    assume "vs = []" "at d p (wire us @ [0])" "e = p + length (wire us) + 1"
    then show ?thesis using assms(2) [of "wire us @ [0]"] by simp
  next
    fix q assume q: "vs \<noteq> []" "at d p (wire us @ link q)" "at d q (wire vs @ [0])" "q + length (wire vs) + 1 \<le> p"
      "e = p + length (wire us) + 2"
    have "at d' p (wire us @ link q)" using q by (intro assms(2)) simp_all
    moreover have "labels_ok vs" using uv(1) by simp
    then have "at d' q (wire vs @ [0])" using q by (intro assms(3))
    ultimately show ?thesis using q by blast
  qed
  then show ?thesis unfolding Name field_image.simps using uv by blast
next
  case (Plain_name n)
  then obtain ls where l: "labels_ok ls" "n = join ls" "length n \<le> 254" "at d p (wire ls @ [0])" "e = p + length (wire ls) + 1"
    using assms(1) by (simp only: field_image.simps) blast
  then have "at d' p (wire ls @ [0])" by (intro assms(2)) simp_all
  then show ?thesis unfolding Plain_name field_image.simps using l by blast
qed (use assms(1) in \<open>simp_all only: field_image.simps, simp_all del: at_append at_Cons add: assms(2)\<close>)

interpretation fld: wire_image put_field field_image field_ok
proof
  fix x u b b' assume a: "field_ok x" "writable b" "put_field x b = Inr (u, b')"
  show "(\<exists>y. adds b y b') \<and> field_image (written b') (mBufferPtr b) x (mBufferPtr b')"
  proof (cases x)
    case (Name n)
    then show ?thesis using name_put_image [of n b u b'] a by simp
  next
    case (Plain_name n)
    then obtain ls where ls: "labels_ok ls" "n = join ls" "length n \<le> 254" using a(1) by (auto simp: name_ok_def)
    then have "adds b (wire ls @ [0]) b'"
      using puts_Inr [OF putDnsDomainName_puts(3) [OF ls(1) _ a(2)]] a(3) Plain_name by simp
    then show ?thesis using Plain_name ls length_written [OF a(2)] at_end [of "written b" "wire ls @ [0]"]
      by (auto simp: adds_def)
  next
    case (Str s)
    have "puts (putDnsCharacterString s) ([word_of_nat (length s)] @ s) b"
      unfolding putDnsCharacterString_def using a(1) Str
      by (intro puts_follow put_int_puts a(2) putBytes_puts) (auto intro: adds_writable)
    from puts_Inr [OF this] a(3) Str have "adds b (word_of_nat (length s) # s) b'" by simp
    then show ?thesis using Str a length_written [OF a(2)] at_end [of "written b" "word_of_nat (length s) # s"]
      by (auto simp: adds_def)
  next
    case (Raw d)
    then have "adds b d b'" using puts_Inr [OF putBytes_puts [OF a(2)]] a by simp
    then show ?thesis using Raw a length_written [OF a(2)] at_end [of "written b" d] by (auto simp: adds_def)
  next
    case (W16 v)
    then have "adds b (wire16 v) b'" using puts_Inr [OF put_int_puts(2) [OF a(2)]] a(3) by simp
    then show ?thesis using W16 a(1) length_written [OF a(2)] at_end [of "written b" "wire16 v"] by (auto simp: adds_def)
  next
    case (W32 v)
    then have "adds b (wire32 v) b'" using puts_Inr [OF put_int_puts(3) [OF a(2)]] a(3) by simp
    then show ?thesis using W32 length_written [OF a(2)] at_end [of "written b" "wire32 v"] by (auto simp: adds_def)
  qed
next
  fix d p x e y assume "field_image d p x e"
  then show "field_image (d @ y) p x e" by (rule field_image_transfer) (rule at_extend, assumption)+
next
  fix d p x e r v assume i: "field_image d p x e" and r: "Suc (Suc r) \<le> p" "d ! r = 0" "d ! Suc r = 0"
  show "field_image (d[Suc r := v]) p x e"
    by (rule field_image_transfer [OF i], rule at_update) (use r in \<open>auto intro: at_patch simp del: at_append at_Cons\<close>)
next
  fix d p x e assume "field_image d p x e"
  then show "p < e \<and> e \<le> length d" by (cases x) (auto simp: at_def wire16_def wire32_def)
next
  fix d p x e assume i: "field_image d p x e"
  have t: "at (take e d) q z" if "at d q z" "q + length z \<le> e" for q z using that by (auto simp: at_def)
  have "p < e" using i by (cases x) (auto simp: at_def wire16_def wire32_def)
  then show "field_image (take e d) p x e" by (intro field_image_transfer [OF i] t) auto
qed

end
