(* ===== verification/Dnsround.thy ===== *)
theory Dnsround
  imports Dnsimage
begin

text \<open>
  The round trip of DNS messages: the images of the fields are read back, then those of the data of
  the records, the records and the message.
\<close>

section \<open>Reading images\<close>

lemma wire16_value: "unat v < 65536 \<Longrightarrow> push_bit 8 (ucast (wire16 v ! 0)) + ucast (wire16 v ! 1) = v"
proof -
  assume v: "unat v < 65536"
  have "unat (ucast (drop_bit 8 v) :: u8) = unat v div 256" "unat (ucast v :: u8) = unat v mod 256"
    using v by (simp_all add: unsigned_ucast_eq unat_drop32 take_bit_eq_mod)
  then have "unat (push_bit 8 (ucast (wire16 v ! 0)) + ucast (wire16 v ! 1) :: u32) = unat v"
    by (simp add: wire16_def get16_value)
  then show ?thesis by (simp add: word_unat_eq_iff)
qed

lemma wire32_value: "push_bit 24 (ucast (wire32 v ! 0)) + push_bit 16 (ucast (wire32 v ! 1)) + push_bit 8 (ucast (wire32 v ! 2)) + ucast (wire32 v ! 3) = v"
proof -
  have sh: "unat (push_bit n (ucast (c::u8)) :: u32) = 2 ^ n * unat c" if "n \<le> 24" for n c
  proof -
    have "2 ^ n * unat c < 2 ^ 32" 
      using that unat_byte [of c] mult_le_mono [of "2 ^ n" "2 ^ 24" "unat c" 255] power_increasing [of n 24 "2::nat"] by simp
    then show ?thesis
      by (simp only: unsigned_push_bit_eq unat_ucast_byte32)
        (simp add: push_bit_eq_mult take_bit_nat_eq_self mult.commute)
  qed
  have d: "unat (ucast (drop_bit n v) :: u8) = unat v div 2 ^ n mod 256" for n
    by (simp add: unsigned_ucast_eq unat_drop32 take_bit_eq_mod)
  have b: "unat v div 16777216 < 256" using unat_u32 [of v] by auto
  have "unat v = 16777216 * (unat v div 16777216 mod 256) + 65536 * (unat v div 65536 mod 256) + 256 * (unat v div 256 mod 256) + unat v mod 256"
  proof -
    have "unat v div 65536 = 256 * (unat v div 16777216) + unat v div 65536 mod 256"
      "unat v div 256 = 256 * (unat v div 65536) + unat v div 256 mod 256"
      "unat v = 256 * (unat v div 256) + unat v mod 256"
      using div_mult2_eq [of "unat v" 65536 256] div_mult2_eq [of "unat v" 256 256] by (simp_all only: mult_div_mod_eq [symmetric]) simp_all
    moreover have "unat v div 16777216 mod 256 = unat v div 16777216" using b by simp
    ultimately show ?thesis by linarith
  qed
  moreover have "16777216 * (unat v div 16777216 mod 256) + 65536 * (unat v div 65536 mod 256) + 256 * (unat v div 256 mod 256) + unat v mod 256 < 4294967296"
    using unat_u32 [of v] calculation by simp
  ultimately have "unat (push_bit 24 (ucast (wire32 v ! 0)) + push_bit 16 (ucast (wire32 v ! 1)) + push_bit 8 (ucast (wire32 v ! 2)) + ucast (wire32 v ! 3) :: u32) = unat v"
    using d [of 24] d [of 16] d [of 8] d [of 0]
    by (simp add: wire32_def unat_word_ariths sh unat_hi unat_ucast_byte32)
  then show ?thesis by (simp add: word_unat_eq_iff)
qed

lemma get_image:
  assumes "length d \<le> 512"
  shows "field_image d p (W16 v) e \<Longrightarrow> get16bits (rd d p []) = Inr (v, rd d e [])"
    "field_image d p (W32 w) e \<Longrightarrow> get32bits (rd d p []) = Inr (w, rd d e [])"
    "field_image d p (Raw x) e \<Longrightarrow> unat k = length x \<Longrightarrow> getBytes k (rd d p []) = Inr (x, rd d e [])"
    "field_image d p (Str s) e \<Longrightarrow> getDnsCharacterString (rd d p []) = Inr (s, rd d e [])"
    "field_image d p (Plain_name n) e \<Longrightarrow> getDnsDomainName c (rd d p []) = Inr (n, rd d e [])"
    "field_image d p (Name n) e \<Longrightarrow> e < length d \<Longrightarrow> getDnsDomainName True (rd d p []) = Inr (n, rd d e [])"
proof -
  show "get16bits (rd d p []) = Inr (v, rd d e [])" if "field_image d p (W16 v) e"
    using that getBytes_at [OF assms, of p "wire16 v" 2] wire16_value [of v] by (simp add: get16bits_def yield_def)
  show "get32bits (rd d p []) = Inr (w, rd d e [])" if "field_image d p (W32 w) e"
    using that getBytes_at [OF assms, of p "wire32 w" 4] wire32_value [of w] by (simp add: get32bits_def yield_def)
  show "getBytes k (rd d p []) = Inr (x, rd d e [])" if "field_image d p (Raw x) e" "unat k = length x"
    using that getBytes_at [OF assms, of p x k] by simp
  show "getDnsCharacterString (rd d p []) = Inr (s, rd d e [])" if i: "field_image d p (Str s) e"
  proof -
    have n: "unat (word_of_nat (length s) :: u8) = length s" using i by (simp add: unsigned_of_nat take_bit_nat_eq_self)
    have "get8bits (rd d p []) = Inr (word_of_nat (length s), rd d (Suc p) [])"
      using i by (intro get8bits_at [OF assms]) simp
    moreover have "(0 < (word_of_nat (length s) :: u8)) = (s \<noteq> [])" using n by (simp add: word_less_nat_alt)
    moreover have "getBytes (ucast (word_of_nat (length s) :: u8)) (rd d (Suc p) []) = Inr (s, rd d e [])"
      using getBytes_at [OF assms, of "Suc p" s "ucast (word_of_nat (length s) :: u8)"] i n by (simp add: unat_ucast_byte32)
    ultimately show ?thesis using i by (cases "s = []") (simp_all add: getDnsCharacterString_def yield_def)
  qed
  show "getDnsDomainName c (rd d p []) = Inr (n, rd d e [])" if "field_image d p (Plain_name n) e"
    using that name_direct [OF assms, of _ p "[]" c] by auto
  show "getDnsDomainName True (rd d p []) = Inr (n, rd d e [])" if i: "field_image d p (Name n) e" "e < length d"
  proof -
    obtain us vs where uv: "labels_ok (us @ vs)" "n = join (us @ vs)" "length n \<le> 254"
      and c: "vs = [] \<and> at d p (wire us @ [0]) \<and> e = p + length (wire us) + 1
       \<or> vs \<noteq> [] \<and> (\<exists>q. at d p (wire us @ link q) \<and> at d q (wire vs @ [0]) \<and> q + length (wire vs) + 1 \<le> p
           \<and> e = p + length (wire us) + 2)" using i(1) by (simp only: field_image.simps) blast
    from c show ?thesis
    proof (elim disjE conjE exE)
      assume "vs = []" "at d p (wire us @ [0])" "e = p + length (wire us) + 1"
      then show ?thesis using name_direct [OF assms, of us p "[]" True] uv by simp
    next
      fix q assume q: "vs \<noteq> []" "at d p (wire us @ link q)" "at d q (wire vs @ [0])" "q + length (wire vs) + 1 \<le> p"
         "e = p + length (wire us) + 2"
      then show ?thesis using name_linked [OF assms uv(1) q(2,3,1)] i(2) uv by simp
    qed
  qed
qed


section \<open>Resource records\<close>

fun rdata_fields :: "rdata \<Rightarrow> field list" where
  "rdata_fields (RDataWithName t n) = [Name n]"
| "rdata_fields (RDataHINFO c os) = [Str c, Str os]"
| "rdata_fields (RDataMINFO r m) = [Name r, Name m]"
| "rdata_fields (RDataMX p x) = [W16 p, Name x]"
| "rdata_fields (RDataNULL d) = [Raw d]"
| "rdata_fields (RDataSOA m r serial refresh retry expire minimum) =
     [Name m, Name r, W32 serial, W32 refresh, W32 retry, W32 expire, W32 minimum]"
| "rdata_fields (RDataTXT ts) = map Str ts"
| "rdata_fields (RDataA a) = [Raw a]"
| "rdata_fields (RDataWKS a p bm) = []"
| "rdata_fields (RDataAAAA a) = [Raw a]"
| "rdata_fields (RDataNAPTR n p f s r x) = [W16 n, W16 p, Str f, Str s, Str r, Plain_name x]"

definition rdata_ok :: "rdata \<Rightarrow> bool" where
  "rdata_ok r = ((\<forall>f\<in>set (rdata_fields r). field_ok f) \<and> (case r of
     RDataWithName t n \<Rightarrow> t \<in> {RDATA_NS, RDATA_MD, RDATA_MF, RDATA_CNAME, RDATA_MB, RDATA_MG, RDATA_MR, RDATA_PTR}
   | RDataA a \<Rightarrow> length a = 4 | RDataAAAA a \<Rightarrow> length a = 16 | RDataTXT ts \<Rightarrow> ts \<noteq> [] | RDataWKS a p bm \<Rightarrow> False
   | _ \<Rightarrow> True))"

text \<open>Whether the data ends with a name that may have become a link.\<close>

definition ends_with_name :: "rdata \<Rightarrow> bool" where
  "ends_with_name r = (case rdata_fields r of [] \<Rightarrow> False | fs \<Rightarrow> (case last fs of Name n \<Rightarrow> True | _ \<Rightarrow> False))"

lemma follow_assoc: "follow (follow m f) g = follow m (\<lambda>x. follow (f x) g)"
  by (auto simp: follow_def fun_eq_iff split: sum.splits)

lemma follow_unit: "follow m yield = m"
  by (auto simp: follow_def yield_def fun_eq_iff split: sum.splits)

lemma put_bytes_each: "writable b \<Longrightarrow> puts (put_each put8bits a) a b"
proof (induction a arbitrary: b)
  case (Cons c a)
  have "puts (put_each put8bits (c # a)) ([c] @ a) b"
    unfolding put_each.simps
    by (rule puts_follow [OF put_int_puts(1) [OF Cons.prems]]) (rule Cons.IH, erule adds_writable)
  then show ?case by simp
qed (simp add: puts_yield)

lemma raw_images:
  assumes "puts m a b" "m b = Inr (u, b')" "writable b" "a \<noteq> []"
  shows "(\<exists>y. adds b y b') \<and> images field_image (written b') (mBufferPtr b) [Raw a] (mBufferPtr b')"
proof -
  have a: "adds b a b'" by (rule puts_Inr [OF assms(1,2)])
  then show ?thesis using assms(4) length_written [OF assms(3)] length_written [OF adds_writable [OF a]] at_end [of "written b" a]
    by (auto simp: adds_def writable_def)
qed

lemma rdata_encode_fields:
  assumes "\<forall>a. r \<noteq> RDataA a" "\<forall>a. r \<noteq> RDataAAAA a" "\<forall>a p bm. r \<noteq> RDataWKS a p bm"
  shows "rdata_encode r = put_each put_field (rdata_fields r)"
proof -
  have "put_each putDnsCharacterString ts = put_each put_field (map Str ts)" for ts
    by (induction ts) simp_all
  then show ?thesis using assms by (cases r) (simp_all add: follow_assoc follow_unit)
qed

lemma rdata_put_images:
  assumes "rdata_ok r" "writable b" "rdata_encode r b = Inr (u, b')"
  shows "(\<exists>y. adds b y b') \<and> images field_image (written b') (mBufferPtr b) (rdata_fields r) (mBufferPtr b')"
proof -
  consider a where "r = RDataA a" | a where "r = RDataAAAA a"
    | "\<forall>a. r \<noteq> RDataA a" "\<forall>a. r \<noteq> RDataAAAA a" "\<forall>a p bm. r \<noteq> RDataWKS a p bm"
    using assms(1) by (cases r) (auto simp: rdata_ok_def)
  then show ?thesis
  proof cases
    case (1 a)
    then show ?thesis using raw_images [OF put_bytes_each [OF assms(2)], of a u b'] assms by (auto simp: rdata_ok_def)
  next
    case (2 a)
    then show ?thesis using raw_images [OF put_bytes_each [OF assms(2)], of a u b'] assms by (auto simp: rdata_ok_def)
  next
    case 3
    then show ?thesis using fld.put_images [of "rdata_fields r" b u b'] assms
      by (simp add: rdata_encode_fields rdata_ok_def)
  qed
qed

lemma texts_image:
  assumes "length d \<le> 512" "images field_image d p (map Str ts) e" "start \<le> p" "e - start = sz" "p \<le> e"
  shows "texts_loop start sz acc (rd d p []) = Inr (acc @ ts, rd d e [])"
  using assms(2-5)
proof (induction ts arbitrary: p acc)
  case Nil
  then show ?case by (subst texts_loop.simps) simp
next
  case (Cons t ts)
  then obtain m where m: "field_image d p (Str t) m" "images field_image d m (map Str ts) e" by auto
  have b: "p < m" "m \<le> e" using fld.img_bound [OF m(1)] fld.images_bound [OF m(2)] by auto
  have "p - start < sz" using b Cons.prems(2,3) by linarith
  then have "texts_loop start sz acc (rd d p []) = texts_loop start sz (acc @ [t]) (rd d m [])"
    using get_image(4) [OF assms(1) m(1)] Cons.prems b by (subst texts_loop.simps) simp
  then show ?case using Cons.IH [OF m(2)] Cons.prems b by simp
qed

lemma rdata_decode_code:
  "rdata_ok r \<Longrightarrow> rdata_decode (rdata_code (getType r)) sz = (case r of
     RDataWithName t n \<Rightarrow> RDataWithName_decode t | RDataHINFO c os \<Rightarrow> RDataHINFO_decode
   | RDataMINFO x m \<Rightarrow> RDataMINFO_decode | RDataMX p x \<Rightarrow> RDataMX_decode | RDataNULL d \<Rightarrow> RDataNULL_decode sz
   | RDataSOA m n s f y x i \<Rightarrow> RDataSOA_decode | RDataTXT ts \<Rightarrow> RDataTXT_decode sz | RDataA a \<Rightarrow> RDataA_decode
   | RDataWKS a p bm \<Rightarrow> RDataA_decode | RDataAAAA a \<Rightarrow> RDataAAAA_decode | RDataNAPTR n p f s x y \<Rightarrow> RDataNAPTR_decode)"
  by (cases r) (auto simp: rdata_ok_def rdata_decode_def)

lemma rdata_get_image:
  assumes "rdata_ok r" "length d \<le> 512" "images field_image d p (rdata_fields r) e" "e - p = unat sz"
    "ends_with_name r \<Longrightarrow> e < length d"
  shows "rdata_decode (rdata_code (getType r)) sz (rd d p []) = Inr (r, rd d e [])"
proof -
  note get = get_image [OF assms(2)]
  have before: "m < length d" if "images field_image d m fs e" "fs \<noteq> []" for m fs
    using fld.images_bound [OF that(1)] that(2) by auto
  note code = rdata_decode_code [OF assms(1), of sz]
  show ?thesis
  proof (cases r)
    case (RDataWithName t n)
    then have "field_image d p (Name n) e" "e < length d" using assms(3,5) by (auto simp: ends_with_name_def simp del: field_image.simps)
    then show ?thesis using RDataWithName rdata_decode_code [OF assms(1), of sz]
      by (simp add: RDataWithName_decode_def get yield_def del: field_image.simps)
  next
    case (RDataTXT ts)
    have "p \<le> e" using fld.images_bound [OF assms(3)] by simp
    then show ?thesis using code texts_image [OF assms(2) _ order_refl assms(4), of ts "[]"] assms(1,3) RDataTXT
      by (simp add: RDataTXT_decode_def getPos_def follow_def yield_def)
  next
    case (RDataNULL x)
    then have i: "field_image d p (Raw x) e" using assms(3) by (auto simp del: field_image.simps)
    then have "unat sz = length x" using assms(4) by simp
    then show ?thesis using code RDataNULL get(3) [OF i] by (simp add: RDataNULL_decode_def yield_def)
  next
    case (RDataA a)
    then have i: "field_image d p (Raw a) e" "length a = 4"
      using assms(1,3) by (auto simp: rdata_ok_def simp del: field_image.simps)
    then show ?thesis using code RDataA get(3) [OF i(1), of 4] by (simp add: RDataA_decode_def yield_def)
  next
    case (RDataAAAA a)
    then have i: "field_image d p (Raw a) e" "length a = 16"
      using assms(1,3) by (auto simp: rdata_ok_def simp del: field_image.simps)
    then show ?thesis using code RDataAAAA get(3) [OF i(1), of 16] by (simp add: RDataAAAA_decode_def yield_def)
  next
    case (RDataHINFO c os)
    then obtain m where i: "field_image d p (Str c) m" "field_image d m (Str os) e"
      using assms(3) by (auto simp del: field_image.simps)
    show ?thesis using code RDataHINFO get(4) [OF i(1)] get(4) [OF i(2)] by (simp add: RDataHINFO_decode_def yield_def)
  next
    case (RDataMINFO a c)
    then obtain m where i: "field_image d p (Name a) m" "field_image d m (Name c) e" "e < length d"
      using assms(3,5) by (auto simp: ends_with_name_def simp del: field_image.simps)
    then have "m < length d" using fld.img_bound [OF i(2)] by simp
    then show ?thesis using code RDataMINFO get(6) [OF i(1)] get(6) [OF i(2,3)]
      by (simp add: RDataMINFO_decode_def yield_def)
  next
    case (RDataMX a c)
    then obtain m where i: "field_image d p (W16 a) m" "field_image d m (Name c) e" "e < length d"
      using assms(3,5) by (auto simp: ends_with_name_def simp del: field_image.simps)
    then show ?thesis using code RDataMX get(1) [OF i(1)] get(6) [OF i(2,3)] by (simp add: RDataMX_decode_def yield_def)
  next
    case (RDataSOA a c s f y x i)
    then obtain m0 m1 m2 m3 m4 m5 where m: "field_image d p (Name a) m0" "field_image d m0 (Name c) m1"
      "field_image d m1 (W32 s) m2" "field_image d m2 (W32 f) m3" "field_image d m3 (W32 y) m4"
      "field_image d m4 (W32 x) m5" "field_image d m5 (W32 i) e"
      using assms(3) by (auto simp del: field_image.simps)
    have "m1 < length d" using fld.img_bound [OF m(3)] by simp
    moreover from this have "m0 < length d" using fld.img_bound [OF m(2)] by simp
    ultimately show ?thesis
      using code RDataSOA get(6) [OF m(1)] get(6) [OF m(2)] get(2) [OF m(3)] get(2) [OF m(4)] get(2) [OF m(5)]
        get(2) [OF m(6)] get(2) [OF m(7)] by (simp add: RDataSOA_decode_def yield_def)
  next
    case (RDataNAPTR n a f s x y)
    then obtain m0 m1 m2 m3 m4 where m: "field_image d p (W16 n) m0" "field_image d m0 (W16 a) m1"
      "field_image d m1 (Str f) m2" "field_image d m2 (Str s) m3" "field_image d m3 (Str x) m4" "field_image d m4 (Plain_name y) e"
      using assms(3) by (auto simp del: field_image.simps)
    show ?thesis
      using code RDataNAPTR get(1) [OF m(1)] get(1) [OF m(2)] get(4) [OF m(3)] get(4) [OF m(4)] get(4) [OF m(5)] get(5) [OF m(6)]
      by (simp add: RDataNAPTR_decode_def yield_def)
  qed (use assms(1) in \<open>simp add: rdata_ok_def\<close>)
qed

section \<open>Records\<close>

definition rr_head :: "ResourceRecord \<Rightarrow> u32 \<Rightarrow> field list" where
  "rr_head rr sz = [Name (rr_name rr), W16 (rr_type rr), W16 (rr_class rr), W32 (rr_ttl rr), W16 sz]"

definition rr_ok :: "ResourceRecord \<Rightarrow> bool" where
  "rr_ok rr = (name_ok (rr_name rr) \<and> unat (rr_type rr) < 65536 \<and> unat (rr_class rr) < 65536
     \<and> (case rr_data rr of None \<Rightarrow> rr_data_size rr = 0
        | Some r \<Rightarrow> rdata_ok r \<and> rr_type rr = rdata_code (getType r)))"

definition rr_image :: "ResourceRecord image" where
  "rr_image d p rr e = (\<exists>q. images field_image d p (rr_head rr (rr_data_size rr)) q \<and> (case rr_data rr of
     None \<Rightarrow> e = q
   | Some r \<Rightarrow> images field_image d q (rdata_fields r) e \<and> e - q = unat (rr_data_size rr)))"

definition rr_ends_with_name :: "ResourceRecord \<Rightarrow> bool" where
  "rr_ends_with_name rr = (case rr_data rr of None \<Rightarrow> False | Some r \<Rightarrow> ends_with_name r)"

lemma rdata_fields_nonempty: "rdata_ok r \<Longrightarrow> rdata_fields r \<noteq> []"
  by (cases r) (auto simp: rdata_ok_def)

lemma rr_image_bound: "rr_image d p rr e \<Longrightarrow> p < e \<and> e \<le> length d"
proof -
  assume "rr_image d p rr e"
  then obtain q where q: "images field_image d p (rr_head rr (rr_data_size rr)) q"
    and e: "e = q \<or> (\<exists>r. images field_image d q (rdata_fields r) e)"
    by (auto simp: rr_image_def simp del: images.simps split: option.splits)
  have "rr_head rr (rr_data_size rr) \<noteq> []" by (simp add: rr_head_def)
  then show ?thesis using fld.images_bound [OF q] e fld.images_bound [of d q] by fastforce
qed

lemma rr_image_append: "rr_image d p rr e \<Longrightarrow> rr_image (d @ y) p rr e"
  unfolding rr_image_def by (auto intro!: fld.images_append split: option.splits)

lemma setPos_room: "setPos p b = Inr (u, b') \<Longrightarrow> b' = b\<lparr>mBufferPtr := p\<rparr>"
  by (auto simp: setPos_def split: if_splits)

text \<open>The length is filled in: of the two zero bytes the second changes.\<close>

lemma fill_length:
  assumes "adds b0 (wire16 0) b2" "adds b2 y b3" "writable b0"
    "setPos (mBufferPtr b0) b3 = Inr (u, b4)" "put16bits sz b4 = Inr (v, b5)" "setPos (mBufferPtr b3) b5 = Inr (w, b6)"
    "unat sz < 256"
  shows "adds b0 (wire16 sz @ y) b6" "written b6 = (written b3)[Suc (mBufferPtr b0) := ucast sz]"
    "written b3 ! mBufferPtr b0 = 0" "written b3 ! Suc (mBufferPtr b0) = 0" "mBufferPtr b6 = mBufferPtr b3"
proof -
  let ?p = "mBufferPtr b0"
  have w3: "written b3 = written b0 @ wire16 0 @ y" "length (written b0) = ?p" "mBufferPtr b3 = ?p + 2 + length y"
    using assms(1-3) length_written [OF assms(3)] by (simp_all add: adds_def)
  have zero: "wire16 0 = [0, 0]" by (simp add: wire16_def)
  show z: "written b3 ! ?p = 0" "written b3 ! Suc ?p = 0" using w3 by (simp_all add: zero nth_append)
  have b4: "b4 = b3\<lparr>mBufferPtr := ?p\<rparr>" by (rule setPos_room [OF assms(4)])
  have wr3: "writable b3" by (rule adds_writable [OF assms(2)])
  then have wr4: "writable b4" using w3 by (simp add: b4 writable_def)
  have b5: "adds b4 (wire16 sz) b5" by (rule puts_Inr [OF put_int_puts(2) [OF wr4] assms(5)])
  have mb5: "mBuffer b5 = take ?p (mBuffer b3) @ wire16 sz @ drop (?p + 2) (mBuffer b3)"
    using assms(5) unfolding put_ints by (auto simp: store_def follow_Inr checkAvailableSpace_def b4 split: if_splits)
  have b6: "b6 = b5\<lparr>mBufferPtr := mBufferPtr b3\<rparr>" by (rule setPos_room [OF assms(6)])
  have "drop_bit 8 sz = 0"
  proof -
    have "unat (drop_bit 8 sz) = 0" using assms(7) by (simp add: unat_drop32)
    then show ?thesis by (simp add: unsigned_eq_0_iff)
  qed
  then have be: "wire16 sz = [0, ucast sz]" by (simp add: wire16_def)
  have len: "length (mBuffer b3) = length (mBuffer b0)" "mBufferPtr b3 \<le> length (mBuffer b3)"
    using assms(1,2) wr3 by (auto simp: adds_def writable_def)
  have t: "take ?p (mBuffer b3) = written b0" "take (mBufferPtr b3 - (?p + 2)) (drop (?p + 2) (mBuffer b3)) = y"
  proof -
    have "take (mBufferPtr b3) (mBuffer b3) = written b0 @ wire16 0 @ y" using w3(1) by (simp add: written_def)
    then have "take ?p (take (mBufferPtr b3) (mBuffer b3)) = written b0"
      "drop (?p + 2) (take (mBufferPtr b3) (mBuffer b3)) = y" using w3(2) by simp_all
    then show "take ?p (mBuffer b3) = written b0" "take (mBufferPtr b3 - (?p + 2)) (drop (?p + 2) (mBuffer b3)) = y"
      using w3(3) by (simp_all add: min_def drop_take)
  qed
  have w6: "written b6 = written b0 @ wire16 sz @ y"
    using t w3(2,3) by (simp add: b6 written_def mb5 min_def)
  show "written b6 = (written b3)[Suc ?p := ucast sz]"
    using w3(1,2) by (simp add: w6 be zero list_update_append)
  show "mBufferPtr b6 = mBufferPtr b3" by (simp add: b6)
  have "length (mBuffer b5) = length (mBuffer b3)" using len(2) w3(3) by (simp add: mb5)
  then show "adds b0 (wire16 sz @ y) b6"
    using w6 w3(3) len wr3 by (simp add: adds_def b6 writable_def)
qed

lemma rr_put_image:
  assumes "rr_ok rr" "writable b" "rr_encode rr b = Inr (rr', b')" "unat (rr_data_size rr') < 256"
  shows "(\<exists>y. adds b y b') \<and> rr_image (written b') (mBufferPtr b) rr' (mBufferPtr b')"
    "rr' = rr\<lparr>rr_data_size := rr_data_size rr'\<rparr>"
proof -
  let ?fs = "[Name (rr_name rr), W16 (rr_type rr), W16 (rr_class rr), W32 (rr_ttl rr)]"
  obtain b1 b2 where b1: "put_each put_field ?fs b = Inr ((), b1)" and b2: "put16bits 0 b1 = Inr ((), b2)"
    and rest: "(case rr_data rr of None \<Rightarrow> yield rr
       | Some d \<Rightarrow> follow (rdata_encode d) (\<lambda>_. follow getPos (\<lambda>lastPos.
           let sz = word_of_nat (lastPos - mBufferPtr b1 - 2)
           in follow (setPos (mBufferPtr b1)) (\<lambda>_. follow (put16bits sz) (\<lambda>_. follow (setPos lastPos) (\<lambda>_.
                yield (rr\<lparr>rr_data_size := sz\<rparr>))))))) b2 = Inr (rr', b')"
    using assms(3) by (auto simp: rr_encode_def follow_Inr getPos_def yield_def)
  have fs_ok: "\<forall>f\<in>set ?fs. field_ok f" using assms(1) by (simp add: rr_ok_def)
  obtain x where x: "adds b x b1" and head: "images field_image (written b1) (mBufferPtr b) ?fs (mBufferPtr b1)"
    using fld.put_images [OF fs_ok assms(2) b1] by auto
  have b2a: "adds b1 (wire16 0) b2" by (rule puts_Inr [OF put_int_puts(2) [OF adds_writable [OF x]] b2])
  have p1: "length (written b1) = mBufferPtr b1" by (rule length_written [OF adds_writable [OF x]])
  have whole: "images field_image (written c) (mBufferPtr b) (rr_head rr sz) (mBufferPtr b1 + 2)"
    if c: "adds b1 (wire16 sz @ y) c" and sz: "unat sz < 65536" for c y sz
  proof -
    have w: "written c = written b1 @ wire16 sz @ y" by (rule adds_written [OF c])
    have "images field_image (written c) (mBufferPtr b) ?fs (mBufferPtr b1)"
      unfolding w by (rule fld.images_append [OF head])
    moreover have "at (written b1 @ wire16 sz @ y) (length (written b1)) (wire16 sz)"
      using at_end [of "written b1" "wire16 sz @ y"] by simp
    then have "field_image (written c) (mBufferPtr b1) (W16 sz) (mBufferPtr b1 + 2)"
      using sz by (simp add: w p1)
    moreover from this have "mBufferPtr b1 + 2 \<le> length (written c)" using fld.img_bound by blast
    ultimately show ?thesis unfolding rr_head_def by (auto simp del: field_image.simps)
  qed
  have "((\<exists>y. adds b y b') \<and> rr_image (written b') (mBufferPtr b) rr' (mBufferPtr b')) \<and> rr' = rr\<lparr>rr_data_size := rr_data_size rr'\<rparr>"
  proof (cases "rr_data rr")
    case None
    then have r: "rr' = rr" "b' = b2" "rr_data_size rr = 0" using rest assms(1) by (simp_all add: yield_def rr_ok_def)
    then have "rr_image (written b') (mBufferPtr b) rr' (mBufferPtr b')"
      using whole [of 0 "[]" b2] b2a None by (auto simp: rr_image_def adds_def simp del: images.simps)
    then show ?thesis using adds_trans [OF x b2a] r by auto
  next
    case (Some r)
    then obtain b3 b4 b5 u v w sz where st: "rdata_encode r b2 = Inr ((), b3)" "sz = word_of_nat (mBufferPtr b3 - mBufferPtr b1 - 2)"
      "setPos (mBufferPtr b1) b3 = Inr (u, b4)" "put16bits sz b4 = Inr (v, b5)" "setPos (mBufferPtr b3) b5 = Inr (w, b')"
      "rr' = rr\<lparr>rr_data_size := sz\<rparr>"
      using rest by (auto simp: follow_Inr getPos_def yield_def Let_def)
    have r: "rdata_ok r" using assms(1) Some by (simp add: rr_ok_def)
    obtain y where y: "adds b2 y b3" and d: "images field_image (written b3) (mBufferPtr b2) (rdata_fields r) (mBufferPtr b3)"
      using rdata_put_images [OF r adds_writable [OF b2a] st(1)] by auto
    have sz: "unat sz < 256" using assms(4) st(6) by simp
    note fill = fill_length [OF b2a y adds_writable [OF x] st(3-5) sz]
    have p2: "mBufferPtr b2 = mBufferPtr b1 + 2" "mBufferPtr b3 = mBufferPtr b1 + 2 + length y"
      using b2a y by (simp_all add: adds_def)
    have "length y \<le> 16384" using y by (auto simp: adds_def writable_def)
    then have "unat sz = length y" using p2 st(2) by (simp add: unsigned_of_nat take_bit_nat_eq_self)
    moreover have "images field_image (written b') (mBufferPtr b1 + 2) (rdata_fields r) (mBufferPtr b3)"
      unfolding fill(2) using d p2 fill(3,4) by (intro fld.images_patch) simp_all
    ultimately have "rr_image (written b') (mBufferPtr b) rr' (mBufferPtr b')"
      using whole [OF fill(1)] sz Some st(6) p2 fill(5) unfolding rr_image_def rr_head_def
      by (intro exI [of _ "mBufferPtr b1 + 2"]) (simp del: images.simps)
    then show ?thesis using adds_trans [OF x fill(1)] st(6) by auto
  qed
  then show "(\<exists>y. adds b y b') \<and> rr_image (written b') (mBufferPtr b) rr' (mBufferPtr b')"
    "rr' = rr\<lparr>rr_data_size := rr_data_size rr'\<rparr>" by auto
qed

lemma rr_get_image:
  assumes "rr_image d p rr e" "rr_ok rr" "length d \<le> 512" "rr_ends_with_name rr \<Longrightarrow> e < length d"
  shows "rr_decode (rd d p []) = Inr (rr, rd d e [])"
proof -
  note get = get_image [OF assms(3)]
  obtain q where q: "images field_image d p (rr_head rr (rr_data_size rr)) q" and data: "case rr_data rr of
     None \<Rightarrow> e = q | Some r \<Rightarrow> images field_image d q (rdata_fields r) e \<and> e - q = unat (rr_data_size rr)"
    using assms(1) by (auto simp: rr_image_def simp del: images.simps)
  obtain m0 m1 m2 m3 where m: "field_image d p (Name (rr_name rr)) m0" "field_image d m0 (W16 (rr_type rr)) m1"
      "field_image d m1 (W16 (rr_class rr)) m2" "field_image d m2 (W32 (rr_ttl rr)) m3" "field_image d m3 (W16 (rr_data_size rr)) q"
    using q by (auto simp: rr_head_def simp del: field_image.simps)
  have "m0 < length d" using fld.img_bound [OF m(2)] by simp
  note head = get(6) [OF m(1) this] get(1) [OF m(2)] get(1) [OF m(3)] get(2) [OF m(4)] get(1) [OF m(5)]
  show ?thesis
  proof (cases "rr_data rr")
    case None
    then show ?thesis using data assms(2) by (simp add: rr_decode_def head Let_def rr_ok_def yield_def)
  next
    case (Some r)
    then have r: "rdata_ok r" "rr_type rr = rdata_code (getType r)" and i: "images field_image d q (rdata_fields r) e"
      and sz: "e - q = unat (rr_data_size rr)" using assms(2) data by (auto simp: rr_ok_def)
    have "q < e" using fld.images_bound [OF i] rdata_fields_nonempty [OF r(1)] by simp
    then have "0 < rr_data_size rr" using sz by (simp add: word_less_nat_alt)
    moreover have "rdata_decode (rr_type rr) (rr_data_size rr) (rd d q []) = Inr (r, rd d e [])"
      unfolding r(2) by (rule rdata_get_image [OF r(1) assms(3) i sz]) (use assms(4) Some in \<open>simp add: rr_ends_with_name_def\<close>)
    moreover have "rr = \<lparr>rr_name = rr_name rr, rr_type = rr_type rr, rr_class = rr_class rr, rr_ttl = rr_ttl rr,
        rr_data_size = rr_data_size rr, rr_data = Some r\<rparr>" using Some by simp
    ultimately show ?thesis using sz by (simp add: rr_decode_def head Let_def getPos_def yield_def) 
  qed
qed

section \<open>Questions\<close>

definition qs_fields :: "QuerySection \<Rightarrow> field list" where
  "qs_fields qs = [Name (mQName qs), W16 (mQType qs), W16 (mQClass qs)]"

definition qs_ok :: "QuerySection \<Rightarrow> bool" where
  "qs_ok qs = (\<forall>f\<in>set (qs_fields qs). field_ok f)"

definition qs_image :: "QuerySection image" where
  "qs_image d p qs e = images field_image d p (qs_fields qs) e"

lemma qs_encode_fields: "qs_encode qs = put_each put_field (qs_fields qs)"
  by (simp add: qs_encode_def qs_fields_def follow_unit)

interpretation qry: wire_image qs_encode qs_image qs_ok
proof
  fix x u b b' assume "qs_ok x" "writable b" "qs_encode x b = Inr (u, b')"
  then show "(\<exists>y. adds b y b') \<and> qs_image (written b') (mBufferPtr b) x (mBufferPtr b')"
    unfolding qs_image_def qs_encode_fields qs_ok_def by (rule fld.put_images)
next
  fix d p x e assume i: "qs_image d p x e"
  have "qs_fields x \<noteq> []" by (simp add: qs_fields_def)
  then show "p < e \<and> e \<le> length d" using fld.images_bound [OF i [unfolded qs_image_def]] by simp
qed (auto simp: qs_image_def intro: fld.images_append fld.images_patch fld.images_take)

lemma qs_get_image:
  assumes "qs_image d p qs e" "length d \<le> 512"
  shows "qs_decode (rd d p []) = Inr (qs, rd d e [])"
proof -
  note get = get_image [OF assms(2)]
  obtain m0 m1 where m: "field_image d p (Name (mQName qs)) m0" "field_image d m0 (W16 (mQType qs)) m1"
    "field_image d m1 (W16 (mQClass qs)) e"
    using assms(1) by (auto simp: qs_image_def qs_fields_def simp del: field_image.simps)
  have "m0 < length d" using fld.img_bound [OF m(2)] by simp
  from get(6) [OF m(1) this] get(1) [OF m(2)] get(1) [OF m(3)] show ?thesis by (simp add: qs_decode_def yield_def)
qed

lemma qs_each_image:
  "images qs_image d p qs e \<Longrightarrow> length d \<le> 512 \<Longrightarrow> get_each qs_decode (length qs) (rd d p []) = Inr (qs, rd d e [])"
proof (induction qs arbitrary: p)
  case (Cons x xs)
  then obtain m where m: "qs_image d p x m" "images qs_image d m xs e" by auto
  show ?case using Cons.IH [OF m(2) Cons.prems(2)] qs_get_image [OF m(1) Cons.prems(2)] by (simp add: yield_def)
qed (simp add: yield_def)

lemma rr_each_image:
  "images rr_image d p rrs e \<Longrightarrow> length d \<le> 512 \<Longrightarrow> \<forall>rr\<in>set rrs. rr_ok rr \<Longrightarrow>
    (rrs \<noteq> [] \<Longrightarrow> rr_ends_with_name (last rrs) \<Longrightarrow> e < length d) \<Longrightarrow>
    get_each rr_decode (length rrs) (rd d p []) = Inr (rrs, rd d e [])"
proof (induction rrs arbitrary: p)
  case (Cons x xs)
  then obtain m where m: "rr_image d p x m" "images rr_image d m xs e" by auto
  have "m < length d" if "rr_ends_with_name x"
  proof (cases xs)
    case Nil
    then show ?thesis using m(2) Cons.prems(4) that by simp
  next
    case (Cons y ys)
    then obtain m2 where "rr_image d m y m2" using m(2) by auto
    then show ?thesis using rr_image_bound by fastforce
  qed
  then have "rr_decode (rd d p []) = Inr (x, rd d m [])" by (intro rr_get_image [OF m(1)]) (use Cons.prems in auto)
  moreover have "get_each rr_decode (length xs) (rd d m []) = Inr (xs, rd d e [])"
    by (rule Cons.IH [OF m(2)]) (use Cons.prems in auto)
  ultimately show ?case by (simp add: yield_def)
qed (simp add: yield_def)

lemma rr_images_append: "images rr_image d p rrs e \<Longrightarrow> images rr_image (d @ y) p rrs e"
  by (induction rrs arbitrary: p) (auto intro: rr_image_append)

lemma rr_images_bound: "images rr_image d p rrs e \<Longrightarrow> p \<le> e \<and> e \<le> length d"
proof (induction rrs arbitrary: p)
  case (Cons x xs)
  then obtain m where m: "rr_image d p x m" "images rr_image d m xs e" by auto
  then show ?case using Cons.IH [OF m(2)] rr_image_bound [OF m(1)] by simp
qed simp

text \<open>A record without the stored length, which encoding fills in.\<close>

definition unsized :: "ResourceRecord \<Rightarrow> ResourceRecord" where
  "unsized rr = rr\<lparr>rr_data_size := 0\<rparr>"

lemma rdata_code_small: "unat (rdata_code t) < 65536"
  by (cases t) simp_all

lemma put_rr_images:
  "\<forall>rr\<in>set rrs. rr_ok rr \<Longrightarrow> writable b \<Longrightarrow> encode_each rr_encode rrs b = Inr (rrs', b') \<Longrightarrow>
    \<forall>rr\<in>set rrs'. unat (rr_data_size rr) < 256 \<Longrightarrow>
    (\<exists>y. adds b y b') \<and> images rr_image (written b') (mBufferPtr b) rrs' (mBufferPtr b')
    \<and> length rrs' = length rrs \<and> (\<forall>rr\<in>set rrs'. rr_ok rr) \<and> map unsized rrs' = map unsized rrs"
proof (induction rrs arbitrary: b rrs')
  case Nil
  then have "b' = b" "rrs' = []" by (simp_all add: yield_def)
  then show ?case using Nil adds_none length_written by fastforce
next
  case (Cons x xs)
  then obtain y b1 ys where st: "rr_encode x b = Inr (y, b1)" "encode_each rr_encode xs b1 = Inr (ys, b')" "rrs' = y # ys"
    by (auto simp: follow_Inr yield_def)
  have "rr_ok x" "unat (rr_data_size y) < 256" using Cons.prems st(3) by auto
  note r = rr_put_image [OF this(1) Cons.prems(2) st(1) this(2)]
  obtain z where z: "adds b z b1" and im: "rr_image (written b1) (mBufferPtr b) y (mBufferPtr b1)" using r(1) by blast
  have ih: "(\<exists>y. adds b1 y b') \<and> images rr_image (written b') (mBufferPtr b1) ys (mBufferPtr b')
    \<and> length ys = length xs \<and> (\<forall>rr\<in>set ys. rr_ok rr) \<and> map unsized ys = map unsized xs"
    by (rule Cons.IH [OF _ adds_writable [OF z] st(2)]) (use Cons.prems st(3) in auto)
  then obtain w where w: "adds b1 w b'" by blast
  have "rr_image (written b') (mBufferPtr b) y (mBufferPtr b1)"
    unfolding adds_written [OF w] by (rule rr_image_append [OF im])
  moreover have "rr_ok y" 
  proof (cases "rr_data x")
    case None
    then have "y = x" using st(1) by (auto simp: rr_encode_def follow_Inr getPos_def yield_def)
    then show ?thesis using Cons.prems(1) by simp
  next
    case (Some a)
    then show ?thesis using Cons.prems(1) by (subst r(2)) (simp add: rr_ok_def rdata_code_small)
  qed
  moreover have "unsized y = unsized x" by (subst r(2)) (simp add: unsized_def)
  ultimately show ?case using ih adds_trans [OF z w] st(3) by auto
qed


section \<open>Messages\<close>

definition flags_ok :: "Message \<Rightarrow> bool" where
  "flags_ok m = (unat (mQr m) < 2 \<and> unat (mOpCode m) < 16 \<and> unat (mAA m) < 2 \<and> unat (mTC m) < 2
     \<and> unat (mRD m) < 2 \<and> unat (mRA m) < 2)"

definition records :: "Message \<Rightarrow> ResourceRecord list" where
  "records m = mAnswers m @ mAuthorities m @ mAdditional m"

definition message_ok :: "Message \<Rightarrow> bool" where
  "message_ok m = (unat (mId m) < 65536 \<and> flags_ok m \<and> (\<forall>q\<in>set (mQueries m). qs_ok q)
     \<and> (\<forall>rr\<in>set (records m). rr_ok rr) \<and> length (mQueries m) < 65536 \<and> length (mAnswers m) < 65536
     \<and> length (mAuthorities m) < 65536 \<and> length (mAdditional m) < 65536)"

text \<open>The records after encoding: the lengths are filled in and fit into one byte, and the message
  does not end with a name.\<close>

definition encoded_ok :: "Message \<Rightarrow> bool" where
  "encoded_ok m = ((\<forall>rr\<in>set (records m). unat (rr_data_size rr) < 256)
     \<and> (records m = [] \<or> \<not> rr_ends_with_name (last (records m))))"

definition fields_value :: "Message \<Rightarrow> nat" where
  "fields_value m = 32768 * unat (mQr m) + 2048 * unat (mOpCode m) + 1024 * unat (mAA m) + 512 * unat (mTC m)
     + 256 * unat (mRD m) + 128 * unat (mRA m) + unat (mRCode m AND 15)"

lemma unat_and_masks: "unat (w AND 1 :: u32) = unat w mod 2" "unat (w AND 15 :: u32) = unat w mod 16"
proof -
  have m: "(1 :: u32) = mask 1" "(15 :: u32) = mask 4" by (simp_all add: mask_eq_exp_minus_1)
  have "unat (take_bit n w) = unat w mod 2 ^ n" for n by (simp only: unsigned_take_bit_eq) (rule take_bit_eq_mod)
  then have "unat (w AND mask 1) = unat w mod 2" "unat (w AND mask 4) = unat w mod 16"
    by (simp_all only: flip: take_bit_eq_mask) simp_all
  then show "unat (w AND 1 :: u32) = unat w mod 2" "unat (w AND 15 :: u32) = unat w mod 16"
    by (simp_all only: m)
qed

lemma unat_push: "unat w * 2 ^ n < 2 ^ 32 \<Longrightarrow> unat (push_bit n (w :: u32)) = 2 ^ n * unat w"
  by (simp only: unsigned_push_bit_eq) (simp add: push_bit_eq_mult take_bit_nat_eq_self mult.commute)

lemma and_1_id: "unat w < 2 \<Longrightarrow> w AND 1 = (w :: u32)" and and_15_id: "unat w < 16 \<Longrightarrow> w AND 15 = (w :: u32)"
  by (simp_all only: word_unat_eq_iff unat_and_masks mod_less)

lemma header_value:
  assumes "flags_ok m"
  shows "unat (header_fields m) = fields_value m"
proof -
  note f = assms [unfolded flags_ok_def]
  have r: "unat (mRCode m AND 15) < 16" by (simp add: unat_and_masks)
  have p: "unat (push_bit 15 (mQr m)) = 32768 * unat (mQr m)" "unat (push_bit 11 (mOpCode m)) = 2048 * unat (mOpCode m)"
    "unat (push_bit 10 (mAA m)) = 1024 * unat (mAA m)" "unat (push_bit 9 (mTC m)) = 512 * unat (mTC m)"
    "unat (push_bit 8 (mRD m)) = 256 * unat (mRD m)" "unat (push_bit 7 (mRA m)) = 128 * unat (mRA m)"
    using f by (simp_all add: unat_push)
  have h: "header_fields m = push_bit 15 (mQr m) + push_bit 11 (mOpCode m) + push_bit 10 (mAA m) + push_bit 9 (mTC m)
      + push_bit 8 (mRD m) + push_bit 7 (mRA m) + (mRCode m AND 15)"
    using f by (simp only: header_fields_def and_1_id and_15_id)
  have s: "unat (x + y) = a + b" if "unat x = a" "unat y = b" "a + b < 100000" for x y :: u32 and a b
    using that by (simp add: unat_word_ariths)
  show ?thesis unfolding h fields_value_def by (intro s p refl; use f r in linarith)
qed

lemma div_part: "r < k \<Longrightarrow> (k * x + r) div k = (x::nat)" and mod_part: "r < k \<Longrightarrow> (k * x + r) mod k = (r::nat)"
  by simp_all

lemma unat_bit_field:
  "unat (bit_field w 15 1) = unat w div 32768 mod 2" "unat (bit_field w 11 15) = unat w div 2048 mod 16"
  "unat (bit_field w 10 1) = unat w div 1024 mod 2" "unat (bit_field w 9 1) = unat w div 512 mod 2"
  "unat (bit_field w 8 1) = unat w div 256 mod 2" "unat (bit_field w 7 1) = unat w div 128 mod 2"
  by (simp_all only: bit_field_def unat_and_masks unat_drop32) simp_all

lemma header_bits:
  assumes "flags_ok m"
  shows "bit_field (header_fields m) 15 1 = mQr m" "bit_field (header_fields m) 11 15 = mOpCode m"
    "bit_field (header_fields m) 10 1 = mAA m" "bit_field (header_fields m) 9 1 = mTC m"
    "bit_field (header_fields m) 8 1 = mRD m" "bit_field (header_fields m) 7 1 = mRA m"
proof -
  obtain q p a t d r c where n: "unat (mQr m) = q" "unat (mOpCode m) = p" "unat (mAA m) = a" "unat (mTC m) = t"
    "unat (mRD m) = d" "unat (mRA m) = r" "unat (mRCode m AND 15) = c" by simp
  have b: "q < 2" "p < 16" "a < 2" "t < 2" "d < 2" "r < 2" "c < 16"
    using assms n by (auto simp: flags_ok_def unat_and_masks)
  define x1 where "x1 = 16 * q + p"
  define x2 where "x2 = 2 * x1 + a"
  define x3 where "x3 = 2 * x2 + t"
  define x4 where "x4 = 2 * x3 + d"
  define x5 where "x5 = 2 * x4 + r"
  let ?H = "unat (header_fields m)"
  have H: "?H = 128 * x5 + c"
    unfolding header_value [OF assms] fields_value_def n x5_def x4_def x3_def x2_def x1_def by (simp only: distrib_left mult.assoc [symmetric])
  have d: "?H div 128 = x5" "?H div 256 = x4" "?H div 512 = x3" "?H div 1024 = x2" "?H div 2048 = x1" "?H div 32768 = q"
  proof -
    have step: "?H div (j * k) = y" if "?H div j = k * y + z" "z < k" for j k y z :: nat
      using that by (simp only: div_mult2_eq div_part)
    show d1: "?H div 128 = x5" unfolding H by (rule div_part [OF b(7)[THEN less_le_trans]]) simp
    have "?H div (128 * 2) = x4" by (rule step [of 128 2 _ r]) (simp_all only: d1 x5_def b)
    then show d2: "?H div 256 = x4" by simp
    have "?H div (256 * 2) = x3" by (rule step [of 256 2 _ d]) (simp_all only: d2 x4_def b)
    then show d3: "?H div 512 = x3" by simp
    have "?H div (512 * 2) = x2" by (rule step [of 512 2 _ t]) (simp_all only: d3 x3_def b)
    then show d4: "?H div 1024 = x2" by simp
    have "?H div (1024 * 2) = x1" by (rule step [of 1024 2 _ a]) (simp_all only: d4 x2_def b)
    then show d5: "?H div 2048 = x1" by simp
    have "?H div (2048 * 16) = q" by (rule step [of 2048 16 _ p]) (simp_all only: d5 x1_def b)
    then show "?H div 32768 = q" by simp
  qed
  have "?H div 32768 mod 2 = q" "?H div 2048 mod 16 = p" "?H div 1024 mod 2 = a" "?H div 512 mod 2 = t"
    "?H div 256 mod 2 = d" "?H div 128 mod 2 = r"
    unfolding d x1_def x2_def x3_def x4_def x5_def using b by (simp_all only: mod_part mod_less)
  then show "bit_field (header_fields m) 15 1 = mQr m" "bit_field (header_fields m) 11 15 = mOpCode m"
    "bit_field (header_fields m) 10 1 = mAA m" "bit_field (header_fields m) 9 1 = mTC m"
    "bit_field (header_fields m) 8 1 = mRD m" "bit_field (header_fields m) 7 1 = mRA m"
    by (simp_all only: word_unat_eq_iff unat_bit_field n)
qed

lemma header_small:
  assumes "flags_ok m"
  shows "unat (header_fields m) < 65536"
proof -
  have "unat (mRCode m AND 15) < 16" by (simp add: unat_and_masks)
  then show ?thesis using assms unfolding header_value [OF assms] fields_value_def flags_ok_def by linarith
qed


definition header_list :: "Message \<Rightarrow> field list" where
  "header_list m = [W16 (mId m), W16 (header_fields m), W16 (word_of_nat (length (mQueries m))),
     W16 (word_of_nat (length (mAnswers m))), W16 (word_of_nat (length (mAuthorities m))), W16 (word_of_nat (length (mAdditional m)))]"

definition message_image :: "bytes \<Rightarrow> Message \<Rightarrow> nat \<Rightarrow> bool" where
  "message_image d m e = (\<exists>h q1 q2 q3. images field_image d 0 (header_list m) h \<and> images qs_image d h (mQueries m) q1
     \<and> images rr_image d q1 (mAnswers m) q2 \<and> images rr_image d q2 (mAuthorities m) q3 \<and> images rr_image d q3 (mAdditional m) e)"

lemma message_put_image:
  assumes "message_ok m" "writable b" "mBufferPtr b = 0" "encode_body m b = Inr (m', b')"
    "\<forall>rr\<in>set (records m'). unat (rr_data_size rr) < 256"
  shows "message_image (written b') m' (mBufferPtr b') \<and> writable b'
    \<and> m' = m\<lparr>mAnswers := mAnswers m', mAuthorities := mAuthorities m', mAdditional := mAdditional m'\<rparr>
    \<and> message_ok m' \<and> map unsized (mAnswers m') = map unsized (mAnswers m)
    \<and> map unsized (mAuthorities m') = map unsized (mAuthorities m) \<and> map unsized (mAdditional m') = map unsized (mAdditional m)"
proof -
  have fo: "flags_ok m" using assms(1) by (simp add: message_ok_def)
  obtain b1 b2 b3 b4 an ns ar where st: "put_each put_field (header_list m) b = Inr ((), b1)"
    "put_each qs_encode (mQueries m) b1 = Inr ((), b2)" "encode_each rr_encode (mAnswers m) b2 = Inr (an, b3)"
    "encode_each rr_encode (mAuthorities m) b3 = Inr (ns, b4)" "encode_each rr_encode (mAdditional m) b4 = Inr (ar, b')"
    "m' = m\<lparr>mAnswers := an, mAuthorities := ns, mAdditional := ar\<rparr>"
    using assms(4) by (auto simp: encode_body_def header_list_def follow_Inr yield_def)
  have n: "unat (word_of_nat k :: u32) = k" if "k < 65536" for k
    using that by (simp add: unsigned_of_nat take_bit_nat_eq_self)
  have "\<forall>f\<in>set (header_list m). field_ok f"
    using assms(1) header_small [OF fo] by (simp add: header_list_def message_ok_def n)
  from fld.put_images [OF this assms(2) st(1)] obtain x1 where
    x1: "adds b x1 b1" and i1: "images field_image (written b1) 0 (header_list m) (mBufferPtr b1)" by (auto simp: assms(3))
  have "\<forall>q\<in>set (mQueries m). qs_ok q" using assms(1) by (simp add: message_ok_def)
  from qry.put_images [OF this adds_writable [OF x1] st(2)] obtain x2 where
    x2: "adds b1 x2 b2" and i2: "images qs_image (written b2) (mBufferPtr b1) (mQueries m) (mBufferPtr b2)" by auto
  have ok: "\<forall>rr\<in>set (mAnswers m). rr_ok rr" "\<forall>rr\<in>set (mAuthorities m). rr_ok rr" "\<forall>rr\<in>set (mAdditional m). rr_ok rr"
    and small: "\<forall>rr\<in>set an. unat (rr_data_size rr) < 256" "\<forall>rr\<in>set ns. unat (rr_data_size rr) < 256" "\<forall>rr\<in>set ar. unat (rr_data_size rr) < 256"
    using assms(1,5) st(6) by (auto simp: message_ok_def records_def)
  from put_rr_images [OF ok(1) adds_writable [OF x2] st(3) small(1)] obtain x3 where
    x3: "adds b2 x3 b3" and i3: "images rr_image (written b3) (mBufferPtr b2) an (mBufferPtr b3)" "length an = length (mAnswers m)"
      "\<forall>rr\<in>set an. rr_ok rr" "map unsized an = map unsized (mAnswers m)" by auto
  from put_rr_images [OF ok(2) adds_writable [OF x3] st(4) small(2)] obtain x4 where
    x4: "adds b3 x4 b4" and i4: "images rr_image (written b4) (mBufferPtr b3) ns (mBufferPtr b4)" "length ns = length (mAuthorities m)"
      "\<forall>rr\<in>set ns. rr_ok rr" "map unsized ns = map unsized (mAuthorities m)" by auto
  from put_rr_images [OF ok(3) adds_writable [OF x4] st(5) small(3)] obtain x5 where
    x5: "adds b4 x5 b'" and i5: "images rr_image (written b') (mBufferPtr b4) ar (mBufferPtr b')" "length ar = length (mAdditional m)"
      "\<forall>rr\<in>set ar. rr_ok rr" "map unsized ar = map unsized (mAdditional m)" by auto
  have w: "written b' = written b4 @ x5" "written b4 = written b3 @ x4" "written b3 = written b2 @ x3" "written b2 = written b1 @ x2"
    using adds_written [OF x5] adds_written [OF x4] adds_written [OF x3] adds_written [OF x2] .
  have hl: "header_list m' = header_list m" using st(6) i3(2) i4(2) i5(2) by (simp add: header_list_def header_fields_def)
  have "message_image (written b') m' (mBufferPtr b')"
    unfolding message_image_def
  proof (intro exI conjI)
    show "images field_image (written b') 0 (header_list m') (mBufferPtr b1)"
      unfolding hl w by (intro fld.images_append i1)
    show "images qs_image (written b') (mBufferPtr b1) (mQueries m') (mBufferPtr b2)"
      using i2 st(6) unfolding w(1-3) by (simp add: qry.images_append)
    show "images rr_image (written b') (mBufferPtr b2) (mAnswers m') (mBufferPtr b3)"
      using i3(1) st(6) unfolding w(1,2) by (simp add: rr_images_append)
    show "images rr_image (written b') (mBufferPtr b3) (mAuthorities m') (mBufferPtr b4)"
      using i4(1) st(6) unfolding w(1) by (simp add: rr_images_append)
    show "images rr_image (written b') (mBufferPtr b4) (mAdditional m') (mBufferPtr b')" using i5(1) st(6) by simp
  qed
  moreover have "message_ok m'"
    using assms(1) i3 i4 i5 st(6) by (auto simp: message_ok_def records_def flags_ok_def)
  ultimately show ?thesis using st(6) i3(4) i4(4) i5(4) adds_writable [OF x5] by simp
qed

lemma message_get_image:
  assumes "message_image d m (length d)" "message_ok m" "length d \<le> 512"
    "records m = [] \<or> \<not> rr_ends_with_name (last (records m))"
  shows "message_decode d this = Inr (m\<lparr>mRCode := mRCode this\<rparr>)"
proof -
  have fo: "flags_ok m" using assms(2) by (simp add: message_ok_def)
  obtain h q1 q2 q3 where i: "images field_image d 0 (header_list m) h" "images qs_image d h (mQueries m) q1"
     "images rr_image d q1 (mAnswers m) q2" "images rr_image d q2 (mAuthorities m) q3" "images rr_image d q3 (mAdditional m) (length d)"
    using assms(1) unfolding message_image_def by blast
  obtain h1 h2 h3 h4 h5 where hd: "field_image d 0 (W16 (mId m)) h1" "field_image d h1 (W16 (header_fields m)) h2"
    "field_image d h2 (W16 (word_of_nat (length (mQueries m)))) h3" "field_image d h3 (W16 (word_of_nat (length (mAnswers m)))) h4"
    "field_image d h4 (W16 (word_of_nat (length (mAuthorities m)))) h5" "field_image d h5 (W16 (word_of_nat (length (mAdditional m)))) h"
    using i(1) by (auto simp: header_list_def simp del: field_image.simps)
  note get = get_image(1) [OF assms(3)]
  have ok: "\<forall>rr\<in>set (mAnswers m). rr_ok rr" "\<forall>rr\<in>set (mAuthorities m). rr_ok rr" "\<forall>rr\<in>set (mAdditional m). rr_ok rr"
    using assms(2) by (auto simp: message_ok_def records_def)
  have n: "unat (word_of_nat k :: u32) = k" if "k < 65536" for k
    using that by (simp add: unsigned_of_nat take_bit_nat_eq_self)
  have cnt: "unat (word_of_nat (length (mQueries m)) :: u32) = length (mQueries m)" "unat (word_of_nat (length (mAnswers m)) :: u32) = length (mAnswers m)"
    "unat (word_of_nat (length (mAuthorities m)) :: u32) = length (mAuthorities m)" "unat (word_of_nat (length (mAdditional m)) :: u32) = length (mAdditional m)"
    using assms(2) by (simp_all add: message_ok_def n)
  have bd: "q2 \<le> q3" "q3 \<le> length d" "mAuthorities m \<noteq> [] \<Longrightarrow> q2 < q3" "mAdditional m \<noteq> [] \<Longrightarrow> q3 < length d"
  proof -
    have first: "p < e" if g: "images rr_image d p rrs e" "rrs \<noteq> []" for p rrs e
    proof -
      obtain r rs where r: "rrs = r # rs" using g(2) by (cases rrs) auto
      then obtain m where "rr_image d p r m" "images rr_image d m rs e" using g(1) by auto
      then show ?thesis using rr_image_bound rr_images_bound by fastforce
    qed
    show "q2 \<le> q3" "q3 \<le> length d" using rr_images_bound [OF i(4)] by auto
    show "mAuthorities m \<noteq> [] \<Longrightarrow> q2 < q3" "mAdditional m \<noteq> [] \<Longrightarrow> q3 < length d"
      using first [OF i(4)] first [OF i(5)] by auto
  qed
  have an: "get_each rr_decode (length (mAnswers m)) (rd d q1 []) = Inr (mAnswers m, rd d q2 [])"
  proof (rule rr_each_image [OF i(3) assms(3) ok(1)])
    assume "mAnswers m \<noteq> []" "rr_ends_with_name (last (mAnswers m))"
    then have "mAuthorities m \<noteq> [] \<or> mAdditional m \<noteq> []" using assms(4) by (auto simp: records_def)
    then show "q2 < length d" using bd by linarith
  qed
  have ns: "get_each rr_decode (length (mAuthorities m)) (rd d q2 []) = Inr (mAuthorities m, rd d q3 [])"
  proof (rule rr_each_image [OF i(4) assms(3) ok(2)])
    assume "mAuthorities m \<noteq> []" "rr_ends_with_name (last (mAuthorities m))"
    then have "mAdditional m \<noteq> []" using assms(4) by (auto simp: records_def)
    then show "q3 < length d" using bd by linarith
  qed
  have ar: "get_each rr_decode (length (mAdditional m)) (rd d q3 []) = Inr (mAdditional m, rd d (length d) [])"
    by (rule rr_each_image [OF i(5) assms(3) ok(3)]) (use assms(4) in \<open>auto simp: records_def\<close>)
  have "decode_body this (rd d 0 []) = Inr (m\<lparr>mRCode := mRCode this\<rparr>, rd d (length d) [])"
    by (simp add: decode_body_def get [OF hd(1)] get [OF hd(2)] get [OF hd(3)] get [OF hd(4)] get [OF hd(5)] get [OF hd(6)]
        cnt qs_each_image [OF i(2) assms(3)] an ns ar header_bits [OF fo] yield_def)
  then show ?thesis using assms(3) by (simp add: message_decode_def MAX_MSG_LEN_def new_buffer_def)
qed

text \<open>C6: What \<open>Message::encode\<close> wrote is what \<open>Message::decode\<close> reads, compression of names included, for messages of
  this kind.
  \<^item> Header: the identifier has 16 bits, every flag its bits, and no section more than 65535 entries.
  \<^item> Names have at most 254 bytes, in labels of 1 to 63 bytes without zeros and dots.
  \<^item> Records: the type is the one of the data, which is not WKS; texts have at most 255 bytes, addresses their size,
    other strings of bytes are not empty; and the encoded data of each takes less than 256 bytes (a link may lead to a
    name that ends with the zero that stands in the place of the length first, whose high byte then stays zero).
  \<^item> The data of the last record does not end with a name: a link at the very end is not decoded (\<open>name_link_at_end\<close>).
  \<^item> The encoding takes at most 512 bytes, in a buffer of at most 16384.

  The decoder then returns the message with the lengths of the data that encoding stored, except the response code,
  which it leaves as it was; and encoding changes nothing of the message but those lengths.\<close>

theorem message_roundtrip:
  assumes "message_ok m" "length buf \<le> 16384" "message_encode m buf = Inr (d, n, m')" "n \<le> 512" "encoded_ok m'"
  shows "message_decode (take n d) this = Inr (m'\<lparr>mRCode := mRCode this\<rparr>)
    \<and> m' = m\<lparr>mAnswers := mAnswers m', mAuthorities := mAuthorities m', mAdditional := mAdditional m'\<rparr>
    \<and> map unsized (records m') = map unsized (records m)"
proof -
  obtain b' where b': "encode_body m (new_buffer buf) = Inr (m', b')" "d = mBuffer b'" "n = mBufferPtr b'"
    using assms(3) by (auto simp: message_encode_def split: sum.splits)
  have "writable (new_buffer buf)" "mBufferPtr (new_buffer buf) = 0" using assms(2) by (simp_all add: writable_def new_buffer_def)
  note im = message_put_image [OF assms(1) this b'(1)]
  have "written b' = take n d" using b' by (simp add: written_def)
  moreover have "length (written b') = n" using length_written im assms(5) b' by (simp add: encoded_ok_def)
  ultimately show ?thesis using im message_get_image [of "take n d" m' this] assms(4,5) b'(3)
    by (simp add: encoded_ok_def records_def)
qed

text \<open>A response with an alias and an address; the names after the first are compressed.\<close>

definition sample_message :: Message where
  "sample_message = new_Message\<lparr>mId := 0x1234, mQr := 1, mRD := 1,
     mQueries := [\<lparr>mQName = [98, 98, 46, 99], mQType = 1, mQClass = QCLASS_IN\<rparr>],
     mAnswers := [setRData (RDataWithName RDATA_CNAME [97, 46, 99]) (new_ResourceRecord\<lparr>rr_name := [98, 98, 46, 99], rr_ttl := 300\<rparr>),
       setRData (RDataA [192, 0, 2, 7]) (new_ResourceRecord\<lparr>rr_name := [97, 46, 99], rr_ttl := 300\<rparr>)]\<rparr>"

definition sample_run :: "bytes \<times> nat \<times> Message" where
  "sample_run = (case message_encode sample_message (replicate 80 0) of Inr r \<Rightarrow> r | Inl _ \<Rightarrow> ([], 0, new_Message))"

lemma sample_run_props:
  "message_encode sample_message (replicate 80 0) = Inr (fst sample_run, 56, snd (snd sample_run))" "encoded_ok (snd (snd sample_run))"
  unfolding sample_run_def by code_simp+

lemma sample_ok: "message_ok sample_message"
proof -
  have "name_ok [98, 98, 46, 99]" "name_ok [97, 46, 99]"
    unfolding name_ok_def
    by (simp, rule exI [of _ "[[98, 98], [99]]"], simp add: join_def dot_append_def)
      (simp, rule exI [of _ "[[97], [99]]"], simp add: join_def dot_append_def)
  then show ?thesis
    by (simp add: message_ok_def sample_message_def new_Message_def flags_ok_def qs_ok_def qs_fields_def QCLASS_IN_def
        records_def rr_ok_def setRData_def new_ResourceRecord_def rdata_ok_def CLASS_IN_def)
qed

lemma message_roundtrip_witness:
  "message_decode (take 56 (fst sample_run)) new_Message = Inr ((snd (snd sample_run))\<lparr>mRCode := mRCode new_Message\<rparr>)
    \<and> snd (snd sample_run) = sample_message\<lparr>mAnswers := mAnswers (snd (snd sample_run)),
         mAuthorities := mAuthorities (snd (snd sample_run)), mAdditional := mAdditional (snd (snd sample_run))\<rparr>
    \<and> map unsized (records (snd (snd sample_run))) = map unsized (records sample_message)"
  by (rule message_roundtrip [OF sample_ok _ sample_run_props(1) _ sample_run_props(2)]) simp_all

end
