(* ===== verification/Dns.thy ===== *)
theory Dns
  imports Dnsround Os Utils Base64
begin

text \<open>
  \<open>dns.cpp\<close>: the resolution of a host name, by the literal address, the custom addresses, DNS over
  HTTPS, the builtin resolver over UDP, or the resolver of the system. \<open>getaddrinfo\<close>, the HTTPS client
  of cpp-httplib and OpenSSL's store are parameters.
\<close>

record net =
  getaddrinfo :: "hist \<Rightarrow> string \<Rightarrow> (bool \<times> u32) list option"
  https_get :: "hist \<Rightarrow> string \<Rightarrow> string option \<Rightarrow> string \<Rightarrow> bytes option"
  x509_store :: bool

definition inet_ntop :: "u32 \<Rightarrow> string" where
  "inet_ntop a = to_string (uint (drop_bit 24 a)) @ ''.'' @ to_string (uint (drop_bit 16 a AND 255)) @ ''.''
     @ to_string (uint (drop_bit 8 a AND 255)) @ ''.'' @ to_string (uint (a AND 255))"

section \<open>The resolver of the system\<close>

text \<open>The result of \<open>getaddrinfo\<close> as a list: whether the address is of IPv4, and the address. The
  text of the address and its zero byte overwrite fifty spaces; what stands before the first space
  is the result.\<close>

definition system_ip :: "u32 \<Rightarrow> string" where
  "system_ip a =
     (let written = inet_ntop a @ [CHR 0x00];
          ip = written @ replicate (50 - length written) (CHR '' '')
      in case find_char (CHR '' '') ip 0 of Some p \<Rightarrow> take p ip | None \<Rightarrow> ip)"

definition resolve_host_over_system :: "net \<Rightarrow> string \<Rightarrow> (int \<times> string) io" where
  "resolve_host_over_system N host = bnd (ask (\<lambda>h. getaddrinfo N h (c_str host))) (\<lambda>res.
     case res of
       None \<Rightarrow> ret (-1, replicate 50 (CHR '' ''))
     | Some as \<Rightarrow> ret (case List.find fst as of
         Some (_, a) \<Rightarrow> (0, system_ip a)
       | None \<Rightarrow> (-1, replicate 50 (CHR '' ''))))"

section \<open>The request\<close>

definition form_dns_request :: "string \<Rightarrow> u16 \<Rightarrow> dns_stop + bytes" where
  "form_dns_request host req_id =
     (if host = [] then Inl Bad_access
      else let host_full = (if last host \<noteq> CHR ''.'' then host @ ''.'' else host);
               qs = (new_QuerySection (bytes_of host_full))\<lparr>mQType := rdata_code RDATA_A, mQClass := QCLASS_IN\<rparr>;
               dns_msg = new_Message\<lparr>mQr := 0, mQueries := [qs], mId := ucast req_id, mRD := 1\<rparr>
           in case message_encode dns_msg (replicate 2048 32) of
                Inl e \<Rightarrow> Inl e
              | Inr (dns_buf, dns_msg_size, m) \<Rightarrow> Inr (resize 0 dns_msg_size dns_buf))"

definition dns_request :: "string \<Rightarrow> u16 \<Rightarrow> bytes io" where
  "dns_request host req_id = (case form_dns_request host req_id of
     Inl Exception \<Rightarrow> raise (Throw ''dns::Exception'')
   | Inl Bad_access \<Rightarrow> raise Undefined
   | Inr d \<Rightarrow> ret d)"

section \<open>The answer\<close>

text \<open>The address in the first record of type A. The record has no data when its length is zero, and
  \<open>getAddress\<close> is called on the null pointer.\<close>

definition addr_text :: "bytes \<Rightarrow> string" where
  "addr_text a = to_string (uint (a ! 0)) @ ''.'' @ to_string (uint (a ! 1)) @ ''.''
     @ to_string (uint (a ! 2)) @ ''.'' @ to_string (uint (a ! 3))"

fun take_answer :: "ResourceRecord list \<Rightarrow> string \<Rightarrow> (int \<times> string) io" where
  "take_answer [] ip = ret (-1, ip)"
| "take_answer (rr # rrs) ip =
     (if rr_type rr \<noteq> rdata_code RDATA_A then take_answer rrs ip
      else case rr_data rr of
        Some (RDataA addr) \<Rightarrow> ret (0, addr_text addr)
      | _ \<Rightarrow> raise Undefined)"

section \<open>The builtin resolver\<close>

definition close_fail :: "int \<Rightarrow> 'a io" where
  "close_fail sock = then_do (close sock) (raise (Return (-1)))"

definition check_id :: "u16 \<Rightarrow> Message \<Rightarrow> bool" where
  "check_id dns_req_id m = (mId m = ucast dns_req_id)"

fun udp_loop :: "nat \<Rightarrow> os \<Rightarrow> u32 \<Rightarrow> int \<Rightarrow> u16 \<Rightarrow> int \<Rightarrow> Message \<Rightarrow> Message io" where
  "udp_loop 0 e timeout sock dns_req_id start this = raise Out_of_fuel"
| "udp_loop (Suc n) e timeout sock dns_req_id start this = bnd (now_ms e) (\<lambda>stop.
     if uint timeout \<le> stop - start then close_fail sock
     else bnd (poll e [sock] (c_int (uint timeout - (stop - start)))) (\<lambda>r.
       case r of
         Poll_error er \<Rightarrow> close_fail sock
       | Poll_timeout \<Rightarrow> udp_loop n e timeout sock dns_req_id start this
       | Poll_ready rs \<Rightarrow>
           if fst (rs ! 0) then close_fail sock
           else if snd (rs ! 0) then bnd (recv e sock 512) (\<lambda>d.
             case d of
               Err er \<Rightarrow> close_fail sock
             | Ok bs \<Rightarrow>
                 if bs = [] then close_fail sock
                 else case message_decode bs this of
                   Inl ex \<Rightarrow> if ex = Exception then close_fail sock else raise Undefined
                 | Inr m \<Rightarrow> if check_id dns_req_id m then ret m
                            else udp_loop n e timeout sock dns_req_id start m)
           else udp_loop n e timeout sock dns_req_id start this))"

definition returning_with :: "'b \<Rightarrow> (int \<times> 'b) io \<Rightarrow> (int \<times> 'b) io" where
  "returning_with x m = (\<lambda>h. case m h of (Inl (Return r), h') \<Rightarrow> (Inr (r, x), h') | y \<Rightarrow> y)"

definition udp_body :: "nat \<Rightarrow> os \<Rightarrow> Settings_perst_s \<Rightarrow> Profile_s \<Rightarrow> string \<Rightarrow> string \<Rightarrow> (int \<times> string) io" where
  "udp_body fuel e S P host ip = bnd (rand e) (\<lambda>r.
     let dns_req_id = word_of_nat (r mod 65535) :: u16 in
     bnd (dns_request host dns_req_id) (\<lambda>dns_req.
     bnd (socket e SOCK_DGRAM) (\<lambda>s.
       case s of
         None \<Rightarrow> raise (Return (-1))
       | Some sock \<Rightarrow>
           (case inet_pton (builtin_dns_ip P) of
              None \<Rightarrow> close_fail sock
            | Some a \<Rightarrow>
                bnd (sendto e sock (Sockaddr a (word_of_int (builtin_dns_port P))) dns_req) (\<lambda>ok.
                  if \<not> ok then close_fail sock
                  else bnd (now_ms e) (\<lambda>start.
                    bnd (udp_loop fuel e (builtin_dns_req_timeout S) sock dns_req_id start new_Message) (\<lambda>m.
                      then_do (close sock) (take_answer (mAnswers m) ip))))))))"

definition resolve_host_over_udp :: "nat \<Rightarrow> os \<Rightarrow> Settings_perst_s \<Rightarrow> Profile_s \<Rightarrow> string \<Rightarrow> string \<Rightarrow> (int \<times> string) io" where
  "resolve_host_over_udp fuel e S P host ip = returning_with ip (udp_body fuel e S P host ip)"

section \<open>DNS over HTTPS\<close>

text \<open>The server and the path in front of the encoded request; \<open>back()\<close> of an empty string is
  undefined.\<close>

definition doh_url :: "string \<Rightarrow> (string \<times> string) option" where
  "doh_url url =
     (let serv1 = (if 8 \<le> length url \<and> take 8 url = ''https://'' then erase 0 8 url else url)
      in if serv1 = [] then None
         else let serv2 = (if last serv1 = CHR ''/'' then butlast serv1 else serv1)
              in case find_char (CHR ''/'') serv2 0 of
                   Some p \<Rightarrow> Some (take p serv2, drop p serv2 @ ''?dns='')
                 | None \<Rightarrow> Some (serv2, ''/dns-query?dns=''))"

definition doh_address :: "nat \<Rightarrow> os \<Rightarrow> Settings_perst_s \<Rightarrow> Profile_s \<Rightarrow> string \<Rightarrow> string option io" where
  "doh_address fuel e S P serv_host =
     (if builtin_dns P then
        (case inet_pton serv_host of
           Some a \<Rightarrow> ret (Some serv_host)
         | None \<Rightarrow> bnd (resolve_host_over_udp fuel e S P serv_host []) (\<lambda>(r, serv_ip).
             if r \<noteq> 0 then raise (Return (-1)) else ret (Some serv_ip)))
      else ret None)"

definition doh_body :: "nat \<Rightarrow> os \<Rightarrow> net \<Rightarrow> Settings_perst_s \<Rightarrow> Profile_s \<Rightarrow> string \<Rightarrow> string \<Rightarrow> (int \<times> string) io" where
  "doh_body fuel e N S P host ip = bnd (rand e) (\<lambda>r.
     bnd (dns_request host (word_of_nat (r mod 65535))) (\<lambda>dns_req.
     bnd (the_or Undefined (doh_url (doh_server P))) (\<lambda>(serv_host, prefix).
       let path = prefix @ base64_encode dns_req in
       bnd (doh_address fuel e S P serv_host) (\<lambda>addr.
         if \<not> x509_store N then raise (Return (-1))
         else bnd (sys (Https_get serv_host addr path) (\<lambda>h. https_get N h serv_host addr path)) (\<lambda>res.
           case res of
             None \<Rightarrow> raise (Return (-1))
           | Some response_string \<Rightarrow>
               (case message_decode response_string new_Message of
                  Inl ex \<Rightarrow> raise (if ex = Exception then Return (-1) else Undefined)
                | Inr m \<Rightarrow> take_answer (mAnswers m) ip))))))"

definition resolve_host_over_doh :: "nat \<Rightarrow> os \<Rightarrow> net \<Rightarrow> Settings_perst_s \<Rightarrow> Profile_s \<Rightarrow> string \<Rightarrow> string \<Rightarrow> (int \<times> string) io" where
  "resolve_host_over_doh fuel e N S P host ip = returning_with ip (doh_body fuel e N S P host ip)"

section \<open>\<open>resolve_host\<close>\<close>

definition resolve_host :: "nat \<Rightarrow> os \<Rightarrow> net \<Rightarrow> Settings_perst_s \<Rightarrow> Profile_s \<Rightarrow> string \<Rightarrow> string \<Rightarrow> (int \<times> string) io" where
  "resolve_host fuel e N S P host ip =
     (if host = [] then ret (-1, ip)
      else if inet_pton host \<noteq> None then ret (0, host)
      else if find_custom_ip S host \<noteq> [] then ret (0, find_custom_ip S host)
      else if doh P then resolve_host_over_doh fuel e N S P host ip
      else if builtin_dns P then resolve_host_over_udp fuel e S P host ip
      else resolve_host_over_system N host)"

end
