(* ===== verification/Dnsreq.thy ===== *)
theory Dnsreq
  imports Dns
begin

text \<open>
  The requests of \<open>dns.cpp\<close>: which bytes \<open>form_dns_request\<close> builds for a host name, and for which names
  it builds an unreadable request or throws.
\<close>

section \<open>The request for a host name\<close>

text \<open>Labels as in host names: their characters are above every length byte.\<close>

definition host_label :: "bytes \<Rightarrow> bool" where
  "host_label l = (l \<noteq> [] \<and> length l < 45 \<and> (\<forall>c\<in>set l. 45 \<le> c \<and> c \<noteq> 46))"

definition host_labels :: "bytes list \<Rightarrow> bool" where
  "host_labels ls = (\<forall>l\<in>set ls. host_label l)"

lemma host_labels_simps [simp]:
  "host_labels []" "host_labels (l # ls) \<longleftrightarrow> host_label l \<and> host_labels ls"
  "host_labels (us @ vs) \<longleftrightarrow> host_labels us \<and> host_labels vs"
  by (auto simp: host_labels_def)

lemma host_labels_ok: "host_labels ls \<Longrightarrow> labels_ok ls"
  by (fastforce simp: host_labels_def labels_ok_def host_label_def)

lemma length_code: "host_label l \<Longrightarrow> unat (word_of_nat (length l) :: u8) = length l"
  by (simp add: host_label_def unsigned_of_nat take_bit_nat_eq_self)

lemma code_small: "host_label l \<Longrightarrow> (word_of_nat (length l) :: u8) < 45"
  using length_code [of l] by (simp add: word_less_nat_alt host_label_def)

lemma code_inj: "host_label l \<Longrightarrow> host_label l' \<Longrightarrow> (word_of_nat (length l) :: u8) = word_of_nat (length l') \<Longrightarrow> length l = length l'"
  using length_code by metis

lemma code_not_char: "host_label l \<Longrightarrow> 45 \<le> (c::u8) \<Longrightarrow> c \<noteq> word_of_nat (length l)"
  using code_small [of l] by auto

text \<open>A sequence of labels found within others starts at a label, and its first and last are among them.\<close>

lemma at_shift: "at (u @ d) (length u + p) x \<longleftrightarrow> at d p x"
  by (auto simp: at_def nth_append)

lemma at_mid: "at (u @ x @ v) (length u) x"
  by (simp add: at_def nth_append)

lemma at_first:
  assumes "host_label u" "host_label v" "at (wire (u # us)) 0 (wire (v # vs))"
  shows "u = v" "at (wire us) 0 (wire vs)"
proof -
  let ?d = "word_of_nat (length u) # u @ wire us"
  have a: "?d ! 0 = word_of_nat (length v)" "at ?d 1 (v @ wire vs)" using assms(3) by auto
  then have l: "length u = length v" using code_inj [OF assms(1,2)] by simp
  have "at ?d 1 v" using a(2) by simp
  then have "\<forall>i<length v. u ! i = v ! i" using l by (auto simp: at_def nth_append)
  then show "u = v" using l by (auto intro: nth_equalityI)
  have "at ((word_of_nat (length u) # u) @ wire us) (length (word_of_nat (length u) # u) + 0) (wire vs)"
    using a(2) l by simp
  then show "at (wire us) 0 (wire vs)" unfolding at_shift .
qed

lemma at_start_mem:
  "host_labels us \<Longrightarrow> host_labels vs \<Longrightarrow> vs \<noteq> [] \<Longrightarrow> at (wire us) 0 (wire vs) \<Longrightarrow> hd vs \<in> set us \<and> last vs \<in> set us"
proof (induction vs arbitrary: us)
  case (Cons v vs)
  obtain u us' where us: "us = u # us'" using Cons.prems by (cases us) auto
  have uv: "host_label u" "host_label v" "at (wire (u # us')) 0 (wire (v # vs))"
    using Cons.prems us by (simp_all del: wire_simps)
  note e = at_first [OF uv]
  show ?case
  proof (cases "vs = []")
    case False
    then have "last vs \<in> set us'" using Cons.IH [of us'] e(2) Cons.prems us by simp
    then show ?thesis using e us False by simp
  qed (use e us in simp)
qed simp

lemma at_mem:
  "host_labels us \<Longrightarrow> host_labels vs \<Longrightarrow> vs \<noteq> [] \<Longrightarrow> at (wire us) q (wire vs) \<Longrightarrow> hd vs \<in> set us \<and> last vs \<in> set us"
proof (induction us arbitrary: q)
  case Nil
  then show ?case by (cases vs) auto
next
  case (Cons u us)
  obtain v vs' where vs: "vs = v # vs'" using Cons.prems by (cases vs) auto
  consider "q = 0" | "0 < q" "q \<le> length u" | "length u < q" by linarith
  then show ?case
  proof cases
    case 1
    then show ?thesis using at_start_mem [of "u # us" vs] Cons.prems by simp
  next
    case 2
    then have "wire (u # us) ! q = u ! (q - 1)" by (auto simp: nth_append nth_Cons')
    moreover have "wire (u # us) ! q = word_of_nat (length v)" using Cons.prems(4) vs by simp
    moreover have "45 \<le> u ! (q - 1)" using 2 Cons.prems(1) by (auto simp: host_label_def)
    ultimately show ?thesis using code_not_char [of v] Cons.prems(2) vs by fastforce
  next
    case 3
    then have "at ((word_of_nat (length u) # u) @ wire us) (length (word_of_nat (length u) # u) + (q - length u - 1)) (wire vs)"
      using Cons.prems(4) by simp
    then have "at (wire us) (q - length u - 1) (wire vs)" unfolding at_shift .
    then show ?thesis using Cons.IH Cons.prems by auto
  qed
qed

text \<open>The header of a request, in which no sequence of labels starts, except a label of one character.\<close>

definition request_header :: "u16 \<Rightarrow> bytes" where
  "request_header i = [ucast (drop_bit 8 i), ucast i, 1, 0, 0, 1, 0, 0, 0, 0, 0, 0]"

lemma not_in_header:
  assumes "host_labels vs" "vs \<noteq> []" "length vs = 1 \<Longrightarrow> 2 \<le> length (hd vs)"
    "at (request_header i @ d) q (wire vs)"
  shows "12 \<le> q"
proof (rule ccontr)
  assume "\<not> 12 \<le> q"
  obtain v vs' where vs: "vs = v # vs'" using assms(2) by (cases vs) auto
  obtain c v' where v: "v = c # v'" using assms(1) vs by (cases v) (auto simp: host_label_def)
  have v_ok: "host_label v" using assms(1) vs by simp
  have c: "45 \<le> c" using v_ok v by (auto simp: host_label_def)
  have n: "(word_of_nat (length v) :: u8) \<noteq> 0"
    using length_code [OF v_ok] v by (metis list.size(3) length_0_conv list.discI unat_0)
  let ?h = "request_header i @ d"
  have a: "?h ! q = word_of_nat (length v)" "?h ! Suc q = c" "at ?h (Suc (Suc q)) (v' @ wire vs')"
    using assms(4) vs v by auto
  have h: "?h ! 2 = 1" "?h ! 3 = 0" "?h ! 4 = 0" "?h ! 5 = 1" "?h ! 6 = 0" "?h ! 7 = 0" "?h ! 8 = 0" "?h ! 9 = 0" "?h ! 10 = 0" "?h ! 11 = 0"
    by (simp_all add: request_header_def)
  have "q = 0 \<or> q = 1 \<or> q = 2 \<or> q = 3 \<or> q = 4 \<or> q = 5 \<or> q = 6 \<or> q = 7 \<or> q = 8 \<or> q = 9 \<or> q = 10 \<or> q = 11"
    using \<open>\<not> 12 \<le> q\<close> by presburger
  moreover have one: "\<not> 45 \<le> (0::u8)" "\<not> 45 \<le> (1::u8)" by (simp_all add: word_le_nat_alt)
  ultimately have q: "q = 0" using a(1,2) c n h by (elim disjE) (simp_all add: numeral_eq_Suc)
  show False
  proof (cases v')
    case (Cons c2 v2)
    then have "?h ! 2 = c2" "45 \<le> c2" using a(3) q v_ok v by (auto simp: host_label_def numeral_2_eq_2)
    then show False using h(1) one by simp
  next
    case Nil
    then have "vs' \<noteq> []" using assms(3) vs v by (cases vs') auto
    then obtain w ws where w: "vs' = w # ws" by (cases vs') auto
    obtain c2 w' where c2: "w = c2 # w'" using assms(1) vs w by (cases w) (auto simp: host_label_def)
    then have "?h ! 3 = c2" "45 \<le> c2" using a(3) q Nil w assms(1) vs by (auto simp: host_label_def numeral_3_eq_3)
    then show False using h(2) one by simp
  qed
qed

lemma no_tip:
  assumes "host_labels us" "host_labels vs" "vs \<noteq> []" "length vs = 1 \<Longrightarrow> 2 \<le> length (hd vs)"
    "hd vs \<notin> set us \<or> last vs \<notin> set us"
  shows "find_tip (request_header i @ wire us) (wire vs) = None"
proof (cases "find_tip (request_header i @ wire us) (wire vs)")
  case (Some q)
  have a: "at (request_header i @ wire us) q (wire vs)" using find_tip_Some [OF Some] by simp
  have "12 \<le> q" by (rule not_in_header [OF assms(2,3) _ a]) (rule assms(4))
  moreover have "length (request_header i) = 12" by (simp add: request_header_def)
  ultimately have "at (wire us) (q - 12) (wire vs)" using a at_shift [of "request_header i" "wire us" "q - 12" "wire vs"] by simp
  then show ?thesis using at_mem [OF assms(1-3)] assms(5) by blast
qed

lemma compressed_plain:
  assumes "host_labels (us @ ls)" "ls \<noteq> []" "2 \<le> length (last ls)" "last ls \<notin> set us \<union> set (butlast ls)"
  shows "compressed (request_header i @ wire us) [] ls = wire ls @ [0]"
  using assms
proof (induction ls arbitrary: us)
  case (Cons l ls)
  have "find_tip (request_header i @ wire us) (wire (l # ls)) = None"
    by (rule no_tip) (use Cons.prems in \<open>auto split: if_splits\<close>)
  moreover have "compressed ((request_header i @ wire us) @ wire [l]) [] ls = wire ls @ [0]"
  proof (cases "ls = []")
    case False
    have "compressed (request_header i @ wire (us @ [l])) [] ls = wire ls @ [0]"
      by (rule Cons.IH) (use Cons.prems False in auto)
    then show ?thesis by simp
  qed simp
  ultimately show ?case by simp
qed simp


lemma length_compressed: "length (compressed w z ls) \<le> length (wire ls) + 2"
  using compressed_cases [of ls w z] by auto

lemma put_each_puts:
  assumes "\<And>v b. writable b \<Longrightarrow> puts (put v) (img v) b" "writable b"
  shows "puts (put_each put vs) (concat (map img vs)) b"
  using assms(2)
proof (induction vs arbitrary: b)
  case (Cons v vs)
  show ?case unfolding put_each.simps list.map concat.simps
    by (rule puts_follow [OF assms(1) [OF Cons.prems]]) (rule Cons.IH, erule adds_writable)
qed (simp add: puts_yield)

lemma follow_yield: "follow (yield x) f = f x"
  by (simp add: fun_eq_iff)

definition request_message :: "bytes \<Rightarrow> u16 \<Rightarrow> Message" where
  "request_message name i = new_Message\<lparr>mQr := 0,
     mQueries := [(new_QuerySection name)\<lparr>mQType := rdata_code RDATA_A, mQClass := QCLASS_IN\<rparr>], mId := ucast i, mRD := 1\<rparr>"

lemma request_header_wire: "concat (map wire16 [ucast i, 0x100, 1, 0, 0, 0]) = request_header i"
proof -
  have "wire16 (ucast i) = [ucast (drop_bit 8 i), ucast i]"
  proof -
    have "(ucast (drop_bit 8 (ucast i :: u32)) :: u8) = ucast (drop_bit 8 i)" "(ucast (ucast i :: u32) :: u8) = ucast i"
      by (rule byte_eqI; simp add: bit_simps)+
    then show ?thesis by (simp add: wire16_def)
  qed
  then show ?thesis by (simp add: request_header_def) (simp add: wire16_def)
qed

abbreviation request_question :: "bytes \<Rightarrow> QuerySection" where
  "request_question name \<equiv> (new_QuerySection name)\<lparr>mQType := rdata_code RDATA_A, mQClass := QCLASS_IN\<rparr>"

lemma request_body:
  "encode_body (request_message name i) = follow (follow (put_each put16bits [ucast i, 0x100, 1, 0, 0, 0])
     (\<lambda>_. qs_encode (request_question name))) (\<lambda>_. yield (request_message name i))"
  by (simp add: fun_eq_iff encode_body_def header_fields_def request_message_def new_Message_def follow_assoc follow_yield)

lemma request_buffer:
  "writable (new_buffer (replicate 2048 32))" "mBufferPtr (new_buffer (replicate 2048 32)) = 0"
  "length (mBuffer (new_buffer (replicate 2048 32))) = 2048" "written (new_buffer (replicate 2048 32)) = []"
  by (simp_all add: writable_def new_buffer_def written_def)

lemma request_header_puts:
  "puts (put_each put16bits [ucast i, 0x100, 1, 0, 0, 0]) (request_header i) (new_buffer (replicate 2048 32))"
  using put_each_puts [of put16bits wire16, OF put_int_puts(2) request_buffer(1), of "[ucast i, 0x100, 1, 0, 0, 0]"]
  by (simp only: request_header_wire)

lemma request_encode:
  assumes "labels_ok ls" "ls \<noteq> []" "length (join ls) \<le> 254"
  shows "\<exists>d m. message_encode (request_message (join ls @ [46]) i) (replicate 2048 32)
      = Inr (d, 16 + length (compressed (request_header i) [] ls), m)
    \<and> take (16 + length (compressed (request_header i) [] ls)) d = request_header i @ compressed (request_header i) [] ls @ [0, 1, 0, 1]
    \<and> length d = 2048"
proof -
  let ?b = "new_buffer (replicate 2048 32)" and ?q = "request_question (join ls @ [46])"
  have q: "puts (qs_encode ?q) (compressed (request_header i) [] ls @ [0, 1] @ [0, 1]) b1" if b1: "adds ?b (request_header i) b1" for b1
  proof -
    have w: "written b1 = request_header i" using adds_written [OF b1] request_buffer(4) by simp
    have one: "wire16 1 = [0, 1]" by (simp add: wire16_def)
    have "puts (putDnsDomainName (join ls @ [46]) True) (compressed (request_header i) [] ls) b1"
      using putDnsDomainName_puts(2) [OF assms(1,3) adds_writable [OF b1] assms(2)] w by simp
    then show ?thesis
      unfolding qs_encode_def
      by (intro puts_follow) (auto simp: new_QuerySection_def QCLASS_IN_def
          dest: adds_writable intro: put_int_puts(2) [of _ 1, unfolded one])
  qed
  let ?y = "request_header i @ (compressed (request_header i) [] ls @ [0, 1] @ [0, 1])"
  let ?m = "follow (put_each put16bits [ucast i, 0x100, 1, 0, 0, 0]) (\<lambda>_. qs_encode ?q)"
  have p: "puts ?m ?y ?b" by (rule puts_follow [OF request_header_puts q])
  have len: "length (request_header i) = 12" by (simp add: request_header_def)
  have "length (wire ls) \<le> 255" using length_wire [OF assms(1,2)] assms(3) by simp
  then have "mBufferPtr ?b + length ?y \<le> length (mBuffer ?b)"
    using length_compressed [of "request_header i" "[]" ls] request_buffer(2,3) len by simp
  from puts_room [OF p this] obtain b' where b': "?m ?b = Inr ((), b')" "adds ?b ?y b'" by blast
  have "encode_body (request_message (join ls @ [46]) i) ?b = Inr (request_message (join ls @ [46]) i, b')"
    unfolding request_body using b'(1) by (simp add: yield_def)
  then show ?thesis using b'(2) request_buffer len by (auto simp: message_encode_def adds_def written_def)
qed

lemma last_join: "labels_ok ls \<Longrightarrow> ls \<noteq> [] \<Longrightarrow> last (join ls) \<noteq> 46"
proof (induction ls)
  case (Cons l ls)
  then show ?case
  proof (cases "ls = []")
    case True
    then show ?thesis using Cons.prems by (metis join_one labels_ok_simps(2) last_in_set)
  next
    case False
    then show ?thesis using Cons join_nonempty [of ls] by (auto simp: join_more)
  qed
qed simp

lemma form_dns_request_compressed:
  assumes "labels_ok ls" "ls \<noteq> []" "length (join ls) \<le> 254" "bytes_of host = join ls"
  shows "form_dns_request host i = Inr (request_header i @ compressed (request_header i) [] ls @ [0, 1, 0, 1])"
proof -
  have ne: "host \<noteq> []" using assms(4) join_nonempty [OF assms(1)] assms(2) by (auto simp: bytes_of_def)
  have "last (bytes_of host) \<noteq> 46" unfolding assms(4) by (rule last_join [OF assms(1,2)])
  then have dot: "last host \<noteq> CHR ''.''" using ne by (auto simp: bytes_of_def last_map)
  have "form_dns_request host i = (case message_encode (request_message (join ls @ [46]) i) (replicate 2048 32) of
      Inl e \<Rightarrow> Inl e | Inr (dns_buf, dns_msg_size, m) \<Rightarrow> Inr (resize 0 dns_msg_size dns_buf))"
    using ne dot assms(4) by (simp add: form_dns_request_def request_message_def bytes_of_def)
  moreover obtain d m where "message_encode (request_message (join ls @ [46]) i) (replicate 2048 32)
      = Inr (d, 16 + length (compressed (request_header i) [] ls), m)"
    "take (16 + length (compressed (request_header i) [] ls)) d = request_header i @ compressed (request_header i) [] ls @ [0, 1, 0, 1]"
    "length d = 2048" using request_encode [OF assms(1-3)] by blast
  moreover from this have "16 + length (compressed (request_header i) [] ls) \<le> 2048"
    using length_compressed [of "request_header i" "[]" ls] length_wire [OF assms(1,2)] assms(3) by simp
  ultimately show ?thesis by (simp add: resize_def)
qed


text \<open>C20: The request for a host name of at most 254 characters is exactly the standard query (the header with the
  identifier and the recursion flag, the labels behind their lengths, the zero byte, type A and class IN), when every
  label has at most 44 characters, none below \<open>-\<close> (so that no character can be taken for the length of a label)
  and none a dot, and the last label has at least two characters and is not one of the labels before.
  Without these conditions the search for a compression tip may find the name where none is stored:
  \<open>form_dns_request_inside_label\<close>.\<close>

theorem form_dns_request_standard:
  assumes "host_labels ls" "ls \<noteq> []" "2 \<le> length (last ls)" "last ls \<notin> set (butlast ls)"
    "length (join ls) \<le> 254" "bytes_of host = join ls"
  shows "form_dns_request host i = Inr (request_header i @ wire ls @ [0, 0, 1, 0, 1])"
  using form_dns_request_compressed [OF host_labels_ok [OF assms(1)] assms(2,5,6), of i]
    compressed_plain [of "[]" ls i] assms(1-4) by simp

lemma form_dns_request_standard_witness:
  "form_dns_request ''dns.google'' 7 = Inr (request_header 7 @ wire [[100, 110, 115], [103, 111, 111, 103, 108, 101]] @ [0, 0, 1, 0, 1])"
  by (rule form_dns_request_standard)
    (simp_all add: host_label_def word_le_nat_alt join_def dot_append_def bytes_of_def)

text \<open>The characters 0 and a are found inside of the first label, where they read like the length of the second one and
  its characters: the request holds a link into the middle of a label, and the decoder of the library rejects it
  (\<open>inside_label_unreadable\<close>).\<close>

definition inside_host :: string where
  "inside_host = ''0'' @ replicate 48 (CHR ''a'') @ ''b.'' @ replicate 48 (CHR ''a'')"

definition inside_labels :: "bytes list" where
  "inside_labels = [[48] @ replicate 48 97 @ [98], replicate 48 97]"

lemma form_dns_request_inside_label:
  "form_dns_request inside_host 7 = Inr (request_header 7 @ wire [hd inside_labels] @ link 13 @ [0, 1, 0, 1])"
proof -
  have c: "compressed (request_header 7) [] inside_labels = wire [hd inside_labels] @ link 13" by code_simp
  show ?thesis
    using form_dns_request_compressed [of inside_labels inside_host 7] unfolding c
    by (simp add: inside_labels_def inside_host_def bytes_of_def join_def dot_append_def labels_ok_def)
qed

text \<open>A name that is stored at a position of a message, as RFC 1035 defines it: labels of 1 to 63 bytes behind their
  lengths, ended by the zero byte or by a link to a position where the rest is stored.\<close>

inductive name_at :: "bytes \<Rightarrow> nat \<Rightarrow> bytes list \<Rightarrow> bool" for d :: bytes where
  name_end: "p < length d \<Longrightarrow> d ! p = 0 \<Longrightarrow> name_at d p []"
| name_label: "p < length d \<Longrightarrow> unat (d ! p) = length l \<Longrightarrow> l \<noteq> [] \<Longrightarrow> length l \<le> 63 \<Longrightarrow> at d (p + 1) l
    \<Longrightarrow> name_at d (p + 1 + length l) ls \<Longrightarrow> name_at d p (l # ls)"
| name_link: "p + 1 < length d \<Longrightarrow> 192 \<le> unat (d ! p) \<Longrightarrow> name_at d (256 * (unat (d ! p) - 192) + unat (d ! (p + 1))) ls
    \<Longrightarrow> name_at d p ls"

lemma name_at_labels: "at d p (wire us) \<Longrightarrow> labels_ok us \<Longrightarrow> name_at d (p + length (wire us)) vs \<Longrightarrow> name_at d p (us @ vs)"
proof (induction us arbitrary: p)
  case (Cons u us)
  have a: "at d (p + 1 + length u) (wire us)" "at d (p + 1) u" "p < length d" "d ! p = word_of_nat (length u)"
    using Cons.prems(1) by (simp_all add: add.assoc)
  have "name_at d (p + 1 + length u) (us @ vs)" by (rule Cons.IH) (use Cons.prems a(1) in \<open>simp_all add: add.assoc\<close>)
  then show ?case using a Cons.prems(2) by (auto intro!: name_label simp: unsigned_of_nat take_bit_nat_eq_self)
qed simp

lemma link_values:
  assumes "q < 16384"
  shows "unat (link q ! 0) = 192 + q div 256" "unat (link q ! 1) = q mod 256"
proof -
  have "192 + q div 256 < 256" using assms by auto
  then show "unat (link q ! 0) = 192 + q div 256"
    by (simp add: link_def unsigned_of_nat take_bit_nat_eq_self del: of_nat_add)
  show "unat (link q ! 1) = q mod 256" by (simp add: link_def unsigned_of_nat take_bit_nat_eq_self)
qed

lemma link_at: "at d p (link q) \<Longrightarrow> p + 1 < length d \<and> d ! p = link q ! 0 \<and> d ! (p + 1) = link q ! 1"
  by (simp add: link_def)

text \<open>Names are read with links and without; a name that ends with a link to its own start is none.\<close>

lemma name_at_plain: "at d p (wire us @ [0]) \<Longrightarrow> labels_ok us \<Longrightarrow> name_at d p us"
  using name_at_labels [of d p us "[]"] name_end [of "p + length (wire us)" d] by simp

lemma name_at_linked:
  assumes "at d p (wire us @ link q)" "labels_ok us" "q < 16384" "name_at d q vs"
  shows "name_at d p (us @ vs)"
proof (rule name_at_labels)
  have "at d (p + length (wire us)) (link q)" using assms(1) by simp
  note l = link_at [OF this] link_values [OF assms(3)]
  show "name_at d (p + length (wire us)) vs" by (rule name_link) (use l assms(4) in simp_all)
qed (use assms in simp_all)

lemma no_name_at_loop:
  assumes "at d p (wire us @ link p)" "labels_ok us" "p < 16384"
  shows "\<not> name_at d p ls"
proof -
  have tail: "name_at d q ls \<Longrightarrow> us = vs @ ws \<Longrightarrow> q = p + length (wire vs) \<Longrightarrow> False" for q vs ws
  proof (induction arbitrary: vs ws rule: name_at.induct)
    case (name_end q)
    show ?case
    proof (cases ws)
      case Nil
      then have "at d q (link p)" using assms(1) name_end by simp
      then show False using link_values [OF assms(3)] name_end by (auto dest!: link_at)
    next
      case (Cons w ws')
      then have "d ! q = word_of_nat (length w)" "length w \<le> 63" "w \<noteq> []" using assms(1,2) name_end.prems by simp_all
      then have "unat (d ! q) \<noteq> 0" by (simp add: unsigned_of_nat take_bit_nat_eq_self del: unat_eq_0)
      then show False using name_end.hyps by simp
    qed
  next
    case (name_label q l ls)
    show ?case
    proof (cases ws)
      case Nil
      then have "at d q (link p)" using assms(1) name_label by simp
      then show False using link_values [OF assms(3)] name_label by (auto dest!: link_at)
    next
      case (Cons w ws')
      then have "d ! q = word_of_nat (length w)" "length w \<le> 63" using assms(1,2) name_label.prems by simp_all
      then have "length w = length l" using name_label.hyps by (simp add: unsigned_of_nat take_bit_nat_eq_self)
      then show False using name_label.IH [of "vs @ [w]" ws'] name_label.prems Cons by simp
    qed
  next
    case (name_link q ls)
    show ?case
    proof (cases ws)
      case Nil
      then have "at d q (link p)" using assms(1) name_link by simp
      then have "256 * (unat (d ! q) - 192) + unat (d ! (q + 1)) = p" using link_values [OF assms(3)] by (auto dest!: link_at)
      then show False using name_link.IH [of "[]" us] by simp
    next
      case (Cons w ws')
      then have "d ! q = word_of_nat (length w)" "length w \<le> 63" using assms(1,2) name_link.prems by simp_all
      then show False using name_link.hyps by (simp add: unsigned_of_nat take_bit_nat_eq_self)
    qed
  qed
  show ?thesis using tail [of p "[]" us] by auto
qed

lemma name_loops:
  assumes "length d \<le> 512" "labels_ok us" "at d p (wire us @ link p)"
  shows "getDnsDomainName True (rd d p []) = Inl Exception"
proof -
  let ?p = "p + length (wire us)"
  have p: "p < length d" using assms(3) by (auto simp: at_def)
  then have q: "p < 16384" using assms(1) by simp
  have get: "get8bits (rd d ?p [p]) = Inr (link p ! 0, rd d (Suc ?p) [p])"
      "get8bits (rd d (Suc ?p) [p]) = Inr (link p ! 1, rd d (Suc (Suc ?p)) [p])"
    using assms(3) by (auto intro!: get8bits_at [OF assms(1)] simp: link_def)
  have "getDnsDomainName True (rd d p [p]) = Inl Exception" by (subst getDnsDomainName.simps) simp
  then have "name_loop True (join us) (rd d ?p [p]) = Inl Exception"
    using p link_bytes [OF q] by (subst name_loop.simps) (simp add: get setPos_def)
  then have "name_loop True [] (rd d p [p]) = Inl Exception"
    using assms by (simp add: name_loop_labels [of d us] join_def)
  then show ?thesis by (subst getDnsDomainName.simps) (simp add: finish_name_def)
qed

lemma request_name_fails:
  assumes "length (request_header i @ x) \<le> 512" "getDnsDomainName True (rd (request_header i @ x) 12 []) = Inl Exception"
  shows "message_decode (request_header i @ x) this = Inl Exception"
proof -
  let ?d = "request_header i @ x"
  have "at ?d 0 (concat (map wire16 [ucast i, 0x100, 1, 0, 0, 0]))"
    using at_mid [of "[]"] by (simp only: request_header_wire) simp
  then have w: "at ?d 0 (wire16 (ucast i))" "at ?d 2 (wire16 0x100)" "at ?d 4 (wire16 1)" "at ?d 6 (wire16 0)"
    "at ?d 8 (wire16 0)" "at ?d 10 (wire16 0)"
    by (simp_all add: numeral_eq_Suc del: at_Cons)
  have "unat (ucast i :: u32) = unat i"
    by (simp only: unsigned_ucast_eq) (use unat_u16 [of i] in \<open>simp add: take_bit_nat_eq_self\<close>)
  then have small: "unat (ucast i :: u32) < 65536" using unat_u16 [of i] by simp
  note get = get_image(1) [OF assms(1)]
  have "get16bits (rd ?d 0 []) = Inr (ucast i, rd ?d 2 [])" "get16bits (rd ?d 2 []) = Inr (0x100, rd ?d 4 [])"
    "get16bits (rd ?d 4 []) = Inr (1, rd ?d 6 [])" "get16bits (rd ?d 6 []) = Inr (0, rd ?d 8 [])"
    "get16bits (rd ?d 8 []) = Inr (0, rd ?d 10 [])" "get16bits (rd ?d 10 []) = Inr (0, rd ?d 12 [])"
    using w small by (intro get; simp)+
  then have "decode_body this (rd ?d 0 []) = Inl Exception"
    using assms(2) by (simp add: decode_body_def qs_decode_def follow_Inl)
  then show ?thesis by (simp add: message_decode_def new_buffer_def)
qed

lemma inside_label_unreadable:
  "message_decode (request_header 7 @ wire [hd inside_labels] @ link 13 @ [0, 1, 0, 1]) this = Inl Exception"
proof (rule request_name_fails)
  show "length (request_header 7 @ wire [hd inside_labels] @ link 13 @ [0, 1, 0, 1]) \<le> 512" by code_simp
  show "getDnsDomainName True (rd (request_header 7 @ wire [hd inside_labels] @ link 13 @ [0, 1, 0, 1]) 12 []) = Inl Exception"
    by code_simp
qed

definition looping_request :: "u16 \<Rightarrow> bytes \<Rightarrow> bytes \<Rightarrow> bytes" where
  "looping_request i l m = request_header i @ wire [l, m] @ link 12 @ [0, 1, 0, 1]"

text \<open>C38: A host name of three labels whose first comes again as its last (\<open>com.example.com\<close>) gets a request that no
  one can read: behind the header, where the name starts (byte 12), stand the first two labels and a link to byte 12, so
  the name contains itself. (The two labels differ, the first has at least two characters, both together at most 80,
  each at most 44, and none of the characters is below \<open>-\<close> or a dot.) By RFC 1035 no name is stored there, whatever a decoder does with links, and the library's
  own decoder rejects the request.\<close>

theorem form_dns_request_loops:
  assumes "host_label l" "host_label m" "l \<noteq> m" "2 \<le> length l" "length l + length m \<le> 80"
    "bytes_of host = join [l, m, l]"
  shows "form_dns_request host i = Inr (looping_request i l m) \<and> (\<nexists>ls. name_at (looping_request i l m) 12 ls)
    \<and> message_decode (looping_request i l m) this = Inl Exception"
proof -
  let ?h = "request_header i"
  have ok: "labels_ok [l, m, l]" using host_labels_ok [of "[l, m, l]"] assms(1,2) by simp
  have hl: "length ?h = 12" by (simp add: request_header_def)
  have ne: "l \<noteq> []" "m \<noteq> []" using assms(1,2) by (auto simp: host_label_def)
  have n1: "find_tip ?h (wire [l, m, l]) = None"
    using no_tip [of "[]" "[l, m, l]" i] assms(1,2) by simp
  have n2: "find_tip (?h @ wire [l]) (wire [m, l]) = None"
    using no_tip [of "[l]" "[m, l]" i] assms(1,2,3) by simp
  have tip: "find_tip (?h @ wire [l, m]) (wire [l]) = Some 12"
  proof -
    let ?w = "?h @ wire [l, m]" and ?s = "wire [l]"
    let ?P = "\<lambda>q. take (length ?s) (drop q ?w) = ?s"
    have len: "length ?w - length ?s = 12 + length m + 1" using hl by simp
    have "?P 12" using hl by simp
    moreover have "\<not> ?P q" if "q < 12" for q
    proof
      assume "?P q"
      then have "at ?w q ?s" using that hl by (simp add: at_take)
      then have "12 \<le> q" by (rule not_in_header [rotated 3]) (use assms(1,4) in auto)
      then show False using that by simp
    qed
    ultimately have "List.find ?P [0..<12 + length m + 1] = Some 12"
      unfolding find_Some_iff by (intro exI [of _ 12]) auto
    then show ?thesis unfolding find_tip_def len .
  qed
  have c: "compressed ?h [] [l, m, l] = wire [l, m] @ link 12"
    using n1 n2 tip by simp
  let ?d = "?h @ (wire [l, m] @ link 12) @ [0, 1, 0, 1]"
  have "length (join [l, m, l]) \<le> 254" using assms(4,5) ne by (simp add: join_Cons)
  then have f: "form_dns_request host i = Inr ?d"
    using form_dns_request_compressed [OF ok _ _ assms(6), of i] c by simp
  have dl: "length ?d \<le> 512" using assms(5) hl by simp
  have a: "at ?d 12 (wire [l, m] @ link 12)"
    using at_mid [of ?h "wire [l, m] @ link 12"] hl by simp
  have loop: "getDnsDomainName True (rd ?d 12 []) = Inl Exception"
    by (rule name_loops [OF dl _ a]) (use ok hl in auto)
  have "message_decode ?d this = Inl Exception"
    using request_name_fails [OF dl loop] by simp
  moreover have "\<not> name_at ?d 12 ls" for ls
    by (rule no_name_at_loop [OF a]) (use ok in simp_all)
  moreover have "?d = looping_request i l m" by (simp add: looping_request_def)
  ultimately show ?thesis using f by simp
qed


lemma form_dns_request_loops_witness:
  "form_dns_request ''com.example.com'' 7 = Inr (looping_request 7 [99, 111, 109] [101, 120, 97, 109, 112, 108, 101])
    \<and> (\<nexists>ls. name_at (looping_request 7 [99, 111, 109] [101, 120, 97, 109, 112, 108, 101]) 12 ls)
    \<and> message_decode (looping_request 7 [99, 111, 109] [101, 120, 97, 109, 112, 108, 101]) new_Message = Inl Exception"
  by (rule form_dns_request_loops)
    (simp_all add: host_label_def word_le_nat_alt join_def dot_append_def bytes_of_def)

section \<open>Names that cannot be encoded\<close>

lemma label_loop_long:
  assumes "46 \<notin> set l" "63 < length l" "length l \<le> 255" "rest = [] \<or> hd rest = 46"
  shows "label_loop 0 0 1 (replicate 256 0) [] (l @ rest) = Inl Exception"
proof -
  have "(replicate 256 0 :: bytes) = [] @ 0 # replicate 255 0" by (simp flip: replicate_Suc)
  then have "label_loop 0 0 1 (replicate 256 0) [] (l @ rest)
      = label_loop (length l) 0 (1 + length l) ([] @ 0 # l @ drop (length l) (replicate 255 0)) [] rest"
    using one_label [of l "replicate 255 0" "[]" 0 "[]" rest] assms by simp
  also have "\<dots> = Inl Exception"
    using assms(2,4) by (cases rest) (simp_all add: MAX_LABEL_LEN_def)
  finally show ?thesis .
qed


lemma encode_throws:
  assumes "\<And>b. putDnsDomainName name True b = Inl Exception"
  shows "message_encode (request_message name i) (replicate 2048 32) = Inl Exception"
proof -
  let ?b = "new_buffer (replicate 2048 32)"
  have "mBufferPtr ?b + length (request_header i) \<le> length (mBuffer ?b)"
    by (simp add: request_buffer(2,3) request_header_def)
  then obtain b1 where "put_each put16bits [ucast i, 0x100, 1, 0, 0, 0] ?b = Inr ((), b1)"
    using puts_room [OF request_header_puts] by blast
  then have "encode_body (request_message name i) ?b = Inl Exception"
    unfolding request_body using assms
    by (auto simp: follow_Inl qs_encode_def new_QuerySection_def simp del: put_each.simps)
  then show ?thesis by (simp add: message_encode_def)
qed

lemma form_dns_request_throws:
  assumes "bytes_of host = l @ rest" "46 \<notin> set l" "63 < length l" "rest = [] \<or> hd rest = 46"
  shows "form_dns_request host i = Inl Exception"
proof -
  have ne: "host \<noteq> []" using assms(1,3) by (auto simp: bytes_of_def)
  define full where "full = (if last host \<noteq> CHR ''.'' then host @ ''.'' else host)"
  define rest' where "rest' = (if last host \<noteq> CHR ''.'' then rest @ [46] else rest)"
  have full: "bytes_of full = l @ rest'" "rest' = [] \<or> hd rest' = 46"
    using assms(1,4) by (cases rest; simp add: full_def rest'_def bytes_of_def)+
  have "putDnsDomainName (bytes_of full) True b = Inl Exception" for b
  proof (cases "length (bytes_of full) \<le> 255")
    case True
    then have "label_loop 0 0 1 (replicate 256 0) [] (bytes_of full) = Inl Exception"
      using label_loop_long [of l rest'] full assms(2,3) by simp
    then show ?thesis using True full assms(3) by (auto simp: putDnsDomainName_def MAX_DOMAIN_LEN_def)
  qed (simp add: putDnsDomainName_def MAX_DOMAIN_LEN_def)
  from encode_throws [OF this, of i] show ?thesis
    using ne by (simp add: form_dns_request_def request_message_def full_def)
qed

text \<open>With the builtin resolver or DNS over HTTPS a host name whose first label is longer than 63
  characters ends \<open>resolve_host\<close> with the exception of the DNS library, which the encoding of the
  request throws outside of every \<open>try\<close>: before anything is sent, for every system and every history.\<close>

theorem resolve_host_throws:
  assumes "bytes_of host = l @ rest" "46 \<notin> set l" "63 < length l" "rest = [] \<or> hd rest = 46"
    "doh P \<or> builtin_dns P" "inet_pton host = None" "find_custom_ip S host = []"
  shows "resolve_host fuel e N S P host ip h = (Inl (Throw ''dns::Exception''), h @ [Rand (os_rand e h)])"
proof -
  have "host \<noteq> []" using assms(1,3) by (auto simp: bytes_of_def)
  moreover have "udp_body fuel e S P host ip h = (Inl (Throw ''dns::Exception''), h @ [Rand (os_rand e h)])"
    "doh_body fuel e N S P host ip h = (Inl (Throw ''dns::Exception''), h @ [Rand (os_rand e h)])"
    by (simp_all add: udp_body_def doh_body_def dns_request_def form_dns_request_throws [OF assms(1-4)] rand_def
        sys_def bnd_def raise_def Let_def)
  ultimately show ?thesis using assms(5-7)
    by (auto simp: resolve_host_def resolve_host_over_udp_def resolve_host_over_doh_def returning_with_def)
qed

lemma resolve_host_throws_witness:
  "resolve_host 9 willing_os \<lparr>getaddrinfo = \<lambda>h s. None, https_get = \<lambda>h s a p. None, x509_store = True\<rparr>
     default_Settings (default_Profile\<lparr>builtin_dns := True\<rparr>) (replicate 64 (CHR ''a'')) [] []
   = (Inl (Throw ''dns::Exception''), [] @ [Rand (os_rand willing_os [])])"
proof (rule resolve_host_throws [of _ "replicate 64 97" "[]"])
  show "inet_pton (replicate 64 (CHR ''a'')) = None" by code_simp
qed (simp_all add: bytes_of_def default_Profile_def find_custom_ip_def default_Settings_def)

end
