(* ===== verification/Dnsans.thy ===== *)
theory Dnsans
  imports Dnsreq Packet
begin

text \<open>
  The answers of \<open>dns.cpp\<close>: how a run of the builtin resolver ends, what an address record without data
  does to it, and what the resolver of the system leaves in the string of the address.
\<close>


section \<open>The answer of the builtin resolver\<close>

text \<open>A message with the identifier was decoded from a datagram of the socket.\<close>

definition answered :: "int \<Rightarrow> u16 \<Rightarrow> hist \<Rightarrow> Message \<Rightarrow> bool" where
  "answered sock i h m = (\<exists>bs this. Recv sock 512 (Ok bs) \<in> set h \<and> message_decode bs this = Inr m \<and> check_id i m)"

lemma answeredI: "Recv sock 512 (Ok bs) \<in> set h \<Longrightarrow> message_decode bs this = Inr m \<Longrightarrow> check_id i m \<Longrightarrow> answered sock i h m"
  by (auto simp: answered_def)

lemma udp_loop_hoare:
  "hoare (\<lambda>h. \<exists>t. h = h0 @ t) (udp_loop n e timeout sock i start this)
     (\<lambda>m h. (\<exists>t. h = h0 @ t) \<and> answered sock i h m)
     (\<lambda>st h. st = Out_of_fuel \<or> st = Return (-1) \<and> (\<exists>t. h = h0 @ t @ [Close sock]))"
proof (induction n arbitrary: this)
  case 0
  show ?case by (simp add: hoare_def wp_simps)
next
  case (Suc n)
  note ih = hoareD [OF Suc.IH]
  show ?case
  proof (rule hoareI)
    fix h :: hist assume "\<exists>t. h = h0 @ t"
    then show "wp (udp_loop (Suc n) e timeout sock i start this) (\<lambda>m h. (\<exists>t. h = h0 @ t) \<and> answered sock i h m)
     (\<lambda>st h. st = Out_of_fuel \<or> st = Return (-1) \<and> (\<exists>t. h = h0 @ t @ [Close sock])) h"
      by (auto simp: os_wp close_fail_def split: pollres.splits sysres.splits sum.splits intro!: ih intro: answeredI dest: decode_Inl)
  qed
qed

text \<open>The address in the first record of type A.\<close>

definition answer_text :: "Message \<Rightarrow> string \<Rightarrow> bool" where
  "answer_text m ip = (\<exists>rr addr. List.find (\<lambda>rr. rr_type rr = rdata_code RDATA_A) (mAnswers m) = Some rr
     \<and> rr_data rr = Some (RDataA addr) \<and> ip = addr_text addr)"

lemma take_answer_result:
  "take_answer (mAnswers m) ip h = (Inr (r, ip'), h') \<Longrightarrow> h' = h \<and> (r = 0 \<and> answer_text m ip' \<or> r = -1 \<and> ip' = ip)"
proof -
  have "take_answer rrs ip h = (Inr (r, ip'), h') \<Longrightarrow> h' = h \<and> (r = 0 \<and> (\<exists>rr addr. List.find (\<lambda>rr. rr_type rr = rdata_code RDATA_A) rrs = Some rr
       \<and> rr_data rr = Some (RDataA addr) \<and> ip' = addr_text addr) \<or> r = -1 \<and> ip' = ip)" for rrs
  proof (induction rrs)
    case (Cons rr rrs)
    then show ?case
      by (cases "rr_type rr = rdata_code RDATA_A") (auto simp: act_defs split: option.splits rdata.splits)
  qed (simp add: act_defs)
  then show "take_answer (mAnswers m) ip h = (Inr (r, ip'), h') \<Longrightarrow> h' = h \<and> (r = 0 \<and> answer_text m ip' \<or> r = -1 \<and> ip' = ip)"
    by (simp add: answer_text_def)
qed

lemma take_answer_stop: "take_answer rrs ip h = (Inl st, h') \<Longrightarrow> st = Undefined"
proof (induction rrs)
  case (Cons rr rrs)
  then show ?case by (cases "rr_type rr = rdata_code RDATA_A") (auto simp: act_defs split: option.splits rdata.splits)
qed (simp add: act_defs)

text \<open>How a run of the builtin resolver ends: its socket is closed last, and an address comes from a
  datagram with the identifier of the request that was sent.\<close>

definition udp_outcome :: "string \<Rightarrow> string \<Rightarrow> int \<times> string \<Rightarrow> hist \<Rightarrow> bool" where
  "udp_outcome host ip res h = (case res of (r, ip') \<Rightarrow>
     (r = -1 \<and> ip' = ip \<and> (\<exists>k. h = [Rand k, Socket SOCK_DGRAM None]))
     \<or> (\<exists>k sock t. h = [Rand k, Socket SOCK_DGRAM (Some sock)] @ t @ [Close sock]
         \<and> (r = -1 \<and> ip' = ip
           \<or> r = 0 \<and> (\<exists>i a req m. Sendto sock a req True \<in> set t \<and> form_dns_request host i = Inr req
               \<and> answered sock i t m \<and> answer_text m ip'))))"

lemma answered_mid: "answered sock i ([Rand k, Socket SOCK_DGRAM (Some sock)] @ t) m \<Longrightarrow> answered sock i t m"
  by (auto simp: answered_def)

lemma udp_finish:
  assumes "answered sock i ([Rand k, Socket SOCK_DGRAM (Some sock)] @ t) m" "Sendto sock a req True \<in> set t"
    "form_dns_request host i = Inr req"
  shows "wp (then_do (close sock) (take_answer (mAnswers m) ip)) (udp_outcome host ip)
    (\<lambda>st h. st = Undefined) ([Rand k, Socket SOCK_DGRAM (Some sock)] @ t)"
proof -
  let ?h = "([Rand k, Socket SOCK_DGRAM (Some sock)] @ t) @ [Close sock]"
  have "wp (take_answer (mAnswers m) ip) (udp_outcome host ip) (\<lambda>st h. st = Undefined) ?h"
  proof (cases "take_answer (mAnswers m) ip ?h")
    case (Pair x h')
    show ?thesis
    proof (cases x)
      case (Inl st)
      then show ?thesis using Pair take_answer_stop [of "mAnswers m" ip ?h st h'] by (simp add: wp_def)
    next
      case (Inr y)
      obtain r ip' where y: "y = (r, ip')" by fastforce
      then have "h' = ?h \<and> (r = 0 \<and> answer_text m ip' \<or> r = -1 \<and> ip' = ip)"
        using take_answer_result [of m ip ?h r ip' h'] Pair Inr by simp
      then have "udp_outcome host ip (r, ip') h'" unfolding udp_outcome_def
        using assms answered_mid [OF assms(1)] by auto
      then show ?thesis using Pair Inr y by (simp add: wp_def)
    qed
  qed
  then show ?thesis unfolding wp_then_do by (simp add: os_wp)
qed


definition ending :: "string \<Rightarrow> string \<Rightarrow> stop \<Rightarrow> hist \<Rightarrow> bool" where
  "ending host ip st h = (case st of Return r \<Rightarrow> udp_outcome host ip (r, ip) h | _ \<Rightarrow> True)"

lemma returning_with_wp:
  "wp (returning_with x m) Q E h = wp m Q (\<lambda>st h. case st of Return r \<Rightarrow> Q (r, x) h | _ \<Rightarrow> E st h) h"
  by (auto simp: wp_def returning_with_def split: prod.splits sum.splits stop.splits)

lemma returning_with_ending:
  "wp (returning_with ip m) (udp_outcome host ip) (\<lambda>st h. True) h = wp m (udp_outcome host ip) (ending host ip) h"
proof -
  have "(\<lambda>st h. case st of Return r \<Rightarrow> udp_outcome host ip (r, ip) h | _ \<Rightarrow> True) = ending host ip"
    by (auto simp: fun_eq_iff ending_def)
  then show ?thesis by (simp add: returning_with_wp)
qed

lemma udp_closed: "udp_outcome host ip (-1, ip) ([Rand k, Socket SOCK_DGRAM (Some sock)] @ t @ [Close sock])"
  by (simp add: udp_outcome_def)

lemma udp_loop_outcome:
  fixes sock :: int and k :: nat
  assumes "form_dns_request host i = Inr req"
  defines "g \<equiv> \<lambda>t. [Rand k, Socket SOCK_DGRAM (Some sock)] @ t"
  shows "wp (udp_loop fuel e timeout sock i st new_Message)
    (\<lambda>m. wp (then_do (close sock) (take_answer (mAnswers m) ip)) (udp_outcome host ip) (ending host ip)) (ending host ip)
    (g (Sendto sock a req True # t))"
proof -
  let ?P = "\<lambda>h. \<exists>t. h = g [Sendto sock a req True] @ t"
  have fin: "wp (then_do (close sock) (take_answer (mAnswers m) ip)) (udp_outcome host ip) (ending host ip) h"
    if g: "?P h \<and> answered sock i h m" for m h
  proof -
    obtain u where h: "h = [Rand k, Socket SOCK_DGRAM (Some sock)] @ (Sendto sock a req True # u)"
      using g by (auto simp: g_def)
    have "answered sock i ([Rand k, Socket SOCK_DGRAM (Some sock)] @ (Sendto sock a req True # u)) m"
      using g h by simp
    from udp_finish [OF this _ assms(1)] show ?thesis
      unfolding h by (rule wp_mono) (auto simp: ending_def)
  qed
  have closed: "ending host ip st h" if "st = Out_of_fuel \<or> st = Return (-1) \<and> (\<exists>t. h = g [Sendto sock a req True] @ t @ [Close sock])" for st h
    using that udp_closed [of host ip k sock "Sendto sock a req True # _"] by (auto simp: g_def ending_def)
  have start: "?P (g (Sendto sock a req True # t))" by (simp add: g_def)
  show ?thesis by (rule wp_use [OF udp_loop_hoare start]) (use fin closed in auto)
qed

lemma udp_wp:
  "wp (resolve_host_over_udp fuel e S P host ip) (udp_outcome host ip) (\<lambda>st h. True) []"
proof -
  let ?k = "os_rand e []"
  let ?i = "word_of_nat (?k mod 65535) :: u16"
  let ?hr = "[Rand ?k]"
  let ?E = "ending host ip"
  show ?thesis
  proof (cases "\<exists>req. form_dns_request host ?i = Inr req")
    case False
    then have "wp (dns_request host ?i) Q ?E ?hr" for Q
      by (auto simp: dns_request_def wp_simps ending_def split: sum.splits dns_stop.splits)
    then show ?thesis
      by (simp add: resolve_host_over_udp_def returning_with_ending udp_body_def os_wp)
  next
    case True
    then obtain req where req: "form_dns_request host ?i = Inr req" by blast
    show ?thesis
    proof (cases "os_socket e ?hr SOCK_DGRAM")
      case None
      then show ?thesis
        by (simp add: resolve_host_over_udp_def returning_with_ending udp_body_def os_wp ending_def dns_request_def req udp_outcome_def)
    next
      case (Some sock)
      show ?thesis
        using udp_closed [of host ip ?k sock "[]"] udp_closed [of host ip ?k sock "[Sendto sock a req False]" for a] udp_loop_outcome [OF req, where ip = ip and k = ?k and sock = sock] Some req
        by (auto simp: resolve_host_over_udp_def returning_with_ending ending_def udp_body_def os_wp dns_request_def close_fail_def
            split: option.splits)
    qed
  qed
qed

text \<open>C9: A run of the builtin resolver that starts with an empty history and returns has made no call but
  for \<open>rand\<close> and a failing \<open>socket\<close>, or its last call closes its only socket. It returns -1 and keeps
  the \<open>ip\<close> it was given, or 0: then the system received the request for the host, a datagram read from the
  same socket after that decodes to a message with the identifier of the request, and \<open>ip\<close> is the text of the
  address in the first record of type A of that message.\<close>

theorem resolve_host_over_udp_result:
  assumes "resolve_host_over_udp fuel e S P host ip [] = (Inr res, h)"
  shows "udp_outcome host ip res h"
  using wp_run(1) [OF udp_wp assms] .

definition dns_os :: "bytes \<Rightarrow> os" where
  "dns_os bs = willing_os\<lparr>os_recv := (\<lambda>h sock n. Ok bs), os_poll := (\<lambda>h fds t. Poll_ready [(False, True)])\<rparr>"

definition sample_answer :: bytes where
  "sample_answer = [0, 0, 0x81, 0x80, 0, 0, 0, 1, 0, 0, 0, 0, 1, 97, 0, 0, 1, 0, 1, 0, 0, 0, 9, 0, 4, 10, 0, 0, 5]"




lemma sample_request: "form_dns_request ''a.bc'' i = Inr (request_header i @ wire [[97], [98, 99]] @ [0, 0, 1, 0, 1])"
proof -
  have h: "host_labels [[97], [98, 99]]" by (simp add: host_label_def word_le_nat_alt)
  show ?thesis
    using form_dns_request_compressed [OF host_labels_ok [OF h], of "''a.bc''" i] compressed_plain [of "[]" "[[97], [98, 99]]" i] h
    by (simp add: join_def dot_append_def bytes_of_def)
qed

definition sample_reply :: Message where
  "sample_reply = (case message_decode sample_answer new_Message of Inr m \<Rightarrow> m | Inl _ \<Rightarrow> new_Message)"

lemma sample_reply: "message_decode sample_answer new_Message = Inr sample_reply" "check_id 0 sample_reply"
    "take_answer (mAnswers sample_reply) [] h = (Inr (0, ''10.0.0.5''), h)" 
    "inet_pton ''10.0.0.1'' = Some 0x0A000001"
  unfolding sample_reply_def by code_simp+


lemma dns_sample: "\<exists>h. resolve_host_over_udp (Suc 0) (dns_os sample_answer) default_Settings (default_Profile\<lparr>builtin_dns_ip := ''10.0.0.1''\<rparr>) ''a.bc'' [] [] = (Inr (0, ''10.0.0.5''), h)"
proof -
  have r: "recv_of (dns_os sample_answer) h s 512 = Ok sample_answer" "sample_answer \<noteq> []" for h s
    by (simp_all add: recv_of_def dns_os_def sample_answer_def)
  have o: "os_rand (dns_os sample_answer) [] = 0" "os_socket (dns_os sample_answer) h k = Some (3 + int (length h))"
    "os_sendto (dns_os sample_answer) h s a d" "os_now_ms (dns_os sample_answer) h = int (length h)"
    "os_poll (dns_os sample_answer) h fds t = Poll_ready [(False, True)]" for h k s a d fds t
    by (simp_all add: dns_os_def willing_os_def)
  have p: "uint (builtin_dns_req_timeout default_Settings) = 10000"
    by (simp add: default_Settings_def)


  show ?thesis
    by (simp add: resolve_host_over_udp_def returning_with_def udp_body_def dns_request_def act_defs os_calls sample_request sample_reply r o p)
qed

lemma resolve_host_over_udp_result_witness:
  "\<exists>h. udp_outcome ''a.bc'' [] (0, ''10.0.0.5'') h"
proof -
  obtain h where "resolve_host_over_udp (Suc 0) (dns_os sample_answer) default_Settings
      (default_Profile\<lparr>builtin_dns_ip := ''10.0.0.1''\<rparr>) ''a.bc'' [] [] = (Inr (0, ''10.0.0.5''), h)"
    using dns_sample by blast
  then show ?thesis by (intro exI [of _ h]) (rule resolve_host_over_udp_result)
qed

section \<open>A record without data\<close>

text \<open>An answer with one record of type A and length zero, for the root.\<close>

definition null_reply :: "u16 \<Rightarrow> bytes" where
  "null_reply i = concat (map wire16 [ucast i, 0x8180, 0, 1, 0, 0]) @ [0] @ concat (map wire16 [1, 1, 0, 0, 0])"

text \<open>C36: A reply of 23 bytes with one A record of length zero passes all checks of the resolver, the one of
  the identifier included, and then \<open>getAddress\<close> is called on the null pointer: undefined behaviour, for every
  identifier, every message decoded before and every history.\<close>

theorem null_answer_crashes:
  "\<exists>m. message_decode (null_reply i) this = Inr m \<and> check_id i m \<and> take_answer (mAnswers m) ip h = (Inl Undefined, h)"
proof -
  let ?d = "null_reply i"
  have len: "length ?d = 23" by (simp add: null_reply_def wire16_def)
  have small: "unat (ucast i :: u32) < 65536"
  proof -
    have "unat i < 65536" using unsigned_less [of i] by simp
    then show ?thesis by (simp only: unsigned_ucast_eq) (simp add: take_bit_nat_eq_self)
  qed
  have get: "get16bits (rd ?d p []) = Inr (v, rd ?d q [])"
    if "(p, v, q) \<in> {(0, ucast i, 2), (2, 0x8180, 4), (4, 0, 6), (6, 1, 8), (8, 0, 10), (10, 0, 12), (13, 1, 15), (15, 1, 17), (21, 0, 23)}" for p v q
    by (rule get_image(1)) (use that len small in \<open>auto simp: at_take null_reply_def wire16_def\<close>)
  have get32: "get32bits (rd ?d 17 []) = Inr (0, rd ?d 21 [])"
    by (rule get_image(2)) (use len in \<open>simp_all add: at_take null_reply_def wire16_def wire32_def\<close>)
  have name: "getDnsDomainName True (rd ?d 12 []) = Inr ([], rd ?d 13 [])"
    by (rule get_image(5)) (use len in \<open>auto intro!: exI [of _ "[]"] simp: join_def at_take null_reply_def wire16_def\<close>)
  have nodata: "rr_decode (rd ?d 12 []) = Inr (\<lparr>rr_name = [], rr_type = 1, rr_class = 1, rr_ttl = 0, rr_data_size = 0, rr_data = None\<rparr>, rd ?d 23 [])"
    by (simp add: rr_decode_def yield_def name get [of 13 1 15] get [of 15 1 17] get32 get [of 21 0 23])
  have "decode_body this (new_buffer ?d) = Inr (m, rd ?d 23 []) \<Longrightarrow> message_decode ?d this = Inr m" for m
    using len by (simp add: message_decode_def MAX_MSG_LEN_def)
  moreover have "\<exists>m. decode_body this (new_buffer ?d) = Inr (m, rd ?d 23 []) \<and> mId m = ucast i \<and>
      mAnswers m = [\<lparr>rr_name = [], rr_type = 1, rr_class = 1, rr_ttl = 0, rr_data_size = 0, rr_data = None\<rparr>]"
    unfolding new_buffer_def
    by (simp add: decode_body_def yield_def get [of 0 "ucast i" 2] get [of 2 "0x8180" 4] get [of 4 0 6] get [of 6 1 8]
        get [of 8 0 10] get [of 10 0 12] nodata)
  ultimately show ?thesis by (fastforce simp: check_id_def raise_def)
qed

section \<open>The text of the system resolver\<close>

lemma show_nat_short:
  "n < 10 \<Longrightarrow> length (show_nat n) \<le> 1" "n < 100 \<Longrightarrow> length (show_nat n) \<le> 2" "n < 1000 \<Longrightarrow> length (show_nat n) \<le> 3"
proof -
  show one: "n < 10 \<Longrightarrow> length (show_nat n) \<le> 1" for n by (subst show_nat.simps) simp
  show two: "n < 100 \<Longrightarrow> length (show_nat n) \<le> 2" for n using one [of "n div 10"] by (subst show_nat.simps) auto
  show "n < 1000 \<Longrightarrow> length (show_nat n) \<le> 3" using two [of "n div 10"] by (subst show_nat.simps) auto
qed

lemma octet_text:
  assumes "0 \<le> n" "n < 256"
  shows "length (to_string n) \<le> 3" "CHR '' '' \<notin> set (to_string n)" "CHR 0x00 \<notin> set (to_string n)"
  using to_string_digits [of n] show_nat_short(3) [of "nat n"] assms by (auto simp: to_string_def is_digit_def)

lemma octet_bounds: "uint (drop_bit 24 a :: u32) < 256" "uint (a AND 255 :: u32) < 256"
proof -
  have "unat (drop_bit 24 a) < 256" using unat_u32 [of a] by (simp only: unsigned_drop_bit_eq) (simp add: drop_bit_eq_div take_bit_nat_eq_self)
  then show "uint (drop_bit 24 a) < 256" unfolding uint_nat by linarith
  have "a AND 255 = take_bit 8 a" by (simp add: take_bit_eq_mask mask_eq_exp_minus_1)
  moreover have "unat (take_bit 8 a) < 256" by (simp only: unsigned_take_bit_eq) (simp add: take_bit_eq_mod)
  ultimately have "unat (a AND 255) < 256" by (simp only:)
  then show "uint (a AND 255) < 256" unfolding uint_nat by linarith
qed

lemma inet_ntop_text: "length (inet_ntop a) \<le> 15" "CHR '' '' \<notin> set (inet_ntop a)" "CHR 0x00 \<notin> set (inet_ntop a)"
proof -
  note o = octet_text [OF unsigned_greater_eq octet_bounds(1)] octet_text [OF unsigned_greater_eq octet_bounds(2)]
  show "length (inet_ntop a) \<le> 15"
    using o(1) [of a] o(4) [of "drop_bit 16 a"] o(4) [of "drop_bit 8 a"] o(4) [of a] by (simp add: inet_ntop_def)
  show "CHR '' '' \<notin> set (inet_ntop a)" "CHR 0x00 \<notin> set (inet_ntop a)"
    using o(2,3) [of a] o(5,6) [of "drop_bit 16 a"] o(5,6) [of "drop_bit 8 a"] o(5,6) [of a] by (simp_all add: inet_ntop_def)
qed

lemma system_ip_text: "system_ip a = inet_ntop a @ [CHR 0x00]"
proof -
  let ?w = "inet_ntop a @ [CHR 0x00]"
  have "?w @ replicate (50 - length ?w) (CHR '' '') = ?w @ CHR '' '' # replicate (49 - length ?w) (CHR '' '')"
    using inet_ntop_text(1) [of a] by (simp add: Suc_diff_le flip: replicate_Suc)
  moreover have "CHR '' '' \<notin> set ?w" using inet_ntop_text(2) [of a] by simp
  ultimately show ?thesis using find_char_append [of "CHR '' ''" ?w] by (simp add: system_ip_def)
qed

text \<open>Every address the resolver of the system returns is the text of an IPv4 address followed by a zero
  byte, which no C function sees but the comparison of strings does: unless an entry of the white list itself
  contains a zero byte, no address resolved this way is found in it.\<close>

theorem system_ip_not_whitelisted:
  assumes "resolve_host_over_system N host h = (Inr (0, ip), h')" "\<forall>w\<in>whitelist_ips S. CHR 0x00 \<notin> set w"
  shows "c_str ip \<in> range inet_ntop \<and> \<not> match_whitelist_ip S ip"
proof -
  obtain a where ip: "ip = inet_ntop a @ [CHR 0x00]"
    using assms(1) by (auto simp: resolve_host_over_system_def act_defs system_ip_text split: option.splits)
  then have "c_str ip = inet_ntop a" using inet_ntop_text(3) [of a] by (auto simp: c_str_def takeWhile_append)
  moreover have "ip \<notin> whitelist_ips S" using assms(2) ip by auto
  ultimately show ?thesis by (simp add: match_whitelist_ip_def)
qed

lemma system_ip_not_whitelisted_witness:
  "c_str (''10.0.0.5'' @ [CHR 0x00]) \<in> range inet_ntop
    \<and> \<not> match_whitelist_ip (default_Settings\<lparr>whitelist_ips := {''10.0.0.5''}\<rparr>) (''10.0.0.5'' @ [CHR 0x00])"
proof (rule system_ip_not_whitelisted)
  show "resolve_host_over_system \<lparr>getaddrinfo = \<lambda>h s. Some [(True, 0x0A000005)], https_get = \<lambda>h s a p. None, x509_store = True\<rparr>
     ''a.b'' [] = (Inr (0, ''10.0.0.5'' @ [CHR 0x00]), [])"
    by code_simp
qed (simp add: default_Settings_def)

end
