(* ===== verification/Proxy.thy ===== *)
theory Proxy
  imports Dns Desync Packet
begin

text \<open>
  \<open>process_client_cycle\<close> of \<open>dpitunnel-cli.cpp\<close>: one client of the proxy from its first bytes to the end
  of the relay. It parses the request, resolves the server, connects to it while a second thread sniffs
  the SYN-ACK, sends the first data with the attacks of the profile and then relays both directions.
  The sniffer runs on its own observations; the stop flag is an oracle of the history; one profile is
  in force while the client is served.
\<close>

record proxy =
  px_os :: os
  px_net :: net
  px_settings :: Settings_perst_s
  px_profile :: Profile_s
  px_pipe :: int
  px_stop :: "hist \<Rightarrow> bool"
  px_original_dst :: "hist \<Rightarrow> int \<Rightarrow> sockaddr_in option"
  px_sniff_ok :: bool
  px_sniff_obs :: "sniff_obs list"
  px_stack :: u32

definition CONNECTION_ESTABLISHED_RESPONSE :: bytes where
  "CONNECTION_ESTABLISHED_RESPONSE = bytes_of (''HTTP/1.1 200 Connection established'' @ CRLF @ CRLF)"

definition CONNECTION_ERROR_RESPONSE :: bytes where
  "CONNECTION_ERROR_RESPONSE = bytes_of (''HTTP/1.1 0 Connection establish problem (read logs)'' @ CRLF @ CRLF)"

section \<open>Leaving early\<close>

fun close_all :: "int list \<Rightarrow> unit io" where
  "close_all [] = ret ()"
| "close_all (fd # fds) = then_do (close fd) (close_all fds)"

definition leave :: "int list \<Rightarrow> 'a io" where
  "leave fds = then_do (close_all fds) (raise (Return 0))"

definition send_whole_string :: "nat \<Rightarrow> proxy \<Rightarrow> int \<Rightarrow> bytes \<Rightarrow> int io" where
  "send_whole_string fuel X fd s = send_string fuel (px_os X) fd s (word_of_nat (length s)) 0"

definition refuse :: "nat \<Rightarrow> proxy \<Rightarrow> int \<Rightarrow> int list \<Rightarrow> 'a io" where
  "refuse fuel X client_socket fds =
     then_do (send_whole_string fuel X client_socket CONNECTION_ERROR_RESPONSE) (leave fds)"

section \<open>The first request\<close>

text \<open>The first bytes of the client, into a buffer of spaces.\<close>

definition first_request :: "nat \<Rightarrow> proxy \<Rightarrow> int \<Rightarrow> (bytes \<times> u32) io" where
  "first_request fuel X client_socket =
     bnd (setsockopt (px_os X) client_socket SO_SNDTIMEO 10) (\<lambda>ok1.
     bnd (if ok1 then setsockopt (px_os X) client_socket SO_RCVTIMEO 10 else ret False) (\<lambda>ok2.
     if \<not> ok2 then leave [client_socket]
     else bnd (recv_string fuel (px_os X) client_socket (replicate (unat (buffer_size (px_profile X))) 32) 0
            (Some 5000000) None) (\<lambda>r.
       if r_ret r = -1 \<or> r_last_char r = 0 then leave [client_socket]
       else ret (r_message r, r_last_char r))))"

record target =
  t_https :: bool
  t_host :: string
  t_port :: int

text \<open>The name in a Client Hello, where \<open>get_tls_sni\<close> finds one inside of the received bytes.\<close>

definition sni_range :: "bytes \<Rightarrow> u32 \<Rightarrow> (nat \<times> nat) option io" where
  "sni_range buffer last_char = (case get_tls_sni buffer (unat last_char) of
     None \<Rightarrow> raise Undefined
   | Some (start, len) \<Rightarrow> ret (if unat last_char < start + len \<or> start = 0 \<or> len = 0 then None else Some (start, len)))"

text \<open>\<open>SO_ORIGINAL_DST\<close> gives the address the client wanted to connect to.\<close>

definition original_dst :: "proxy \<Rightarrow> int \<Rightarrow> sockaddr_in option io" where
  "original_dst X fd = sys (\<lambda>r. Getsockopt fd SO_ORIGINAL_DST (map_option (\<lambda>_. 0) r)) (\<lambda>h. px_original_dst X h fd)"

definition transparent_target :: "proxy \<Rightarrow> int \<Rightarrow> bytes \<Rightarrow> u32 \<Rightarrow> bool \<Rightarrow> string \<Rightarrow> target io" where
  "transparent_target X client_socket buffer last_char is_https host =
     bnd (original_dst X client_socket) (\<lambda>dst.
       case dst of
         None \<Rightarrow> leave [client_socket]
       | Some a \<Rightarrow>
           bnd (if is_https then
                  bnd (sni_range buffer last_char) (\<lambda>sni. ret (case sni of
                    None \<Rightarrow> inet_ntop (sin_addr a)
                  | Some (start, len) \<Rightarrow> string_of (take len (drop start buffer))))
                else ret host) (\<lambda>host'.
             ret \<lparr>t_https = is_https, t_host = host', t_port = uint (sin_port a)\<rparr>))"

definition find_target :: "nat \<Rightarrow> proxy \<Rightarrow> int \<Rightarrow> bytes \<Rightarrow> u32 \<Rightarrow> target io" where
  "find_target fuel X client_socket buffer last_char =
     (let transparent = (proxy_mode (px_settings X) = MODE_TRANSPARENT) in
      case parse_request (string_of buffer) (\<not> transparent) of
        Thrown x \<Rightarrow> raise (Throw x)
      | Failed res m \<Rightarrow>
          if res = -1 then refuse fuel X client_socket [client_socket]
          else transparent_target X client_socket buffer last_char True []
      | Parsed method host port \<Rightarrow>
          if transparent then transparent_target X client_socket buffer last_char False host
          else ret \<lparr>t_https = (method = ''CONNECT''), t_host = host, t_port = port\<rparr>)"

definition strip_request :: "proxy \<Rightarrow> bool \<Rightarrow> bytes \<Rightarrow> u32 \<Rightarrow> (bytes \<times> u32) io" where
  "strip_request X is_https buffer last_char =
     (if \<not> is_https \<and> proxy_mode (px_settings X) = MODE_PROXY then
        (case remove_proxy_strings (string_of buffer) (unat last_char) of
           Throws x \<Rightarrow> raise (Throw x)
         | Returns (s, l) \<Rightarrow> ret (bytes_of s, word_of_nat l))
      else ret (buffer, last_char))"

section \<open>Connecting to the server\<close>

text \<open>The sniffer: whether its observations ever let it end, and its results. A sniffer without a socket never
  fulfils the promise the client thread waits for. An address that is none leaves the address the
  sniffer compares with uninitialised.\<close>

definition start_sniffer :: "proxy \<Rightarrow> string \<Rightarrow> int \<Rightarrow> sniff_out option io" where
  "start_sniffer X ip port =
     (let addr = (case inet_aton ip of Some a \<Rightarrow> a | None \<Rightarrow> px_stack X);
          out = sniff_handshake_packet (px_settings X) (px_sniff_ok X) addr port (px_sniff_obs X) []
      in if px_sniff_ok X then then_do (emit Sniff_start) (ret out) else raise Blocked)"

definition join_sniffer :: "sniff_out option \<Rightarrow> sniff_out io" where
  "join_sniffer out = (case out of
     None \<Rightarrow> raise Blocked
   | Some o' \<Rightarrow> then_do (emit Sniff_join) (ret o'))"

text \<open>The results of the sniffer, where one runs.\<close>

type_synonym sniffer = "sniff_out option option"

definition join_if :: "sniffer \<Rightarrow> unit io" where
  "join_if sn = (case sn of None \<Rightarrow> ret () | Some out \<Rightarrow> bnd (join_sniffer out) (\<lambda>_. ret ()))"

definition drop_server :: "nat \<Rightarrow> proxy \<Rightarrow> sniffer \<Rightarrow> int \<Rightarrow> int \<Rightarrow> 'a io" where
  "drop_server fuel X sn client_socket server_socket =
     then_do (join_if sn) (refuse fuel X client_socket [server_socket, client_socket])"

definition connect_server :: "nat \<Rightarrow> proxy \<Rightarrow> int \<Rightarrow> string \<Rightarrow> int \<Rightarrow> bool \<Rightarrow> (int \<times> sniffer) io" where
  "connect_server fuel X client_socket ip port attack =
     bnd (if attack then bnd (start_sniffer X ip port) (\<lambda>out. ret (Some out)) else ret None) (\<lambda>sn.
     bnd (init_remote_server_socket (px_os X) (px_profile X) ip port) (\<lambda>(r, server_socket).
     if r = -1 then drop_server fuel X sn client_socket server_socket
     else bnd (setsockopt (px_os X) client_socket TCP_NODELAY 1) (\<lambda>ok1.
     bnd (if ok1 then setsockopt (px_os X) server_socket TCP_NODELAY 1 else ret False) (\<lambda>ok2.
     if \<not> ok2 then drop_server fuel X sn client_socket server_socket
     else bnd (getsockname (px_os X) server_socket) (\<lambda>name.
     case name of
       None \<Rightarrow> drop_server fuel X sn client_socket server_socket
     | Some local_port \<Rightarrow> ret (server_socket, sn))))))"

text \<open>The answer to CONNECT. When it fails the function returns while the sniffer may still run: the
  destructor of a joinable \<open>std::thread\<close> ends the process.\<close>

definition answer_connect :: "nat \<Rightarrow> proxy \<Rightarrow> sniffer \<Rightarrow> int \<Rightarrow> int \<Rightarrow> bool \<Rightarrow> unit io" where
  "answer_connect fuel X sn client_socket server_socket is_https =
     (if is_https \<and> proxy_mode (px_settings X) = MODE_PROXY then
        bnd (send_whole_string fuel X client_socket CONNECTION_ESTABLISHED_RESPONSE) (\<lambda>r.
          if r = -1 then then_do (close_all [server_socket, client_socket])
                           (raise (if sn = None then Return 0 else Terminate))
          else ret ())
      else ret ())"

section \<open>The first data\<close>

definition split_at :: "proxy \<Rightarrow> bool \<Rightarrow> bytes \<Rightarrow> u32 \<Rightarrow> u32 io" where
  "split_at X is_https buffer last_char =
     (let pos = min (split_position (px_profile X)) last_char in
      if is_https \<and> split_at_sni (px_profile X) then
        bnd (sni_range buffer last_char) (\<lambda>sni. ret (case sni of
          None \<Rightarrow> pos
        | Some (start, len) \<Rightarrow> word_of_nat (start + len div 2)))
      else ret pos)"

text \<open>Zeros of the same sizes on the socket itself, which move its sequence numbers behind the forged
  packets.\<close>

definition synchronize :: "nat \<Rightarrow> proxy \<Rightarrow> int \<Rightarrow> u32 \<Rightarrow> u32 \<Rightarrow> bool io" where
  "synchronize fuel X server_socket last_char split_pos =
     (let data_empty = replicate (unat last_char) 0 in
      if desync_first_attack (px_profile X) = DESYNC_FIRST_NONE then
        bnd (send_string fuel (px_os X) server_socket data_empty last_char 0) (\<lambda>r. ret (r \<noteq> -1))
      else bnd (send_string fuel (px_os X) server_socket data_empty split_pos 0) (\<lambda>r.
        if r = -1 then ret False
        else bnd (send_string fuel (px_os X) server_socket data_empty (last_char - split_pos) 0) (\<lambda>r. ret (r \<noteq> -1))))"

text \<open>The first data of the client with the attacks, or as it is: the buffer and \<open>last_char\<close> afterwards.\<close>

definition attack_first :: "nat \<Rightarrow> proxy \<Rightarrow> target \<Rightarrow> string \<Rightarrow> int \<Rightarrow> int \<Rightarrow> sniff_out option \<Rightarrow> bytes \<Rightarrow> u32
    \<Rightarrow> (bytes \<times> u32) io" where
  "attack_first fuel X T ip client_socket server_socket out buffer last_char =
     bnd (join_sniffer out) (\<lambda>o'.
     if so_status o' = Some (-1) then refuse fuel X client_socket [server_socket, client_socket]
     else bnd (if t_https T \<and> proxy_mode (px_settings X) = MODE_PROXY then
            bnd (recv_string fuel (px_os X) client_socket buffer last_char (Some 5000000) None) (\<lambda>r.
              if r_ret r = -1 \<or> r_last_char r = 0 then leave [server_socket, client_socket]
              else ret (r_message r, r_last_char r))
          else ret (buffer, last_char)) (\<lambda>(buffer, last_char).
     bnd (split_at X (t_https T) buffer last_char) (\<lambda>split_pos.
     bnd (do_desync_attack (px_os X) (px_profile X) server_socket ip (t_port T) (t_https T) (so_packet o') buffer
            last_char split_pos) (\<lambda>_.
     bnd (synchronize fuel X server_socket last_char split_pos) (\<lambda>ok.
     if ok then ret (buffer, last_char)
     else refuse fuel X client_socket [server_socket, client_socket])))))"

definition first_data :: "nat \<Rightarrow> proxy \<Rightarrow> target \<Rightarrow> string \<Rightarrow> int \<Rightarrow> int \<Rightarrow> sniffer \<Rightarrow> bytes \<Rightarrow> u32 \<Rightarrow> (bytes \<times> u32) io" where
  "first_data fuel X T ip client_socket server_socket sn buffer last_char = (case sn of
     Some out \<Rightarrow> attack_first fuel X T ip client_socket server_socket out buffer last_char
   | None \<Rightarrow>
       if \<not> t_https T \<or> proxy_mode (px_settings X) = MODE_TRANSPARENT then
         bnd (send_string fuel (px_os X) server_socket buffer last_char 0) (\<lambda>r.
           if r = -1 then refuse fuel X client_socket [server_socket, client_socket]
           else ret (buffer, last_char))
       else ret (buffer, last_char))"

section \<open>The relay\<close>

definition set_nonblocking :: "proxy \<Rightarrow> int \<Rightarrow> bool io" where
  "set_nonblocking X fd = bnd (fcntl_getfl (px_os X) fd) (\<lambda>fl.
     fcntl_setfl (px_os X) fd ((case fl of None \<Rightarrow> - 1 | Some f \<Rightarrow> f) OR O_NONBLOCK))"

text \<open>One direction: whether a transfer failed, and the buffer and \<open>last_char\<close>, which keep what they had when
  the call failed.\<close>

definition transfer :: "nat \<Rightarrow> proxy \<Rightarrow> bool \<Rightarrow> int \<Rightarrow> int \<Rightarrow> bytes \<Rightarrow> u32 \<Rightarrow> (bool \<times> bytes \<times> u32) io" where
  "transfer fuel X strip from_socket to_socket buffer last_char =
     bnd (recv_string fuel (px_os X) from_socket buffer last_char None None) (\<lambda>r.
     bnd (if strip then strip_request X False (r_message r) (r_last_char r) else ret (r_message r, r_last_char r))
       (\<lambda>(buffer, last_char).
     bnd (send_string fuel (px_os X) to_socket buffer last_char 0) (\<lambda>s.
       ret (r_ret r = -1 \<or> s = -1, buffer, last_char))))"

definition revents :: "(bool \<times> bool) list \<Rightarrow> nat \<Rightarrow> bool \<times> bool" where
  "revents rs k = (if k < length rs then rs ! k else (False, False))"

fun relay :: "nat \<Rightarrow> nat \<Rightarrow> proxy \<Rightarrow> bool \<Rightarrow> int \<Rightarrow> int \<Rightarrow> bytes \<Rightarrow> u32 \<Rightarrow> unit io" where
  "relay 0 fuel X is_https client_socket server_socket buffer last_char = raise Out_of_fuel"
| "relay (Suc n) fuel X is_https client_socket server_socket buffer last_char =
     bnd (ask (px_stop X)) (\<lambda>stop.
     if stop then ret ()
     else bnd (poll (px_os X) [client_socket, server_socket, px_pipe X] (-1)) (\<lambda>p.
       case p of
         Poll_error er \<Rightarrow> ret ()
       | Poll_timeout \<Rightarrow> relay n fuel X is_https client_socket server_socket buffer last_char
       | Poll_ready rs \<Rightarrow>
           if fst (revents rs 0) \<or> fst (revents rs 1) then ret ()
           else bnd (if snd (revents rs 0) then transfer fuel X (\<not> is_https) client_socket server_socket buffer last_char
                     else ret (False, buffer, last_char)) (\<lambda>(failed1, buffer, last_char).
             bnd (if snd (revents rs 1) then transfer fuel X False server_socket client_socket buffer last_char
                  else ret (False, buffer, last_char)) (\<lambda>(failed2, buffer, last_char).
               if failed1 \<or> failed2 then ret ()
               else relay n fuel X is_https client_socket server_socket buffer last_char))))"

section \<open>\<open>process_client_cycle\<close>\<close>

definition serve_target :: "nat \<Rightarrow> nat \<Rightarrow> proxy \<Rightarrow> int \<Rightarrow> target \<Rightarrow> string \<Rightarrow> bytes \<Rightarrow> u32 \<Rightarrow> int io" where
  "serve_target n fuel X client_socket T ip buffer last_char =
     (let in_whitelist = (match_whitelist_ip (px_settings X) ip \<or> match_whitelist_domain (px_settings X) (t_host T)) in
      bnd (connect_server fuel X client_socket ip (t_port T) (desync_attacks (px_profile X) \<and> \<not> in_whitelist))
        (\<lambda>(server_socket, sn).
      then_do (answer_connect fuel X sn client_socket server_socket (t_https T))
      (bnd (first_data fuel X T ip client_socket server_socket sn buffer last_char) (\<lambda>(buffer, last_char).
      bnd (set_nonblocking X client_socket) (\<lambda>ok.
      bnd (if ok then set_nonblocking X server_socket else ret False) (\<lambda>_.
      then_do (relay n fuel X (t_https T) client_socket server_socket buffer last_char)
        (then_do (close_all [server_socket, client_socket]) (ret 0))))))))"

definition process_client_cycle :: "nat \<Rightarrow> nat \<Rightarrow> proxy \<Rightarrow> int \<Rightarrow> int io" where
  "process_client_cycle n fuel X client_socket = returning (
     bnd (first_request fuel X client_socket) (\<lambda>(buffer, last_char).
     bnd (find_target fuel X client_socket buffer last_char) (\<lambda>T.
     bnd (strip_request X (t_https T) buffer last_char) (\<lambda>(buffer, last_char).
     bnd (resolve_host fuel (px_os X) (px_net X) (px_settings X) (px_profile X) (t_host T) []) (\<lambda>(r, ip).
     if r = -1 then refuse fuel X client_socket [client_socket]
     else serve_target n fuel X client_socket T ip buffer last_char)))))"

end
