(* ===== verification/Owning.thy ===== *)
theory Owning
  imports Proxy
begin

text \<open>
  Which descriptors are open: an action that holds the descriptors \<open>D\<close> either ends normally and holds
  \<open>E x\<close>, or returns early and holds none. The rules below follow the structure of the code, so that
  every path of \<open>process_client_cycle\<close> is covered.
\<close>

definition opens :: "int \<Rightarrow> os_event \<Rightarrow> int" where
  "opens fd ev = (if fd < 0 then 0 else case ev of
     Socket k (Some f) \<Rightarrow> if f = fd then 1 else 0
   | Close f \<Rightarrow> if f = fd then - 1 else 0
   | _ \<Rightarrow> 0)"

definition balance :: "int \<Rightarrow> hist \<Rightarrow> int" where
  "balance fd h = sum_list (map (opens fd) h)"

definition held :: "int list \<Rightarrow> int \<Rightarrow> int" where
  "held D fd = (if fd < 0 then 0 else int (count_list D fd))"

lemma balance_append [simp]: "balance fd (h @ t) = balance fd h + balance fd t"
  "balance fd (ev # t) = opens fd ev + balance fd t" "balance fd [] = 0"
  by (simp_all add: balance_def)

definition owns :: "int list \<Rightarrow> ('a \<Rightarrow> int list) \<Rightarrow> 'a io \<Rightarrow> bool" where
  "owns D E m = (\<forall>h. case m h of
     (Inr x, h') \<Rightarrow> (\<forall>fd. balance fd h' = balance fd h - held D fd + held (E x) fd)
   | (Inl (Return r), h') \<Rightarrow> (\<forall>fd. balance fd h' = balance fd h - held D fd)
   | _ \<Rightarrow> True)"

lemma ownsI:
  assumes "\<And>h x h' fd. m h = (Inr x, h') \<Longrightarrow> balance fd h' = balance fd h - held D fd + held (E x) fd"
    "\<And>h r h' fd. m h = (Inl (Return r), h') \<Longrightarrow> balance fd h' = balance fd h - held D fd"
  shows "owns D E m"
  unfolding owns_def using assms by (auto split: prod.splits sum.splits stop.splits)

lemma ownsD:
  assumes "owns D E m"
  shows "m h = (Inr x, h') \<Longrightarrow> balance fd h' = balance fd h - held D fd + held (E x) fd"
    "m h = (Inl (Return r), h') \<Longrightarrow> balance fd h' = balance fd h - held D fd"
  using assms [unfolded owns_def, rule_format, of h] by simp_all

text \<open>The contract of an operation that is handed descriptors: whenever it returns, it has closed them and what
  it opened itself.\<close>

locale handover =
  fixes run :: "'c \<Rightarrow> 'a io" and taken :: "'c \<Rightarrow> int list"
  assumes owns_run: "owns (taken c) (\<lambda>_. []) (run c)"
begin

lemma closes: "run c h = (Inr r, h') \<Longrightarrow> 0 \<le> fd \<Longrightarrow> balance fd h' = balance fd h - int (count_list (taken c) fd)"
  using ownsD(1) [OF owns_run, of c h r h' fd] by (simp add: held_def)

lemma closes_early: "run c h = (Inl (Return r), h') \<Longrightarrow> 0 \<le> fd \<Longrightarrow> balance fd h' = balance fd h - int (count_list (taken c) fd)"
  using ownsD(2) [OF owns_run, of c h r h' fd] by (simp add: held_def)

end

named_theorems owning \<open>actions and the descriptors they hold\<close>

lemma owns_ret [owning]: "owns D (\<lambda>_. D) (ret x)"
  by (simp add: owns_def ret_def)

lemma owns_stop [owning]: "owns D E (raise Undefined)" "owns D E (raise (Throw s))" "owns D E (raise Terminate)"
  "owns D E (raise Blocked)" "owns D E (raise Out_of_fuel)"
  by (simp_all add: owns_def raise_def)

lemma owns_return [owning]: "owns [] E (raise (Return r))"
  by (simp add: owns_def raise_def held_def)

lemma owns_sys: "(\<And>x fd. opens fd (v x) = 0) \<Longrightarrow> owns D (\<lambda>_. D) (sys v f)"
  by (simp add: owns_def sys_def)

lemma owns_ask [owning]: "owns D (\<lambda>_. D) (ask f)"
  by (simp add: owns_def ask_def)

lemma owns_emit: "(\<And>fd. opens fd ev = 0) \<Longrightarrow> owns D (\<lambda>_. D) (emit ev)"
  by (simp add: owns_def emit_def)

lemma owns_bnd:
  assumes "owns D E m" "\<And>x. owns (E x) F (f x)"
  shows "owns D F (bnd m f)"
  unfolding owns_def
proof
  fix h
  show "case bnd m f h of (Inr y, h') \<Rightarrow> (\<forall>fd. balance fd h' = balance fd h - held D fd + held (F y) fd)
     | (Inl (Return r), h') \<Rightarrow> (\<forall>fd. balance fd h' = balance fd h - held D fd) | _ \<Rightarrow> True"
  proof (cases "m h")
    case (Pair r h1)
    show ?thesis
    proof (cases r)
      case (Inl st)
      then show ?thesis using assms(1) [unfolded owns_def, rule_format, of h] Pair
        by (cases st) (simp_all add: bnd_def)
    next
      case (Inr x)
      have b: "\<forall>fd. balance fd h1 = balance fd h - held D fd + held (E x) fd"
        using assms(1) [unfolded owns_def, rule_format, of h] Pair Inr by simp
      show ?thesis using assms(2) [of x, unfolded owns_def, rule_format, of h1] Pair Inr b
        by (auto simp: bnd_def split: prod.splits sum.splits stop.splits)
    qed
  qed
qed

lemma owns_then_do: "owns D (\<lambda>_. E) m \<Longrightarrow> owns E F n \<Longrightarrow> owns D F (then_do m n)"
  unfolding then_do_def by (rule owns_bnd)

lemma owns_if: "(b \<Longrightarrow> owns D E m) \<Longrightarrow> (\<not> b \<Longrightarrow> owns D E n) \<Longrightarrow> owns D E (if b then m else n)"
  by simp

lemma owns_option: "(x = None \<Longrightarrow> owns D E m) \<Longrightarrow> (\<And>y. x = Some y \<Longrightarrow> owns D E (f y)) \<Longrightarrow>
    owns D E (case x of None \<Rightarrow> m | Some y \<Rightarrow> f y)"
  by (cases x) auto

lemma owns_sysres: "(\<And>y. owns D E (f y)) \<Longrightarrow> (\<And>er. owns D E (g er)) \<Longrightarrow> owns D E (case x of Ok y \<Rightarrow> f y | Err er \<Rightarrow> g er)"
  by (cases x) auto

lemma owns_pollres: "(\<And>er. owns D E (f er)) \<Longrightarrow> owns D E m \<Longrightarrow> (\<And>rs. owns D E (g rs)) \<Longrightarrow>
    owns D E (case x of Poll_error er \<Rightarrow> f er | Poll_timeout \<Rightarrow> m | Poll_ready rs \<Rightarrow> g rs)"
  by (cases x) auto

lemma owns_prod: "(\<And>a b. owns D E (f a b)) \<Longrightarrow> owns D E (case x of (a, b) \<Rightarrow> f a b)"
  by (cases x) auto

lemma owns_sum: "(\<And>a. x = Inl a \<Longrightarrow> owns D E (f a)) \<Longrightarrow> (\<And>b. x = Inr b \<Longrightarrow> owns D E (g b)) \<Longrightarrow>
    owns D E (case x of Inl a \<Rightarrow> f a | Inr b \<Rightarrow> g b)"
  by (cases x) auto

lemma owns_let: "owns D E (f x) \<Longrightarrow> owns D E (Let x f)"
  by simp

lemma owns_list: "(x = [] \<Longrightarrow> owns D E m) \<Longrightarrow> (\<And>y ys. x = y # ys \<Longrightarrow> owns D E (f y ys)) \<Longrightarrow>
    owns D E (case x of [] \<Rightarrow> m | y # ys \<Rightarrow> f y ys)"
  by (cases x) auto

lemmas owns_cases = owns_if owns_option owns_sysres owns_pollres owns_prod owns_sum owns_list owns_let

lemma owns_close [owning]: "owns (fd # D) (\<lambda>_. D) (close fd)"
  by (auto simp: owns_def close_def emit_def opens_def held_def)

lemma owns_socket: "owns D (\<lambda>s. case s of None \<Rightarrow> D | Some fd \<Rightarrow> fd # D) (socket e k)"
  by (auto simp: owns_def socket_def sys_def opens_def held_def split: option.splits)

lemma owns_calls [owning]:
  "owns D (\<lambda>_. D) (setsockopt e fd opt v)" "owns D (\<lambda>_. D) (getsockopt e fd opt)"
  "owns D (\<lambda>_. D) (connect e fd a)" "owns D (\<lambda>_. D) (clock_gettime e)" "owns D (\<lambda>_. D) (now_ms e)"
  "owns D (\<lambda>_. D) (poll e fds t)" "owns D (\<lambda>_. D) (recv e fd n)" "owns D (\<lambda>_. D) (send e fd d)"
  "owns D (\<lambda>_. D) (sendto e fd a d)" "owns D (\<lambda>_. D) (getsockname e fd)" "owns D (\<lambda>_. D) (fcntl_getfl e fd)"
  "owns D (\<lambda>_. D) (fcntl_setfl e fd fl)" "owns D (\<lambda>_. D) (sleep_ms n)" "owns D (\<lambda>_. D) (rand e)"
  "owns D (\<lambda>_. D) (original_dst X fd)" "owns D (\<lambda>_. D) (emit Sniff_start)" "owns D (\<lambda>_. D) (emit Sniff_join)"
  by (simp_all add: os_calls original_dst_def owns_sys owns_emit opens_def)

lemma owns_the_or [owning]: "owns D (\<lambda>_. D) (the_or Undefined x)"
  by (cases x) (simp_all add: the_or_def owning)

lemma owns_same:
  assumes "owns D E m" "\<And>x fd. held (E x) fd = held (F x) fd" "\<And>fd. held D fd = held C fd"
  shows "owns C F m"
  by (rule ownsI) (simp_all add: ownsD [OF assms(1)] flip: assms(2,3))

lemma owns_returning:
  assumes "owns D (\<lambda>_. []) m"
  shows "owns D (\<lambda>_. []) (returning m)"
proof (rule ownsI)
  fix h x h' fd assume "returning m h = (Inr x, h')"
  then have "m h = (Inr x, h') \<or> m h = (Inl (Return x), h')"
    by (auto simp: returning_def split: prod.splits sum.splits stop.splits)
  then show "balance fd h' = balance fd h - held D fd + held [] fd"
    using ownsD [OF assms] by (auto simp: held_def)
qed (auto simp: returning_def split: prod.splits sum.splits stop.splits)

lemmas owns_steps = owns_bnd owns_then_do owns_cases

section \<open>Streams\<close>

lemma owns_recv_loop: "owns D (\<lambda>_. D) (recv_loop n e fd timeout start o')"
proof (induction n arbitrary: o')
  case (Suc n)
  have d: "owns D (\<lambda>_. D) (recv_done e fd timeout d start stop o'')" for d stop o''
    unfolding recv_done_def Let_def by (rule owns_steps owning)+
  show ?case unfolding recv_loop.simps by (rule owns_steps owning Suc.IH d)+
qed (simp add: owning)

lemma owns_recv_string [owning]: "owns D (\<lambda>_. D) (recv_string fuel e fd message last_char timeout recv_time)"
  unfolding recv_string_def Let_def by (rule owns_steps owning owns_recv_loop)+

lemma owns_send_loop: "owns D (\<lambda>_. D) (send_loop n e fd s last_char split_pos offset)"
proof (induction n arbitrary: offset)
  case (Suc n)
  show ?case unfolding send_loop.simps Let_def by (rule owns_steps owning Suc.IH)+
qed (simp add: owning)

lemma owns_send_string [owning]: "owns D (\<lambda>_. D) (send_string fuel e fd s last_char split_pos)"
  unfolding send_string_def by (rule owns_steps owning owns_send_loop)+

lemma owns_close_all [owning]: "owns D (\<lambda>_. []) (close_all D)"
proof (induction D)
  case Nil
  show ?case by (simp add: owning)
next
  case (Cons fd D)
  show ?case unfolding close_all.simps by (rule owns_then_do [OF owns_close Cons.IH])
qed

lemma owns_leave [owning]: "owns D E (leave D)"
  unfolding leave_def by (rule owns_then_do [OF owns_close_all owns_return])

lemma owns_send_whole [owning]: "owns D (\<lambda>_. D) (send_whole_string fuel X fd s)"
  unfolding send_whole_string_def by (rule owns_steps owning)+

lemma owns_refuse [owning]: "owns D E (refuse fuel X fd D)"
  unfolding refuse_def by (rule owns_steps owning)+

section \<open>Resolving\<close>

lemma owns_returning_with: "owns [] (\<lambda>_. []) m \<Longrightarrow> owns [] (\<lambda>_. []) (returning_with x m)"
proof (rule ownsI)
  fix h y h' fd assume m: "owns [] (\<lambda>_. []) m" and "returning_with x m h = (Inr y, h')"
  then have "(\<exists>y. m h = (Inr y, h')) \<or> (\<exists>r. m h = (Inl (Return r), h'))"
    by (auto simp: returning_with_def split: prod.splits sum.splits stop.splits)
  then show "balance fd h' = balance fd h - held [] fd + held [] fd"
    using ownsD [OF m] by (auto simp: held_def)
qed (auto simp: returning_with_def split: prod.splits sum.splits stop.splits)

lemma owns_take_answer [owning]: "owns D (\<lambda>_. D) (take_answer rrs ip)"
proof (induction rrs)
  case (Cons rr rrs)
  show ?case by (auto simp: owning Cons.IH split: option.splits rdata.splits)
qed (simp add: owning)

lemma owns_dns_request [owning]: "owns D (\<lambda>_. D) (dns_request host i)"
  unfolding dns_request_def by (auto simp: owning split: sum.splits dns_stop.splits)

lemma owns_close_fail [owning]: "owns [fd] E (close_fail fd)"
  unfolding close_fail_def by (rule owns_steps owning)+

lemma owns_udp_loop: "owns [fd] (\<lambda>_. [fd]) (udp_loop n e timeout fd i start this)"
proof (induction n arbitrary: this)
  case (Suc n)
  show ?case unfolding udp_loop.simps by (rule owns_steps owning Suc.IH)+
qed (simp add: owning)

lemma owns_udp [owning]: "owns [] (\<lambda>_. []) (resolve_host_over_udp fuel e S P host ip)"
  unfolding resolve_host_over_udp_def udp_body_def Let_def
  apply (rule owns_returning_with)
  apply (rule owns_bnd [OF owns_calls(14)])
  apply (rule owns_bnd [OF owns_dns_request])
  apply (rule owns_bnd [OF owns_socket])
  subgoal for x y s by (cases s) (simp, rule owns_return, simp, (rule owns_steps owning owns_udp_loop)+)
  done

definition no_return :: "'a io \<Rightarrow> bool" where
  "no_return m = (\<forall>h r h'. m h \<noteq> (Inl (Return r), h'))"

lemma owns_frame: "owns [] (\<lambda>_. []) m \<Longrightarrow> no_return m \<Longrightarrow> owns D (\<lambda>_. D) m"
  by (rule ownsI) (auto simp: no_return_def held_def dest: ownsD)

lemma no_return_intros:
  "no_return (returning m')" "no_return (returning_with x m)" "no_return (ret x)"
  by (auto simp: no_return_def returning_def returning_with_def ret_def split: prod.splits sum.splits stop.splits)

lemma owns_doh_address: "owns [] (\<lambda>_. []) (doh_address fuel e S P serv_host)"
  unfolding doh_address_def by (rule owns_steps owning)+

lemma owns_doh [owning]: "owns [] (\<lambda>_. []) (resolve_host_over_doh fuel e N S P host ip)"
proof -
  have "owns D (\<lambda>_. D) (sys (Https_get a b c) f)" for D a b c f
    by (rule owns_sys) (simp add: opens_def)
  then show ?thesis
    unfolding resolve_host_over_doh_def doh_body_def Let_def
    by - (rule owns_returning_with, (rule owns_steps owning owns_doh_address
      | (simp split: if_split, intro conjI impI) | assumption)+)
qed

lemma owns_system [owning]: "owns D (\<lambda>_. D) (resolve_host_over_system N host)"
  unfolding resolve_host_over_system_def by (rule owns_steps owning)+

lemma owns_resolve_host [owning]: "owns D (\<lambda>_. D) (resolve_host fuel e N S P host ip)"
proof (rule owns_frame)
  show "owns [] (\<lambda>_. []) (resolve_host fuel e N S P host ip)"
    unfolding resolve_host_def by (rule owns_steps owning)+
  show "no_return (resolve_host fuel e N S P host ip)"
    unfolding resolve_host_def resolve_host_over_doh_def resolve_host_over_udp_def
    by (auto simp: no_return_intros) (auto simp: no_return_def resolve_host_over_system_def act_defs split: option.splits)
qed

section \<open>Attacking\<close>

lemma owns_close_and_fail [owning]: "owns [fd] E (close_and_fail fd)"
  unfolding close_and_fail_def by (rule owns_steps owning)+

lemma owns_need [owning]: "owns [fd] (\<lambda>_. [fd]) (need fd ok)" "owns [fd] (\<lambda>_. [fd]) (need_some fd r)"
  unfolding need_def need_some_def by (rule owns_steps owning)+

lemma owns_value: "E x = D \<Longrightarrow> owns D E (ret x)"
  using owns_ret [of D x] by (auto simp: owns_def ret_def)

lemma owns_open_raw: "owns [] (\<lambda>fd. [fd]) (open_raw_socket e)"
  unfolding open_raw_socket_def
proof (rule owns_bnd [OF owns_socket])
  fix s
  show "owns (case s of None \<Rightarrow> [] | Some fd \<Rightarrow> [fd]) (\<lambda>fd. [fd]) (bnd (the_or (Return (-1)) s) (\<lambda>fd.
     bnd (setsockopt e fd SO_SNDBUF 0) (\<lambda>ok. then_do (need fd ok) (
     bnd (setsockopt e fd IP_HDRINCL 1) (\<lambda>ok. then_do (need fd ok) (ret fd))))))"
  proof (cases s)
    case (Some fd)
    have "owns [fd] (\<lambda>fd. [fd]) (bnd (setsockopt e fd SO_SNDBUF 0) (\<lambda>ok. then_do (need fd ok) (
     bnd (setsockopt e fd IP_HDRINCL 1) (\<lambda>ok. then_do (need fd ok) (ret fd)))))"
      by ((rule owns_bnd owns_then_do owns_calls owns_need)+, rule owns_value, simp)
    then show ?thesis using Some by (simp add: the_or_def)
  qed (simp add: the_or_def owning)
qed

lemma owns_send_packet [owning]: "owns [c_fd c] (\<lambda>_. [c_fd c]) (send_packet e c p)"
  unfolding send_packet_def send_string_raw_def by (rule owns_steps owning)+

lemma owns_packets [owning]:
  "owns D (\<lambda>_. D) (fake_packet P c d n flags ident)" "owns D (\<lambda>_. D) (data_packet P c off n ident)"
  "owns D (\<lambda>_. D) (rand_id e)"
  unfolding fake_packet_def data_packet_def rand_id_def by (rule owns_steps owning)+

lemma owns_send_data [owning]:
  "owns [c_fd c] (\<lambda>_. [c_fd c]) (send_data e P c off n ident)" 
  "owns [c_fd c] (\<lambda>_. [c_fd c]) (send_second e P c)" "owns [c_fd c] (\<lambda>_. [c_fd c]) (send_first e P c)"
  "owns [c_fd c] (\<lambda>_. [c_fd c]) (send_whole e P c)" "owns [c_fd c] (\<lambda>_. [c_fd c]) (send_first_faked e P c)"
  unfolding send_second_def send_first_def send_whole_def send_first_faked_def first_fake_def send_data_def
  by (rule owns_steps owning)+

lemma owns_attacks [owning]:
  "owns [c_fd c] (\<lambda>_. [c_fd c]) (zero_attack e P c is_https)" "owns [c_fd c] (\<lambda>_. [c_fd c]) (first_attack e P c)"
proof -
  show "owns [c_fd c] (\<lambda>_. [c_fd c]) (zero_attack e P c is_https)"
    unfolding zero_attack_def Let_def by (cases "desync_zero_attack P"; simp only: Desync_zero_attacks.case; (rule owns_steps owning)+)
  show "owns [c_fd c] (\<lambda>_. [c_fd c]) (first_attack e P c)"
    unfolding first_attack_def by (cases "desync_first_attack P"; simp only: Desync_first_attacks.case; (rule owns_steps owning)+)
qed

lemma owns_send_plan: "owns [c_fd c] (\<lambda>_. []) (send_plan e P c is_https)"
  unfolding send_plan_def by (rule owns_steps owning)+

lemma owns_desync [owning]: "owns D (\<lambda>_. D) (do_desync_attack e P s ip port is_https raw d last_char split_pos)"
proof (rule owns_frame)
  have plan: "owns [fd] (\<lambda>_. []) (send_plan e P \<lparr>c_fd = fd, c_addr = a, c_raw = r, c_data = d, c_last = l, c_split = sp,
     c_default_ttl = t, c_mss = m, c_fake_ttl = f, c_id_first = i\<rparr> is_https)" for fd a r d l sp t m f i
    using owns_send_plan [of "\<lparr>c_fd = fd, c_addr = a, c_raw = r, c_data = d, c_last = l, c_split = sp,
     c_default_ttl = t, c_mss = m, c_fake_ttl = f, c_id_first = i\<rparr>" e P is_https] by simp
  show "owns [] (\<lambda>_. []) (do_desync_attack e P s ip port is_https raw d last_char split_pos)"
    unfolding do_desync_attack_def
    by (rule owns_returning, rule owns_bnd [OF owns_open_raw]) (rule owns_steps owning plan)+
qed (simp add: do_desync_attack_def no_return_intros)

section \<open>Serving a client\<close>

lemma owns_sniffer [owning]:
  "owns D (\<lambda>_. D) (start_sniffer X ip port)" "owns D (\<lambda>_. D) (join_sniffer out)" "owns D (\<lambda>_. D) (join_if sn)"
  unfolding start_sniffer_def join_if_def join_sniffer_def Let_def by (rule owns_steps owning)+

lemma owns_first_request: "owns [c] (\<lambda>_. [c]) (first_request fuel X c)"
  unfolding first_request_def by (rule owns_steps owning)+

lemma owns_sni_range [owning]: "owns D (\<lambda>_. D) (sni_range buffer last_char)"
  unfolding sni_range_def by (rule owns_steps owning)+

lemma owns_transparent_target [owning]: "owns [c] (\<lambda>_. [c]) (transparent_target X c buffer last_char is_https host)"
  unfolding transparent_target_def by (rule owns_steps owning)+

lemma owns_find_target: "owns [c] (\<lambda>_. [c]) (find_target fuel X c buffer last_char)"
  unfolding find_target_def Let_def
  by (cases "parse_request (string_of buffer) (proxy_mode (px_settings X) \<noteq> MODE_TRANSPARENT)"; simp add: owning)

lemma owns_strip [owning]: "owns D (\<lambda>_. D) (strip_request X is_https buffer last_char)"
  unfolding strip_request_def by (auto simp: owning split: throws.splits)

lemma owns_init_remote: "owns D (\<lambda>(r, s). s # D) (init_remote_server_socket e P ip port)"
  unfolding init_remote_server_socket_def
proof (rule owns_bnd [OF owns_socket])
  fix s
  let ?E = "\<lambda>(r :: int, s). s # D"
  have v: "owns (fd # D) ?E (ret (r, fd))" for r fd by (rule owns_value) simp
  show "owns (case s of None \<Rightarrow> D | Some fd \<Rightarrow> fd # D) ?E (case s of
         None \<Rightarrow> ret (-1, -1)
       | Some fd \<Rightarrow>
           (case inet_pton ip of
              None \<Rightarrow> ret (-1, fd)
            | Some a \<Rightarrow>
                bnd (if window_scale_factor P \<noteq> - 1 then
                       (case rcvbuf_for_scale (window_scale_factor P) of
                          None \<Rightarrow> raise Undefined
                        | Some buflen \<Rightarrow> setsockopt e fd SO_RCVBUFFORCE buflen)
                     else ret True) (\<lambda>ok.
                  if \<not> ok then ret (-1, fd)
                  else bnd (connect e fd (Sockaddr a (word_of_int port))) (\<lambda>c.
                    case c of
                      Err er \<Rightarrow> ret (-1, fd)
                    | Ok u \<Rightarrow>
                        bnd (setsockopt e fd SO_SNDTIMEO 10) (\<lambda>ok1.
                          if \<not> ok1 then ret (-1, fd)
                          else bnd (setsockopt e fd SO_RCVTIMEO 10) (\<lambda>ok2.
                            ret (if ok2 then 0 else -1, fd)))))))"
  proof (cases s)
    case None
    have "owns (- 1 # D) ?E (ret (-1, -1))" by (rule v)
    then have "owns D ?E (ret (-1, -1))" by (rule owns_same) (auto simp: held_def)
    then show ?thesis using None by simp
  next
    case (Some fd)
    then show ?thesis by (simp only: option.case) (rule v owns_bnd owns_cases owns_calls owns_stop owns_ret)+
  qed
qed

lemma owns_drop_server [owning]: "owns [s, c] E (drop_server fuel X sn c s)"
  unfolding drop_server_def by (rule owns_steps owning)+

lemma owns_connect_server: "owns [c] (\<lambda>(s, sn). [s, c]) (connect_server fuel X c ip port attack)"
proof -
  have v: "owns [s, c] (\<lambda>(s, sn). [s, c]) (ret (s, sn))" for s :: int and sn :: sniffer by (rule owns_value) simp
  have a: "owns [c] (\<lambda>_. [c]) (if attack then bnd (start_sniffer X ip port) (\<lambda>out. ret (Some out)) else ret None)"
    by (rule owns_steps owning)+
  show ?thesis unfolding connect_server_def
    apply (rule owns_bnd [OF a], rule owns_bnd [OF owns_init_remote])
    subgoal for sn x by (cases x) (simp only: prod.case, (rule v owns_steps owning)+)
    done
qed

lemma owns_answer_connect: "owns [s, c] (\<lambda>_. [s, c]) (answer_connect fuel X sn c s is_https)"
  unfolding answer_connect_def by (rule owns_steps owning | simp add: owning)+

lemma owns_split_at [owning]: "owns D (\<lambda>_. D) (split_at X is_https buffer last_char)"
  unfolding split_at_def Let_def by (rule owns_steps owning)+

lemma owns_synchronize [owning]: "owns D (\<lambda>_. D) (synchronize fuel X s last_char split_pos)"
  unfolding synchronize_def Let_def by (rule owns_steps owning)+

lemma owns_attack_first [owning]: "owns [s, c] (\<lambda>_. [s, c]) (attack_first fuel X T ip c s out buffer last_char)"
  unfolding attack_first_def by (rule owns_steps owning)+

lemma owns_first_data: "owns [s, c] (\<lambda>_. [s, c]) (first_data fuel X T ip c s sn buffer last_char)"
  unfolding first_data_def by (rule owns_steps owning)+

lemma owns_nonblocking [owning]: "owns D (\<lambda>_. D) (set_nonblocking X fd)"
  unfolding set_nonblocking_def by (rule owns_steps owning)+

lemma owns_transfer [owning]: "owns D (\<lambda>_. D) (transfer fuel X strip a b buffer last_char)"
  unfolding transfer_def by (rule owns_steps owning)+

lemma owns_relay: "owns D (\<lambda>_. D) (relay n fuel X is_https c s buffer last_char)"
proof (induction n arbitrary: buffer last_char)
  case (Suc n)
  show ?case unfolding relay.simps by (rule owns_steps owning Suc.IH)+
qed (simp add: owning)

lemma owns_serve: "owns [c] (\<lambda>_. []) (serve_target n fuel X c T ip buffer last_char)"
proof -
  have "owns [s, c] (\<lambda>_. []) (then_do (answer_connect fuel X sn c s (t_https T))
      (bnd (first_data fuel X T ip c s sn buffer last_char) (\<lambda>(buffer, last_char).
      bnd (set_nonblocking X c) (\<lambda>ok. bnd (if ok then set_nonblocking X s else ret False) (\<lambda>_.
      then_do (relay n fuel X (t_https T) c s buffer last_char) (then_do (close_all [s, c]) (ret 0)))))))" for s sn
    by (rule owns_then_do [OF owns_answer_connect], rule owns_bnd [OF owns_first_data]) (rule owns_steps owning owns_relay)+
  then show ?thesis unfolding serve_target_def Let_def
    by (intro owns_bnd [OF owns_connect_server]) auto
qed

lemma owns_client: "owns [client_socket] (\<lambda>_. []) (process_client_cycle n fuel X client_socket)"
  unfolding process_client_cycle_def
  by (rule owns_returning, rule owns_bnd [OF owns_first_request], rule owns_prod, rule owns_bnd [OF owns_find_target])
    (rule owns_steps owning owns_serve)+

interpretation client: handover "process_client_cycle n fuel X" "\<lambda>s. [s]" for n fuel X
  by unfold_locales (rule owns_client)

interpretation resolver: handover "\<lambda>host. resolve_host fuel e N S P host ip" "\<lambda>_. []" for fuel e N S P ip
  by unfold_locales (rule owns_resolve_host)

text \<open>C5: Whatever the client, the server and the system do: when \<open>process_client_cycle\<close> returns, on any of
  its paths, every descriptor it opened (the socket of the server, the raw sockets of the attacks, the
  sockets of the resolver) has been closed as often as it was opened, and the socket of the client exactly
  once.\<close>

theorem process_client_cycle_closes:
  assumes "process_client_cycle n fuel X client_socket h = (Inr r, h')" "0 \<le> fd"
  shows "balance fd h' = balance fd h - (if fd = client_socket then 1 else 0)"
  using client.closes [OF assms] by auto

definition connect_request :: bytes where
  "connect_request = bytes_of (''CONNECT 10.0.0.5:443 HTTP/1.1'' @ CRLF @ CRLF)"

definition sample_proxy :: proxy where
  "sample_proxy = \<lparr>px_os = willing_os\<lparr>os_recv := \<lambda>h fd n. Ok connect_request\<rparr>,
     px_net = \<lparr>getaddrinfo = \<lambda>h s. None, https_get = \<lambda>h s a p. None, x509_store = True\<rparr>,
     px_settings = default_Settings, px_profile = default_Profile\<lparr>buffer_size := 40\<rparr>, px_pipe = 5, px_stop = \<lambda>h. 14 < length h,
     px_original_dst = \<lambda>h fd. None, px_sniff_ok = True, px_sniff_obs = [], px_stack = 0\<rparr>"
lemma sample_run: "fst (process_client_cycle 2 3 sample_proxy 7 []) = Inr 0"
  by code_simp

lemma process_client_cycle_closes_witness:
  "balance 7 (snd (process_client_cycle 2 3 sample_proxy 7 [])) = balance 7 [] - (if 7 = (7 :: int) then 1 else 0)"
proof (rule process_client_cycle_closes)
  show "process_client_cycle 2 3 sample_proxy 7 [] = (Inr 0, snd (process_client_cycle 2 3 sample_proxy 7 []))"
    using sample_run by (metis prod.collapse)
qed simp

text \<open>C32: When the answer to CONNECT cannot be sent to the client, for example because the client has hung
  up while the server was connected, and the profile attacks this host, then \<open>process_client_cycle\<close> returns
  past its joinable sniffer thread, whose destructor ends the whole proxy.\<close>

theorem connect_answer_terminates:
  assumes "connect_server fuel X client_socket ip (t_port T) (desync_attacks (px_profile X)
      \<and> \<not> (match_whitelist_ip (px_settings X) ip \<or> match_whitelist_domain (px_settings X) (t_host T))) h
      = (Inr (server_socket, Some out), h1)"
    and "send_whole_string fuel X client_socket CONNECTION_ESTABLISHED_RESPONSE h1 = (Inr (- 1), h2)"
    and "t_https T" "proxy_mode (px_settings X) = MODE_PROXY"
  shows "serve_target n fuel X client_socket T ip buffer last_char h
    = (Inl Terminate, h2 @ [Close server_socket, Close client_socket])"
  using assms by (simp add: serve_target_def answer_connect_def Let_def bnd_def then_do_def close_def emit_def raise_def ret_def)

definition hung_up :: proxy where
  "hung_up = sample_proxy\<lparr>px_os := willing_os\<lparr>os_send := \<lambda>h fd d. Err (Errno 32)\<rparr>,
     px_profile := default_Profile\<lparr>desync_attacks := True\<rparr>,
     px_sniff_obs := [\<lparr>o_flag = True, o_port = 40000, o_poll = S_timeout, o_elapsed = 5001\<rparr>]\<rparr>"

definition https_target :: target where
  "https_target = \<lparr>t_https = True, t_host = ''a.b'', t_port = 443\<rparr>"

definition hung_up_start :: "(stop + int \<times> sniffer) \<times> hist" where
  "hung_up_start = connect_server 3 hung_up 7 ''10.0.0.5'' 443 True []"

lemma hung_up_steps:
  "hung_up_start = (Inr (fst (projr (fst hung_up_start)), Some (the (snd (projr (fst hung_up_start))))), snd hung_up_start)"
  "send_whole_string 3 hung_up 7 CONNECTION_ESTABLISHED_RESPONSE (snd hung_up_start)
     = (Inr (- 1), snd (send_whole_string 3 hung_up 7 CONNECTION_ESTABLISHED_RESPONSE (snd hung_up_start)))"
  by code_simp+

lemma connect_answer_terminates_witness:
  "fst (serve_target 3 3 hung_up 7 https_target ''10.0.0.5'' [] 0 []) = Inl Terminate"
proof -
  have "connect_server 3 hung_up 7 ''10.0.0.5'' (t_port https_target) (desync_attacks (px_profile hung_up)
      \<and> \<not> (match_whitelist_ip (px_settings hung_up) ''10.0.0.5'' \<or> match_whitelist_domain (px_settings hung_up) (t_host https_target))) []
      = (Inr (fst (projr (fst hung_up_start)), Some (the (snd (projr (fst hung_up_start))))), snd hung_up_start)"
    using hung_up_steps(1) by (simp add: hung_up_start_def hung_up_def sample_proxy_def https_target_def default_Settings_def
      match_whitelist_ip_def match_whitelist_domain_def)
  from connect_answer_terminates [OF this hung_up_steps(2)] show ?thesis
    by (simp add: hung_up_def sample_proxy_def https_target_def default_Settings_def)
qed
end
