(* ===== verification/Relay.thy ===== *)
theory Relay
  imports Proxy "HOL-Library.Sublist"
begin

text \<open>
  What the relay of \<open>process_client_cycle\<close> does to the two byte streams: each side gets what the other
  sent, in order, each byte once.
\<close>

section \<open>Streams of a history\<close>

definition got_piece :: "int \<Rightarrow> os_event \<Rightarrow> bytes" where
  "got_piece fd ev = (case ev of Recv fd' n (Ok d) \<Rightarrow> if fd' = fd then d else [] | _ \<Rightarrow> [])"

definition got :: "int \<Rightarrow> hist \<Rightarrow> bytes" where
  "got fd h = concat (map (got_piece fd) h)"

text \<open>A receive that failed with an error other than the two the code waits out, and a send that did.\<close>

definition hard :: "errno \<Rightarrow> bool" where
  "hard er = (er \<noteq> EAGAIN \<and> er \<noteq> EINTR)"

definition breaks :: "int \<Rightarrow> os_event \<Rightarrow> bool" where
  "breaks fd ev = (case ev of Recv fd' n (Err er) \<Rightarrow> fd' = fd \<and> hard er | _ \<Rightarrow> False)"

definition broken :: "int \<Rightarrow> hist \<Rightarrow> bool" where
  "broken fd h = (\<exists>ev\<in>set h. breaks fd ev)"

definition refuses :: "int \<Rightarrow> os_event \<Rightarrow> bool" where
  "refuses fd ev = (case ev of Send fd' d (Err er) \<Rightarrow> fd' = fd \<and> hard er
     | Send fd' d (Ok k) \<Rightarrow> fd' = fd \<and> k = 0 | _ \<Rightarrow> False)"

definition refused :: "int \<Rightarrow> hist \<Rightarrow> bool" where
  "refused fd h = (\<exists>ev\<in>set h. refuses fd ev)"

lemma stream_append [simp]:
  "got fd (h @ t) = got fd h @ got fd t" "got fd (ev # t) = got_piece fd ev @ got fd t" "got fd [] = []"
  "broken fd (h @ t) \<longleftrightarrow> broken fd h \<or> broken fd t" "\<not> broken fd []"
  "broken fd (ev # t) \<longleftrightarrow> breaks fd ev \<or> broken fd t"
  "refused fd (h @ t) \<longleftrightarrow> refused fd h \<or> refused fd t" "\<not> refused fd []"
  "refused fd (ev # t) \<longleftrightarrow> refuses fd ev \<or> refused fd t"
  by (auto simp: got_def broken_def refused_def)

lemma stream_events [simp]:
  "got_piece fd (Recv fd' n (Ok d)) = (if fd' = fd then d else [])" "got_piece fd (Recv fd' n (Err er)) = []"
  "got_piece fd (Send fd' s r) = []" "got_piece fd (Sleep_ms k) = []" "got_piece fd (Poll fds tm p) = []"
  "piece fd (Recv fd' n x) = []" "piece fd (Poll fds tm p) = []"
  "breaks fd (Recv fd' n (Err er)) \<longleftrightarrow> fd' = fd \<and> hard er" "\<not> breaks fd (Recv fd' n (Ok d))"
  "\<not> breaks fd (Send fd' s r)" "\<not> breaks fd (Sleep_ms k)" "\<not> breaks fd (Poll fds tm p)"
  "refuses fd (Send fd d (Err er)) \<longleftrightarrow> hard er" "refuses fd (Send fd d (Ok k)) \<longleftrightarrow> k = 0"
  "\<not> hard EAGAIN" "\<not> hard EINTR"
  by (auto simp: got_piece_def piece_def breaks_def refuses_def hard_def)

lemma piece_other: "fd' \<noteq> fd \<Longrightarrow> piece fd (Send fd' d r) = []"
  by (cases r) (simp_all add: piece_def)

section \<open>One direction\<close>

text \<open>What a part \<open>t\<close> of a history carried from \<open>a\<close> to \<open>b\<close>: nothing else was touched, and unless a receive
  broke, \<open>b\<close> got a prefix of what \<open>a\<close> sent, all of it unless a send was refused.\<close>

definition alone :: "int \<Rightarrow> int \<Rightarrow> hist \<Rightarrow> bool" where
  "alone a b t = ((\<forall>fd. fd \<noteq> b \<longrightarrow> accepted fd t = []) \<and> (\<forall>fd. fd \<noteq> a \<longrightarrow> got fd t = [] \<and> \<not> broken fd t))"

definition lossless :: "int \<Rightarrow> int \<Rightarrow> hist \<Rightarrow> bool" where
  "lossless a b t = (broken a t \<or> accepted b t = got a t)"

definition part :: "int \<Rightarrow> int \<Rightarrow> hist \<Rightarrow> bool" where
  "part a b t = (broken a t \<or> prefix (accepted b t) (got a t))"

definition carried :: "int \<Rightarrow> int \<Rightarrow> hist \<Rightarrow> bool" where
  "carried a b t = (part a b t \<and> (lossless a b t \<or> refused b t))"

lemma carried_append: "lossless a b t \<Longrightarrow> carried a b u \<Longrightarrow> carried a b (t @ u)"
  and lossless_append: "lossless a b t \<Longrightarrow> lossless a b u \<Longrightarrow> lossless a b (t @ u)"
  and part_append: "lossless a b t \<Longrightarrow> part a b u \<Longrightarrow> part a b (t @ u)"
  by (auto simp: lossless_def part_def carried_def)

lemma alone_other: "alone a b u \<Longrightarrow> a \<noteq> b \<Longrightarrow> lossless b a u \<and> part b a u \<and> carried b a u"
  by (auto simp: alone_def lossless_def part_def carried_def)

lemma lossless_carried: "lossless a b t \<Longrightarrow> carried a b t \<and> part a b t"
  by (auto simp: lossless_def part_def carried_def)

lemma recv_loop_stream:
  assumes "length (r_message r0) < 2 ^ 32" "r_recv_time r0 = None" "unat (r_last_char r0) \<le> length (r_message r0)"
  shows "hoare (\<lambda>h. \<exists>t. h = h1 @ t \<and> (\<forall>ev\<in>set t. \<exists>n er. ev = Recv fd n (Err er) \<and> \<not> hard er))
    (recv_loop n e fd None start r0)
    (\<lambda>r h. \<exists>t. h = h1 @ t \<and> (\<forall>ev\<in>set t. \<exists>n x. ev = Recv fd n x) \<and> length (r_message r) = length (r_message r0)
       \<and> unat (r_last_char r) \<le> length (r_message r)
       \<and> (broken fd t \<or> got fd t = take (unat (r_last_char r)) (r_message r)))
    (\<lambda>x h. x = Out_of_fuel \<and> (\<exists>t. h = h1 @ t \<and> (\<forall>ev\<in>set t. \<exists>n x. ev = Recv fd n x) \<and> got fd t = []))"
proof (induction n)
  case 0
  have "got fd t = []" if "\<forall>ev\<in>set t. \<exists>n er. ev = Recv fd n (Err er) \<and> \<not> hard er" for t
    using that by (induction t) auto
  then show ?case by (fastforce simp: hoare_def wp_simps)
next
  case (Suc n)
  have none: "got fd t = []" if "\<forall>ev\<in>set t. \<exists>n er. ev = Recv fd n (Err er) \<and> \<not> hard er" for t
    using that by (induction t) auto
  show ?case
  proof (rule hoareI)
    fix h assume "\<exists>t. h = h1 @ t \<and> (\<forall>ev\<in>set t. \<exists>n er. ev = Recv fd n (Err er) \<and> \<not> hard er)"
    then obtain t where h: "h = h1 @ t" and t: "\<forall>ev\<in>set t. \<exists>n er. ev = Recv fd n (Err er) \<and> \<not> hard er" by blast
    let ?n = "length (r_message r0)"
    show "wp (recv_loop (Suc n) e fd None start r0)
      (\<lambda>r h. \<exists>t. h = h1 @ t \<and> (\<forall>ev\<in>set t. \<exists>n x. ev = Recv fd n x) \<and> length (r_message r) = length (r_message r0)
       \<and> unat (r_last_char r) \<le> length (r_message r)
       \<and> (broken fd t \<or> got fd t = take (unat (r_last_char r)) (r_message r)))
      (\<lambda>x h. x = Out_of_fuel \<and> (\<exists>t. h = h1 @ t \<and> (\<forall>ev\<in>set t. \<exists>n x. ev = Recv fd n x) \<and> got fd t = [])) h"
    proof (cases "recv_of e h fd ?n")
      case (Ok d)
      have l: "length d \<le> ?n" by (rule recv_of_bound [OF Ok])
      then have u: "unat (word_of_nat (length d) :: u32) = length d"
        using assms(1) by (simp add: unsigned_of_nat take_bit_nat_eq_self)
      show ?thesis
      proof (cases d)
        case Nil
        then show ?thesis using Ok assms h t none [OF t]
          by (auto simp: os_wp intro!: exI [of _ "t @ [Recv fd ?n (Ok [])]"])
      next
        case (Cons a v)
        then show ?thesis using Ok assms h t none [OF t] l u [unfolded Cons]
          by (auto simp: os_wp recv_done_def Let_def overwrite_def intro!: exI [of _ "t @ [Recv fd ?n (Ok (a # v))]"])
      qed
    next
      case (Err er)
      show ?thesis
      proof (cases "er = EINTR")
        case True
        have "wp (recv_loop n e fd None start r0)
      (\<lambda>r h. \<exists>t. h = h1 @ t \<and> (\<forall>ev\<in>set t. \<exists>n x. ev = Recv fd n x) \<and> length (r_message r) = length (r_message r0)
       \<and> unat (r_last_char r) \<le> length (r_message r)
       \<and> (broken fd t \<or> got fd t = take (unat (r_last_char r)) (r_message r)))
      (\<lambda>x h. x = Out_of_fuel \<and> (\<exists>t. h = h1 @ t \<and> (\<forall>ev\<in>set t. \<exists>n x. ev = Recv fd n x) \<and> got fd t = []))
          (h1 @ t @ [Recv fd ?n (Err EINTR)])"
          by (rule hoareD [OF Suc.IH]) (use t in auto)
        then show ?thesis using Err True assms h by (simp add: os_wp)
      next
        case False
        then show ?thesis using Err assms h t none [OF t]
          by (auto simp: os_wp hard_def intro!: exI [of _ "t @ [Recv fd ?n (Err er)]"])
      qed
    qed
  qed
qed

text \<open>The events of a send: of its own descriptor only, and one that refuses when it fails.\<close>

definition sends_only :: "int \<Rightarrow> hist \<Rightarrow> bool" where
  "sends_only fd t = (\<forall>ev\<in>set t. (\<exists>d r. ev = Send fd d r) \<or> (\<exists>k. ev = Sleep_ms k))"

lemma sends_only_append [simp]: "sends_only fd (t @ u) \<longleftrightarrow> sends_only fd t \<and> sends_only fd u" "sends_only fd []"
  "sends_only fd (ev # u) \<longleftrightarrow> ((\<exists>d r. ev = Send fd d r) \<or> (\<exists>k. ev = Sleep_ms k)) \<and> sends_only fd u"
  by (auto simp: sends_only_def)

lemma send_loop_events:
  "hoare (\<lambda>h. \<exists>t. h = h1 @ t \<and> sends_only fd t) (send_loop n e fd s lc sp offset)
     (\<lambda>r h. \<exists>t. h = h1 @ t \<and> sends_only fd t \<and> (r = -1 \<longrightarrow> refused fd t) \<and> (r = 0 \<or> r = -1))
     (\<lambda>x h. \<exists>t. h = h1 @ t \<and> sends_only fd t)"
proof (induction n arbitrary: offset)
  case 0
  show ?case by (auto simp: hoare_def wp_simps)
next
  case (Suc n)
  show ?case
  proof (rule hoareI)
    fix h assume "\<exists>t. h = h1 @ t \<and> sends_only fd t"
    then obtain t where h: "h = h1 @ t" and t: "sends_only fd t" by blast
    have ih: "wp (send_loop n e fd s lc sp off)
     (\<lambda>r h. \<exists>t. h = h1 @ t \<and> sends_only fd t \<and> (r = -1 \<longrightarrow> refused fd t) \<and> (r = 0 \<or> r = -1))
     (\<lambda>x h. \<exists>t. h = h1 @ t \<and> sends_only fd t) (h1 @ t @ u)" if "sends_only fd u" for off u
      by (rule hoareD [OF Suc.IH]) (use t that in auto)
    let ?d = "take (chunk_size (lc - offset) sp) (drop offset (s @ [0]))"
    show "wp (send_loop (Suc n) e fd s lc sp offset)
     (\<lambda>r h. \<exists>t. h = h1 @ t \<and> sends_only fd t \<and> (r = -1 \<longrightarrow> refused fd t) \<and> (r = 0 \<or> r = -1))
     (\<lambda>x h. \<exists>t. h = h1 @ t \<and> sends_only fd t) h"
    proof (cases "send_of e h fd ?d")
      case (Ok k)
      then show ?thesis using h t ih [of "[Send fd ?d (Ok k)]"]
        by (auto simp: os_wp Let_def intro!: exI [of _ "t @ [Send fd ?d (Ok 0)]"])
    next
      case (Err er)
      then show ?thesis using h t ih [of "[Send fd ?d (Err er)]"] ih [of "[Send fd ?d (Err er), Sleep_ms 5]"]
        by (auto simp: os_wp Let_def hard_def intro!: exI [of _ "t @ [Send fd ?d (Err er)]"])
    qed
  qed
qed

lemma wp_conj: "wp m Q E h \<Longrightarrow> wp m Q' E' h \<Longrightarrow> wp m (\<lambda>x h. Q x h \<and> Q' x h) (\<lambda>x h. E x h \<and> E' x h) h"
  by (auto simp: wp_def split: prod.splits sum.splits)

lemma sends_only_streams:
  assumes "sends_only fd t"
  shows "got fd' t = [] \<and> \<not> broken fd' t" "fd' \<noteq> fd \<Longrightarrow> accepted fd' t = []"
  using assms by (induction t) (auto simp: piece_other)

lemma send_string_stream:
  assumes "unat lc \<le> length s"
  shows "wp (send_string fuel e fd s lc 0)
    (\<lambda>r h. \<exists>t. h = h1 @ t \<and> sends_only fd t \<and> (r = 0 \<and> accepted fd t = take (unat lc) s
       \<or> r = -1 \<and> refused fd t \<and> (\<exists>k. accepted fd t = take k (take (unat lc) s))))
    (\<lambda>x h. x = Out_of_fuel \<and> (\<exists>t. h = h1 @ t \<and> sends_only fd t \<and> (\<exists>k. accepted fd t = take k (take (unat lc) s)))) h1"
proof (cases "lc = 0")
  case True
  then show ?thesis by (auto simp: send_string_def wp_simps intro: exI [of _ "[]"])
next
  case False
  have d: "delivered (accepted fd h1) s 0 fd h1 \<and> interrupted fd h1 = interrupted fd h1" by (simp add: delivered_def)
  note w1 = hoareD [OF send_loop_hoare [OF assms, of 0 "accepted fd h1" fd "interrupted fd h1" fuel e 0] d, simplified]
  have w2: "wp (send_loop fuel e fd s (unat lc) 0 0)
     (\<lambda>r h. \<exists>t. h = h1 @ t \<and> sends_only fd t \<and> (r = -1 \<longrightarrow> refused fd t) \<and> (r = 0 \<or> r = -1))
     (\<lambda>x h. \<exists>t. h = h1 @ t \<and> sends_only fd t) h1"
    by (rule hoareD [OF send_loop_events]) (auto intro: exI [of _ "[]"])
  have p: "\<exists>j. take k s = take j (take (unat lc) s)" if "k \<le> unat lc" for k
    using that by (intro exI [of _ k]) simp
  show ?thesis using False
    by (simp add: send_string_def) (rule wp_mono [OF wp_conj [OF w1 w2]]; fastforce simp: delivered_def dest: p)
qed

lemma prefix_take_min: "prefix (take (min k n) xs) (take n xs)"
  by (metis take_is_prefix take_take)

lemma transfer_stream:
  assumes "a \<noteq> b" "length buffer < 2 ^ 32" "unat last_char \<le> length buffer"
  shows "wp (transfer fuel X False a b buffer last_char)
    (\<lambda>(f, buffer', last_char') h. \<exists>t. h = h1 @ t \<and> alone a b t \<and> carried a b t \<and> (\<not> f \<longrightarrow> lossless a b t)
       \<and> length buffer' = length buffer \<and> unat last_char' \<le> length buffer)
    (\<lambda>x h. x = Out_of_fuel \<and> (\<exists>t. h = h1 @ t \<and> alone a b t \<and> part a b t)) h1"
proof -
  let ?r0 = "\<lparr>r_ret = 0, r_message = buffer, r_last_char = last_char, r_recv_time = None\<rparr>"
  have only: "accepted fd t = []" "fd \<noteq> a \<Longrightarrow> got fd t = [] \<and> \<not> broken fd t"
    if "\<forall>ev\<in>set t. \<exists>n x. ev = Recv a n x" for t fd
    using that by (induction t) (auto simp: breaks_def got_piece_def split: sysres.splits)
  have rec: "alone a b t \<and> part a b t" if "\<forall>ev\<in>set t. \<exists>n x. ev = Recv a n x" for t
    using only [OF that] by (auto simp: alone_def part_def)
  have after: "wp (send_string fuel (px_os X) b (r_message r) (r_last_char r) 0)
    (\<lambda>s h. \<exists>t. h = h1 @ t \<and> alone a b t \<and> carried a b t \<and> (r_ret r \<noteq> -1 \<and> s \<noteq> -1 \<longrightarrow> lossless a b t)
       \<and> length (r_message r) = length buffer \<and> unat (r_last_char r) \<le> length buffer)
    (\<lambda>x h. x = Out_of_fuel \<and> (\<exists>t. h = h1 @ t \<and> alone a b t \<and> part a b t)) h"
    if r: "\<exists>t. h = h1 @ t \<and> (\<forall>ev\<in>set t. \<exists>n x. ev = Recv a n x) \<and> length (r_message r) = length buffer
       \<and> unat (r_last_char r) \<le> length (r_message r)
       \<and> (broken a t \<or> got a t = take (unat (r_last_char r)) (r_message r))" for r h
  proof -
    obtain t where h: "h = h1 @ t" and t: "\<forall>ev\<in>set t. \<exists>n x. ev = Recv a n x" and l: "length (r_message r) = length buffer"
       "unat (r_last_char r) \<le> length (r_message r)" and g: "broken a t \<or> got a t = take (unat (r_last_char r)) (r_message r)"
      using r by blast
    have al: "alone a b (t @ u)" if "sends_only b u" for u
      using only [OF t] sends_only_streams [OF that] by (auto simp: alone_def)
    have st: "part a b (t @ u) \<and> (accepted b u = take (unat (r_last_char r)) (r_message r) \<longrightarrow> lossless a b (t @ u))"
      if "sends_only b u" "accepted b u = take k (take (unat (r_last_char r)) (r_message r))" for u k
      using only(1) [OF t] sends_only_streams(1) [OF that(1), of a] that(2) g
      by (auto simp: part_def lossless_def prefix_take_min)
    show ?thesis unfolding h
    proof (rule wp_mono [OF send_string_stream [OF l(2)]])
      fix s h assume "\<exists>u. h = (h1 @ t) @ u \<and> sends_only b u \<and> (s = 0 \<and> accepted b u = take (unat (r_last_char r)) (r_message r)
       \<or> s = -1 \<and> refused b u \<and> (\<exists>k. accepted b u = take k (take (unat (r_last_char r)) (r_message r))))"
      then obtain u where u: "h = h1 @ (t @ u)" "sends_only b u" and c: "s = 0 \<and> accepted b u = take (unat (r_last_char r)) (r_message r)
       \<or> s = -1 \<and> refused b u \<and> (\<exists>k. accepted b u = take k (take (unat (r_last_char r)) (r_message r)))" by auto
      from c have "carried a b (t @ u) \<and> (s \<noteq> -1 \<longrightarrow> lossless a b (t @ u))"
      proof (elim disjE conjE exE)
        assume "s = 0" "accepted b u = take (unat (r_last_char r)) (r_message r)"
        then show ?thesis using st [OF u(2), of "unat (r_last_char r)"] by (simp add: carried_def)
      next
        fix k assume "s = -1" "refused b u" "accepted b u = take k (take (unat (r_last_char r)) (r_message r))"
        then show ?thesis using st [OF u(2), of k] by (simp add: carried_def)
      qed
      then show "\<exists>t. h = h1 @ t \<and> alone a b t \<and> carried a b t \<and> (r_ret r \<noteq> -1 \<and> s \<noteq> -1 \<longrightarrow> lossless a b t)
         \<and> length (r_message r) = length buffer \<and> unat (r_last_char r) \<le> length buffer"
        using al [OF u(2)] u(1) l by (intro exI [of _ "t @ u"]) auto
    next
      fix x h assume "x = Out_of_fuel \<and> (\<exists>u. h = (h1 @ t) @ u \<and> sends_only b u
         \<and> (\<exists>k. accepted b u = take k (take (unat (r_last_char r)) (r_message r))))"
      then show "x = Out_of_fuel \<and> (\<exists>t. h = h1 @ t \<and> alone a b t \<and> part a b t)"
        using al st by (metis append.assoc)
    qed
  qed
  show ?thesis
    unfolding transfer_def recv_string_def Let_def
    apply (simp add: wp_simps)
    apply (rule wp_use [OF recv_loop_stream [of ?r0 h1 a fuel "px_os X" 0]])
    subgoal using assms(2) by simp
    subgoal by simp
    subgoal using assms(3) by simp
    subgoal by (auto intro: exI [of _ "[]"])
    subgoal for r h by (simp add: wp_simps) (rule wp_mono [OF after [of h r]], auto simp: wp_basic)
    subgoal for x h using rec by blast
    done
qed

section \<open>Both directions\<close>

definition moved :: "int \<Rightarrow> int \<Rightarrow> nat \<Rightarrow> hist \<Rightarrow> bool \<times> bytes \<times> u32 \<Rightarrow> hist \<Rightarrow> bool" where
  "moved a b n h1 x h = (case x of (f, buffer', last_char') \<Rightarrow> \<exists>t. h = h1 @ t \<and> alone a b t \<and> carried a b t
     \<and> (\<not> f \<longrightarrow> lossless a b t) \<and> length buffer' = n \<and> unat last_char' \<le> n)"

lemma maybe_transfer:
  assumes "a \<noteq> b" "length buffer < 2 ^ 32" "unat last_char \<le> length buffer"
  shows "wp (if g then transfer fuel X False a b buffer last_char else ret (False, buffer, last_char))
    (moved a b (length buffer) h1) (\<lambda>x h. x = Out_of_fuel \<and> (\<exists>t. h = h1 @ t \<and> alone a b t \<and> part a b t)) h1"
proof (cases g)
  case True
  then show ?thesis using wp_mono [OF transfer_stream [OF assms], where Q = "moved a b (length buffer) h1"]
    by (auto simp: moved_def)
next
  case False
  have "alone a b [] \<and> carried a b [] \<and> lossless a b []"
    by (simp add: alone_def carried_def lossless_def part_def)
  then show ?thesis using False assms(3) by (auto simp: wp_simps moved_def intro!: exI [of _ "[]"])
qed

text \<open>Both directions of a part of the history.\<close>

definition both :: "(int \<Rightarrow> int \<Rightarrow> hist \<Rightarrow> bool) \<Rightarrow> int \<Rightarrow> int \<Rightarrow> hist \<Rightarrow> bool" where
  "both P c s t = (P c s t \<and> P s c t)"

lemma both_poll: "both lossless c s t \<Longrightarrow> both lossless c s (t @ [Poll fds tm p])"
  by (simp add: both_def lossless_def)

lemma both_lossless: "both lossless c s t \<Longrightarrow> both carried c s t \<and> both part c s t"
  by (auto simp: both_def dest: lossless_carried)

lemma both_step:
  assumes "c \<noteq> s" "both lossless c s t" "alone c s u" "carried c s u" "alone s c v" "carried s c v"
  shows "both carried c s (t @ u @ v)"
    "lossless c s u \<Longrightarrow> lossless s c v \<Longrightarrow> both lossless c s (t @ u @ v)"
proof -
  note o1 = alone_other [OF assms(3,1)] and o2 = alone_other [OF assms(5) assms(1) [symmetric]]
  have v: "accepted s v = []" "got c v = []" "\<not> broken c v" and u: "accepted c u = []" "got s u = []" "\<not> broken s u"
    using assms(1,3,5) by (auto simp: alone_def)
  show "both carried c s (t @ u @ v)"
    using assms(2,4,6) u v by (auto simp: both_def carried_def lossless_def part_def)
  show "lossless c s u \<Longrightarrow> lossless s c v \<Longrightarrow> both lossless c s (t @ u @ v)"
    using assms(2) u v by (auto simp: both_def lossless_def)
qed

lemma relay_streams:
  assumes "c \<noteq> s"
  shows "length buffer < 2 ^ 32 \<Longrightarrow> unat last_char \<le> length buffer \<Longrightarrow>
    hoare (\<lambda>h. \<exists>t. h = h0 @ t \<and> both lossless c s t) (relay n fuel X True c s buffer last_char)
     (\<lambda>_ h. \<exists>t. h = h0 @ t \<and> both carried c s t) (\<lambda>x h. x = Out_of_fuel \<and> (\<exists>t. h = h0 @ t \<and> both part c s t))"
proof (induction n arbitrary: buffer last_char)
  case 0
  then show ?case by (auto simp: hoare_def wp_simps dest: both_lossless)
next
  case (Suc n)
  let ?Q = "\<lambda>_ :: unit. \<lambda>h. \<exists>t. h = h0 @ t \<and> both carried c s t"
  let ?E = "\<lambda>x h. x = Out_of_fuel \<and> (\<exists>t. h = h0 @ t \<and> both part c s t)"
  show ?case
  proof (rule hoareI)
    fix h assume "\<exists>t. h = h0 @ t \<and> both lossless c s t"
    then obtain t where h: "h = h0 @ t" and t: "both lossless c s t" by blast
    define p where "p = os_poll (px_os X) h [c, s, px_pipe X] (-1)"
    let ?t = "t @ [Poll [c, s, px_pipe X] (-1) p]"
    have tp: "both lossless c s ?t" by (rule both_poll [OF t])
    have stopped: "?Q () h" using h both_lossless [OF t] by blast
    have polled: "?Q () (h0 @ ?t)" using both_lossless [OF tp] by blast
    have round: "wp (bnd (if g1 then transfer fuel X False c s buffer last_char else ret (False, buffer, last_char))
         (\<lambda>(failed1, buffer, last_char).
           bnd (if g2 then transfer fuel X False s c buffer last_char else ret (False, buffer, last_char))
             (\<lambda>(failed2, buffer, last_char). if failed1 \<or> failed2 then ret ()
                else relay n fuel X True c s buffer last_char))) ?Q ?E (h0 @ ?t)" for g1 g2
      unfolding wp_bnd
    proof (rule wp_mono [OF maybe_transfer [OF assms Suc.prems]])
      fix x h' assume "moved c s (length buffer) (h0 @ ?t) x h'"
      then obtain f1 b1 l1 u where x: "x = (f1, b1, l1)" and u: "h' = h0 @ ?t @ u" "alone c s u" "carried c s u" "\<not> f1 \<longrightarrow> lossless c s u"
         and l: "length b1 = length buffer" "unat l1 \<le> length buffer" by (auto simp: moved_def)
      show "wp (case x of (failed1, buffer, last_char) \<Rightarrow>
           bnd (if g2 then transfer fuel X False s c buffer last_char else ret (False, buffer, last_char))
             (\<lambda>(failed2, buffer, last_char). if failed1 \<or> failed2 then ret ()
                else relay n fuel X True c s buffer last_char)) ?Q ?E h'"
        unfolding x prod.case wp_bnd
      proof (rule wp_mono [OF maybe_transfer [OF assms [symmetric]]])
        show "length b1 < 2 ^ 32" "unat l1 \<le> length b1" using l Suc.prems by simp_all
      next
        fix y h'' assume "moved s c (length b1) h' y h''"
        then obtain f2 b2 l2 v where y: "y = (f2, b2, l2)" and v: "h'' = h' @ v" "alone s c v" "carried s c v" "\<not> f2 \<longrightarrow> lossless s c v"
           and l2: "length b2 = length buffer" "unat l2 \<le> length buffer" using l by (auto simp: moved_def)
        have h'': "h'' = h0 @ (?t @ u @ v)" using u(1) v(1) by simp
        note st = both_step [OF assms tp u(2,3) v(2,3)]
        show "wp (case y of (failed2, buffer, last_char) \<Rightarrow> if f1 \<or> failed2 then ret ()
                else relay n fuel X True c s buffer last_char) ?Q ?E h''"
        proof (cases "f1 \<or> f2")
          case True
          then show ?thesis using st(1) h'' by (auto simp: y wp_simps)
        next
          case False
          then have "both lossless c s (?t @ u @ v)" using st(2) u(4) v(4) by simp
          then have "\<exists>t. h'' = h0 @ t \<and> both lossless c s t" using h'' by blast
          then have "wp (relay n fuel X True c s b2 l2) ?Q ?E h''"
            using hoareD [OF Suc.IH] l2 Suc.prems(1) by simp
          then show ?thesis using False by (simp add: y)
        qed
      next
        fix x h'' assume "x = Out_of_fuel \<and> (\<exists>v. h'' = h' @ v \<and> alone s c v \<and> part s c v)"
        then obtain v where v: "x = Out_of_fuel" "h'' = h' @ v" "alone s c v" "part s c v" by blast
        have "both part c s (?t @ u @ v)"
          using tp u(2,3) v(3,4) assms by (auto simp: both_def part_def lossless_def alone_def carried_def)
        then show "?E x h''" using v u(1) by auto
      qed
    next
      fix x h' assume "x = Out_of_fuel \<and> (\<exists>u. h' = (h0 @ ?t) @ u \<and> alone c s u \<and> part c s u)"
      then obtain u where u: "x = Out_of_fuel" "h' = h0 @ ?t @ u" "alone c s u" "part c s u" by auto
      have "both part c s (?t @ u)"
        using tp u(3,4) assms by (auto simp: both_def part_def lossless_def alone_def)
      then show "?E x h'" using u(1,2) by auto
    qed
    have more: "wp (relay n fuel X True c s buffer last_char) ?Q ?E (h0 @ ?t)"
      by (rule hoareD [OF Suc.IH [OF Suc.prems]]) (use tp in blast)
    have wa: "wp (bnd (ask g) f) Q E h = wp (f (g h)) Q E h" for g :: "hist \<Rightarrow> bool" and f :: "bool \<Rightarrow> unit io" and Q E
      by (simp add: wp_simps)
    have wpo: "wp (bnd (poll (px_os X) [c, s, px_pipe X] (-1)) f) Q E h = wp (f p) Q E (h0 @ ?t)"
      for f :: "pollres \<Rightarrow> unit io" and Q E by (simp add: wp_simps poll_def p_def h)
    show "wp (relay (Suc n) fuel X True c s buffer last_char) ?Q ?E h"
    proof (cases "px_stop X h")
      case True
      then show ?thesis using stopped by (simp add: wa wp_basic)
    next
      case False
      then show ?thesis
        using more polled round [of "snd (revents rs 0)" "snd (revents rs 1)" for rs]
        by (cases p) (simp_all only: relay.simps wa wpo if_False pollres.case wp_choice wp_basic not_True_eq_False if_True if_cancel simp_thms split: if_split)
    qed
  qed
qed

text \<open>C3: The relay of a CONNECT or transparent TLS client is faithful in both directions, for every system,
  every stop and every cutting of the streams: as long as no receive of a side breaks, the other side gets a
  prefix of what it sent, no byte twice, none out of order and none of the other side; and when the relay
  ends, it got all of it, unless a send to it was refused. The relay ends without an exception.\<close>

theorem relay_faithful:
  assumes "client_socket \<noteq> server_socket" "length buffer < 2 ^ 32" "unat last_char \<le> length buffer"
    "relay n fuel X True client_socket server_socket buffer last_char h0 = (res, h)"
  shows "\<exists>t. h = h0 @ t \<and> (res = Inr () \<and> both carried client_socket server_socket t
     \<or> res = Inl Out_of_fuel \<and> both part client_socket server_socket t)"
proof -
  have "\<exists>t. h0 = h0 @ t \<and> both lossless client_socket server_socket t"
    by (intro exI [of _ "[]"]) (simp add: both_def lossless_def)
  from hoareD [OF relay_streams [OF assms(1-3), of h0 n fuel X] this] show ?thesis
    using assms(4) by (cases res) (auto simp: wp_def)
qed

definition echo_proxy :: proxy where
  "echo_proxy = \<lparr>px_os = willing_os\<lparr>os_recv := \<lambda>h fd n. if fd = 7 then Ok [71, 69] else Ok [72],
       os_poll := \<lambda>h fds t. Poll_ready [(False, True), (False, True), (False, False)]\<rparr>,
     px_net = \<lparr>getaddrinfo = \<lambda>h s. None, https_get = \<lambda>h s a p. None, x509_store = True\<rparr>,
     px_settings = default_Settings, px_profile = default_Profile, px_pipe = 5, px_stop = \<lambda>h. 7 < length h,
     px_original_dst = \<lambda>h fd. None, px_sniff_ok = True, px_sniff_obs = [], px_stack = 0\<rparr>"

lemma echo_run: "relay 3 3 echo_proxy True 7 8 [0, 0, 0, 0] 0 []
    = (Inr (), snd (relay 3 3 echo_proxy True 7 8 [0, 0, 0, 0] 0 []))"
  "accepted 8 (snd (relay 3 3 echo_proxy True 7 8 [0, 0, 0, 0] 0 [])) = [71, 69, 71, 69]"
  by code_simp+

lemma relay_faithful_witness:
  "\<exists>t. snd (relay 3 3 echo_proxy True 7 8 [0, 0, 0, 0] 0 []) = [] @ t \<and> ((Inr () :: stop + unit) = Inr () \<and> both carried 7 8 t
     \<or> (Inr () :: stop + unit) = Inl Out_of_fuel \<and> both part 7 8 t)"
  by (rule relay_faithful [OF _ _ _ echo_run(1)]) simp_all

end
