(* ===== verification/Accept.thy ===== *)
theory Accept
  imports Main
begin

text \<open>
  \<open>accept_client_cycle\<close> of \<open>dpitunnel-cli.cpp\<close> and its client threads, as a transition system: the thread
  that accepts starts a thread for each client and keeps the thread object in the map \<open>Threads\<close>; a client
  thread waits for its promise, serves the client and then, under the mutex and only while the stop flag
  is clear, detaches itself and erases its entry. At the end the accepting thread walks over the map and joins
  each thread, without the mutex. A client thread that erases its entry during that walk is a data race, whose
  behaviour C++ leaves undefined: the state \<open>Raced\<close>.
\<close>

text \<open>\<open>Holding\<close>: the mutex is held and the stop flag was seen clear.\<close>

datatype phase = Waiting | Serving | Holding | Ended

text \<open>\<open>Joining d\<close>: the threads of \<open>d\<close> are joined.\<close>

datatype acc_pc = Polling | Created nat | Inserted nat | Joining "nat set" | Finished | Raced

fun joining :: "acc_pc \<Rightarrow> bool" where
  "joining (Joining d) = True"
| "joining _ = False"

record acc =
  a_stop :: bool
  a_pc :: acc_pc
  a_phase :: "nat \<Rightarrow> phase option"
  a_map :: "nat set"
  a_ready :: "nat set"
  a_next :: nat

definition acc_start :: acc where
  "acc_start = \<lparr>a_stop = False, a_pc = Polling, a_phase = Map.empty, a_map = {}, a_ready = {}, a_next = 0\<rparr>"

definition lock_free :: "acc \<Rightarrow> bool" where
  "lock_free s = (\<forall>t. a_phase s t \<noteq> Some Holding)"

inductive acc_step :: "acc \<Rightarrow> acc \<Rightarrow> bool" where
  create: "a_pc s = Polling \<Longrightarrow>
     acc_step s (s\<lparr>a_pc := Created (a_next s), a_phase := (a_phase s)(a_next s \<mapsto> Waiting), a_next := Suc (a_next s)\<rparr>)"
| insert_entry: "a_pc s = Created t \<Longrightarrow> lock_free s \<Longrightarrow> acc_step s (s\<lparr>a_pc := Inserted t, a_map := insert t (a_map s)\<rparr>)"
| set_value: "a_pc s = Inserted t \<Longrightarrow> acc_step s (s\<lparr>a_pc := Polling, a_ready := insert t (a_ready s)\<rparr>)"
| begin_serve: "a_phase s t = Some Waiting \<Longrightarrow> t \<in> a_ready s \<Longrightarrow> acc_step s (s\<lparr>a_phase := (a_phase s)(t \<mapsto> Serving)\<rparr>)"
| end_stopped: "a_phase s t = Some Serving \<Longrightarrow> lock_free s \<Longrightarrow> a_stop s \<Longrightarrow>
     acc_step s (s\<lparr>a_phase := (a_phase s)(t \<mapsto> Ended)\<rparr>)"
| end_running: "a_phase s t = Some Serving \<Longrightarrow> lock_free s \<Longrightarrow> \<not> a_stop s \<Longrightarrow>
     acc_step s (s\<lparr>a_phase := (a_phase s)(t \<mapsto> Holding)\<rparr>)"
| erase_entry: "a_phase s t = Some Holding \<Longrightarrow> \<not> joining (a_pc s) \<Longrightarrow>
     acc_step s (s\<lparr>a_phase := (a_phase s)(t \<mapsto> Ended), a_map := a_map s - {t}\<rparr>)"
| erase_walked: "a_phase s t = Some Holding \<Longrightarrow> joining (a_pc s) \<Longrightarrow>
     acc_step s (s\<lparr>a_phase := (a_phase s)(t \<mapsto> Ended), a_map := a_map s - {t}, a_pc := Raced\<rparr>)"
| signal: "acc_step s (s\<lparr>a_stop := True\<rparr>)"
| leave_stopped: "a_pc s = Polling \<Longrightarrow> a_stop s \<Longrightarrow> acc_step s (s\<lparr>a_pc := Joining {}\<rparr>)"
| leave_broken: "a_pc s = Polling \<Longrightarrow> acc_step s (s\<lparr>a_pc := Joining {}\<rparr>)"
| join_one: "a_pc s = Joining d \<Longrightarrow> t \<in> a_map s - d \<Longrightarrow> a_phase s t = Some Ended \<Longrightarrow>
     acc_step s (s\<lparr>a_pc := Joining (insert t d)\<rparr>)"
| joined: "a_pc s = Joining d \<Longrightarrow> a_map s \<subseteq> d \<Longrightarrow> acc_step s (s\<lparr>a_pc := Finished\<rparr>)"

inductive_simps acc_step_simps: "acc_step s s'"

definition acc_reachable :: "acc \<Rightarrow> bool" where
  "acc_reachable s = acc_step\<^sup>*\<^sup>* acc_start s"

text \<open>What every reachable state satisfies, for each thread: its number is fresh, it is in the map from its
  insertion until it ends, it serves only when it was released, and a finished accepting thread has left no
  thread that serves; and at most one thread holds the mutex.\<close>

definition thread_ok :: "acc \<Rightarrow> nat \<Rightarrow> bool" where
  "thread_ok s t = ((a_phase s t \<noteq> None \<longrightarrow> t < a_next s)
     \<and> (a_pc s = Finished \<longrightarrow> a_phase s t \<in> {None, Some Ended})
     \<and> (\<forall>d. a_pc s = Joining d \<longrightarrow> t \<in> d \<longrightarrow> a_phase s t = Some Ended) \<and> (case a_phase s t of
          None \<Rightarrow> t \<notin> a_map s \<and> t \<notin> a_ready s \<and> a_pc s \<notin> {Created t, Inserted t}
        | Some Waiting \<Rightarrow>
            if t \<in> a_ready s then t \<in> a_map s \<and> a_pc s \<notin> {Created t, Inserted t}
            else a_pc s = Created t \<and> t \<notin> a_map s \<or> a_pc s = Inserted t \<and> t \<in> a_map s
        | Some Ended \<Rightarrow> t \<in> a_ready s \<and> a_pc s \<notin> {Created t, Inserted t}
        | Some _ \<Rightarrow> t \<in> a_ready s \<and> t \<in> a_map s \<and> a_pc s \<notin> {Created t, Inserted t}))"

definition acc_inv :: "acc \<Rightarrow> bool" where
  "acc_inv s = ((\<forall>t. thread_ok s t) \<and> (\<forall>t u. a_phase s t = Some Holding \<longrightarrow> a_phase s u = Some Holding \<longrightarrow> t = u))"

lemma inv_start: "acc_inv acc_start"
  by (simp add: acc_inv_def acc_start_def thread_ok_def)

lemma thread_ok_step: "acc_step s s' \<Longrightarrow> (\<forall>t. thread_ok s t) \<Longrightarrow> thread_ok s' u"
proof (induction rule: acc_step.induct)
  case (create s)
  have "a_phase s (a_next s) = None" using create(2) by (auto simp: thread_ok_def)
  then show ?case using create(1) create(2) [rule_format, of u]
    by (cases "u = a_next s") (auto simp: thread_ok_def split: option.splits phase.splits if_splits)
next
  case (insert_entry s t)
  show ?case using insert_entry(1,2) insert_entry(3) [rule_format, of u]
    by (cases "u = t") (auto simp: thread_ok_def split: option.splits phase.splits if_splits)
next
  case (set_value s t)
  show ?case using set_value(1) set_value(2) [rule_format, of u]
    by (cases "u = t") (auto simp: thread_ok_def split: option.splits phase.splits if_splits)
next
  case (begin_serve s t)
  show ?case using begin_serve(1,2) begin_serve(3) [rule_format, of u]
    by (cases "u = t") (auto simp: thread_ok_def split: option.splits phase.splits if_splits)
next
  case (end_stopped s t)
  show ?case using end_stopped(1,2,3) end_stopped(4) [rule_format, of u]
    by (cases "u = t") (auto simp: thread_ok_def split: option.splits phase.splits if_splits)
next
  case (end_running s t)
  show ?case using end_running(1,2,3) end_running(4) [rule_format, of u]
    by (cases "u = t") (auto simp: thread_ok_def split: option.splits phase.splits if_splits)
next
  case (erase_entry s t)
  show ?case using erase_entry(1,2) erase_entry(3) [rule_format, of u]
    by (cases "u = t") (auto simp: thread_ok_def split: option.splits phase.splits if_splits)
next
  case (erase_walked s t)
  show ?case using erase_walked(1,2) erase_walked(3) [rule_format, of u]
    by (cases "u = t") (auto simp: thread_ok_def split: option.splits phase.splits if_splits)
next
  case (signal s)
  show ?case using signal [rule_format, of u] by (auto simp: thread_ok_def split: option.splits phase.splits if_splits)
next
  case (leave_stopped s)
  show ?case using leave_stopped(1) leave_stopped(3) [rule_format, of u]
    by (auto simp: thread_ok_def split: option.splits phase.splits if_splits)
next
  case (leave_broken s)
  show ?case using leave_broken(1) leave_broken(2) [rule_format, of u]
    by (auto simp: thread_ok_def split: option.splits phase.splits if_splits)
next
  case (join_one s d t)
  show ?case using join_one(1,2,3) join_one(4) [rule_format, of u]
    by (auto simp: thread_ok_def split: option.splits phase.splits if_splits)
next
  case (joined s d)
  show ?case using joined(1,2) joined(3) [rule_format, of u]
    by (auto simp: thread_ok_def split: option.splits phase.splits if_splits)
qed

lemma one_holder_step: "acc_step s s' \<Longrightarrow> (\<forall>t u. a_phase s t = Some Holding \<longrightarrow> a_phase s u = Some Holding \<longrightarrow> t = u) \<Longrightarrow>
    (\<forall>t u. a_phase s' t = Some Holding \<longrightarrow> a_phase s' u = Some Holding \<longrightarrow> t = u)"
  by (induction rule: acc_step.induct) (simp_all add: lock_free_def)

lemma inv_step: "acc_step s s' \<Longrightarrow> acc_inv s \<Longrightarrow> acc_inv s'"
  unfolding acc_inv_def using thread_ok_step one_holder_step by blast

lemma inv_steps: "acc_step\<^sup>*\<^sup>* s s' \<Longrightarrow> acc_inv s \<Longrightarrow> acc_inv s'"
  by (induction rule: rtranclp_induct) (blast intro: inv_step)+

lemma reachable_inv: "acc_reachable s \<Longrightarrow> acc_inv s"
  unfolding acc_reachable_def using inv_steps inv_start by blast

text \<open>C16: When the accepting thread has finished, on a signal or on an error, in every interleaving with the
  client threads, no client is being served any more: each client thread has ended; and at every moment before, a
  thread that waits or serves has its entry in the map or is just being inserted, so no thread object is destroyed
  while its thread runs; and at most one thread holds the mutex.\<close>

theorem accept_joins_all:
  assumes "acc_reachable s" "a_phase s t = Some p" "p \<noteq> Ended"
  shows "a_pc s \<noteq> Finished \<and> (t \<in> a_map s \<or> a_pc s = Created t)
    \<and> (\<exists>\<^sub>\<le>\<^sub>1u. a_phase s u = Some Holding)"
proof -
  have i: "thread_ok s t" "\<forall>t u. a_phase s t = Some Holding \<longrightarrow> a_phase s u = Some Holding \<longrightarrow> t = u"
    using reachable_inv [OF assms(1)] by (auto simp: acc_inv_def)
  then show ?thesis using assms(2,3) unfolding Uniq_def
    by (cases p) (auto simp: thread_ok_def split: if_splits)
qed

definition one_client :: "bool \<Rightarrow> acc_pc \<Rightarrow> phase \<Rightarrow> acc" where
  "one_client stop pc p = \<lparr>a_stop = stop, a_pc = pc, a_phase = Map.empty(0 \<mapsto> p), a_map = {0}, a_ready = {0}, a_next = 1\<rparr>"

lemma one_client_serving: "acc_reachable (one_client False Polling Serving)"
proof -
  have "acc_step acc_start (acc_start\<lparr>a_pc := Created 0, a_phase := Map.empty(0 \<mapsto> Waiting), a_next := 1\<rparr>)" (is "acc_step _ ?a")
    using acc_step.create [of acc_start] by (simp add: acc_start_def)
  moreover have "acc_step ?a (?a\<lparr>a_pc := Inserted 0, a_map := {0}\<rparr>)" (is "acc_step _ ?b")
    using acc_step.insert_entry [of ?a 0] by (simp add: acc_start_def lock_free_def)
  moreover have "acc_step ?b (?b\<lparr>a_pc := Polling, a_ready := {0}\<rparr>)" (is "acc_step _ ?c")
    using acc_step.set_value [of ?b 0] by (simp add: acc_start_def)
  moreover have "acc_step ?c (one_client False Polling Serving)"
    using acc_step.begin_serve [of ?c 0] by (simp add: acc_start_def one_client_def)
  ultimately show ?thesis unfolding acc_reachable_def by (meson rtranclp.rtrancl_into_rtrancl rtranclp.rtrancl_refl)
qed

theorem accept_joins_all_witness:
  "a_pc (one_client False Polling Serving) \<noteq> Finished \<and> 0 \<in> a_map (one_client False Polling Serving)"
  using accept_joins_all [OF one_client_serving, of 0 Serving] by (simp add: one_client_def)

text \<open>C34: The accepting thread walks over the map without the mutex, so a shutdown can be a data race: a client
  thread sees the stop flag clear under the mutex, the signal comes and the accepting thread leaves its loop
  because of it, and then the client thread erases its entry from the map that is being walked.\<close>

theorem accept_races:
  "\<exists>s. acc_reachable s \<and> \<not> a_stop s \<and> a_phase s 0 = Some Holding
     \<and> acc_step s (s\<lparr>a_stop := True\<rparr>)
     \<and> acc_step (s\<lparr>a_stop := True\<rparr>) (s\<lparr>a_stop := True, a_pc := Joining {}\<rparr>)
     \<and> acc_step (s\<lparr>a_stop := True, a_pc := Joining {}\<rparr>)
          (s\<lparr>a_stop := True, a_phase := (a_phase s)(0 \<mapsto> Ended), a_map := a_map s - {0}, a_pc := Raced\<rparr>)"
proof (intro exI conjI)
  let ?s = "one_client False Polling Holding"
  have "acc_step (one_client False Polling Serving) ?s"
    using acc_step.end_running [of "one_client False Polling Serving" 0] by (simp add: one_client_def lock_free_def)
  then show "acc_reachable ?s" using one_client_serving unfolding acc_reachable_def by (rule rtranclp.rtrancl_into_rtrancl [rotated])
  show "acc_step ?s (?s\<lparr>a_stop := True\<rparr>)" by (rule acc_step.signal)
  show "acc_step (?s\<lparr>a_stop := True\<rparr>) (?s\<lparr>a_stop := True, a_pc := Joining {}\<rparr>)"
    using acc_step.leave_stopped [of "?s\<lparr>a_stop := True\<rparr>"] by (simp add: one_client_def)
  show "acc_step (?s\<lparr>a_stop := True, a_pc := Joining {}\<rparr>)
      (?s\<lparr>a_stop := True, a_phase := (a_phase ?s)(0 \<mapsto> Ended), a_map := a_map ?s - {0}, a_pc := Raced\<rparr>)"
    using acc_step.erase_walked [of "?s\<lparr>a_stop := True, a_pc := Joining {}\<rparr>" 0] by (simp add: one_client_def)
qed (simp_all add: one_client_def)

text \<open>Shutdown from the loop: the steps that are left for a thread.\<close>

fun weight :: "phase option \<Rightarrow> nat" where
  "weight (Some Waiting) = 2"
| "weight (Some Serving) = 1"
| "weight (Some Holding) = 1"
| "weight _ = 0"

definition work :: "acc \<Rightarrow> nat" where
  "work s = (\<Sum>t<a_next s. weight (a_phase s t))"

lemma weight_zero: "weight p = 0 \<longleftrightarrow> p = None \<or> p = Some Ended"
  by (cases p rule: weight.cases) auto

lemma work_less:
  assumes "t < a_next s" "weight (Some p) < weight (a_phase s t)" "a_next s' = a_next s" "a_phase s' = (a_phase s)(t \<mapsto> p)"
  shows "work s' < work s"
  unfolding work_def assms(3,4)
proof (rule sum_strict_mono_ex1)
  show "\<forall>u\<in>{..<a_next s}. weight (((a_phase s)(t \<mapsto> p)) u) \<le> weight (a_phase s u)" using assms(2) by simp
  show "\<exists>u\<in>{..<a_next s}. weight (((a_phase s)(t \<mapsto> p)) u) < weight (a_phase s u)"
  proof (rule bexI)
    show "weight (((a_phase s)(t \<mapsto> p)) t) < weight (a_phase s t)" unfolding fun_upd_same by (rule assms(2))
    show "t \<in> {..<a_next s}" using assms(1) by (rule lessThan_iff [THEN iffD2])
  qed
qed simp

definition stopping :: "acc \<Rightarrow> bool" where
  "stopping s = (acc_inv s \<and> a_stop s \<and> a_pc s = Polling)"

lemma stopping_works:
  assumes s: "stopping s" and w: "a_phase s t \<notin> {None, Some Ended}"
  shows "\<exists>s'. acc_step s s' \<and> stopping s' \<and> work s' < work s"
proof -
  have i: "acc_inv s" and st: "a_stop s" and pc: "a_pc s = Polling" using s by (auto simp: stopping_def)
  have ok: "thread_ok s u" for u using i by (simp add: acc_inv_def)
  have step: ?thesis if "acc_step s s'" "a_next s' = a_next s" "a_stop s'" "a_pc s' = Polling" "u < a_next s"
      "weight (Some p) < weight (a_phase s u)" "a_phase s' = (a_phase s)(u \<mapsto> p)" for s' u p
    using that inv_step [OF that(1) i] work_less [OF that(5,6,2,7)] by (auto simp: stopping_def)
  have old: "u < a_next s" if "a_phase s u = Some p" for u p using ok [of u] that by (simp add: thread_ok_def)
  show ?thesis
  proof (cases "lock_free s")
    case False
    then obtain u where u: "a_phase s u = Some Holding" by (auto simp: lock_free_def)
    show ?thesis by (rule step [OF acc_step.erase_entry [OF u], of u Ended]) (simp_all add: pc st u old [OF u])
  next
    case free: True
    then consider "a_phase s t = Some Waiting" | "a_phase s t = Some Serving"
      using w by (cases "a_phase s t" rule: weight.cases) (auto simp: lock_free_def)
    then show ?thesis
    proof cases
      case 1
      then have "t \<in> a_ready s" using ok [of t] pc by (auto simp: thread_ok_def split: if_splits)
      then show ?thesis by (intro step [OF acc_step.begin_serve [OF 1], of t Serving]) (simp_all add: pc st 1 old [OF 1])
    next
      case 2
      show ?thesis by (rule step [OF acc_step.end_stopped [OF 2 free st], of t Ended]) (simp_all add: pc st 2 old [OF 2])
    qed
  qed
qed

lemma stopping_drains:
  "stopping s \<Longrightarrow> \<exists>s'. acc_step\<^sup>*\<^sup>* s s' \<and> stopping s' \<and> (\<forall>t. a_phase s' t \<in> {None, Some Ended})"
proof (induction "work s" arbitrary: s rule: less_induct)
  case less
  show ?case
  proof (cases "\<forall>t. a_phase s t \<in> {None, Some Ended}")
    case False
    then obtain t where "a_phase s t \<notin> {None, Some Ended}" by blast
    then obtain s' where "acc_step s s'" "stopping s'" "work s' < work s" using stopping_works [OF less.prems] by blast
    then show ?thesis using less.hyps [of s'] by (meson converse_rtranclp_into_rtranclp)
  qed (use less.prems in blast)
qed

lemma joins_each:
  assumes "finite d" "d \<subseteq> a_map s" "\<forall>t\<in>a_map s. a_phase s t = Some Ended" "a_pc s = Joining {}"
  shows "acc_step\<^sup>*\<^sup>* s (s\<lparr>a_pc := Joining d\<rparr>)"
  using assms
proof (induction d rule: finite_induct)
  case empty
  then have "s\<lparr>a_pc := Joining {}\<rparr> = s" by simp
  then show ?case by simp
next
  case (insert t d)
  have "acc_step (s\<lparr>a_pc := Joining d\<rparr>) (s\<lparr>a_pc := Joining (insert t d)\<rparr>)"
    using acc_step.join_one [of "s\<lparr>a_pc := Joining d\<rparr>" d t] insert by simp
  then show ?case using insert by (auto intro: rtranclp.rtrancl_into_rtrancl)
qed

lemma mapped_known: "thread_ok s t \<Longrightarrow> t \<in> a_map s \<Longrightarrow> a_phase s t \<noteq> None \<and> t < a_next s"
  by (cases "a_phase s t") (simp_all add: thread_ok_def)

lemma map_finite: "acc_inv s \<Longrightarrow> finite (a_map s)"
proof (rule finite_subset [of _ "{..<a_next s}"])
  assume "acc_inv s"
  then show "a_map s \<subseteq> {..<a_next s}" using mapped_known by (auto simp: acc_inv_def)
qed simp

lemma stopping_finishes:
  assumes "stopping s"
  shows "\<exists>s'. acc_step\<^sup>*\<^sup>* s s' \<and> a_pc s' = Finished"
proof -
  obtain e where e: "acc_step\<^sup>*\<^sup>* s e" "stopping e" "\<forall>t. a_phase e t \<in> {None, Some Ended}"
    using stopping_drains [OF assms] by blast
  let ?j = "e\<lparr>a_pc := Joining {}\<rparr>"
  have "a_phase e t \<noteq> None" if "t \<in> a_map e" for t
    using e(2) that mapped_known by (auto simp: stopping_def acc_inv_def)
  then have "\<forall>t\<in>a_map e. a_phase e t = Some Ended" using e(3) by blast
  then have "\<forall>t\<in>a_map ?j. a_phase ?j t = Some Ended" by simp
  moreover have "finite (a_map ?j)" using e(2) map_finite by (simp add: stopping_def)
  ultimately have "acc_step\<^sup>*\<^sup>* ?j (?j\<lparr>a_pc := Joining (a_map e)\<rparr>)" by (intro joins_each) simp_all
  moreover have "acc_step e ?j" using e(2) acc_step.leave_stopped by (simp add: stopping_def)
  moreover have "acc_step (?j\<lparr>a_pc := Joining (a_map e)\<rparr>) (e\<lparr>a_pc := Finished\<rparr>)"
    using acc_step.joined [of "?j\<lparr>a_pc := Joining (a_map e)\<rparr>"] by simp
  ultimately have "acc_step\<^sup>*\<^sup>* s (e\<lparr>a_pc := Finished\<rparr>)" using e(1)
    by (meson rtranclp.rtrancl_into_rtrancl rtranclp_trans converse_rtranclp_into_rtranclp)
  then show ?thesis by (intro exI [of _ "e\<lparr>a_pc := Finished\<rparr>"]) simp
qed

text \<open>Whatever the accepting thread is doing in its loop, it can come back to the head of it, and then the signal comes.\<close>

lemma frees_lock:
  assumes "acc_inv s" "\<not> joining (a_pc s)"
  shows "\<exists>s'. acc_step\<^sup>*\<^sup>* s s' \<and> a_pc s' = a_pc s \<and> lock_free s'"
proof (cases "lock_free s")
  case False
  then obtain u where u: "a_phase s u = Some Holding" by (auto simp: lock_free_def)
  let ?s = "s\<lparr>a_phase := (a_phase s)(u \<mapsto> Ended), a_map := a_map s - {u}\<rparr>"
  have "acc_step s ?s" by (rule acc_step.erase_entry [OF u assms(2)])
  moreover have "lock_free ?s" using assms(1) u by (auto simp: lock_free_def acc_inv_def)
  ultimately show ?thesis by (intro exI [of _ ?s]) (simp add: r_into_rtranclp)
qed (use rtranclp.rtrancl_refl in fast)

lemma polls_again:
  assumes "acc_inv s" "a_pc s \<in> {Polling, Created t, Inserted t}"
  shows "\<exists>s'. acc_step\<^sup>*\<^sup>* s s' \<and> a_pc s' = Polling"
proof -
  have ins: "\<exists>s'. acc_step\<^sup>*\<^sup>* s s' \<and> a_pc s' = Polling" if "a_pc s = Inserted t" for s
    using acc_step.set_value [OF that] by (metis acc.select_convs(2) acc.surjective acc.update_convs(2,5) r_into_rtranclp)
  consider "a_pc s = Polling" | "a_pc s = Created t" | "a_pc s = Inserted t" using assms(2) by auto
  then show ?thesis
  proof cases
    case 2
    then obtain f where f: "acc_step\<^sup>*\<^sup>* s f" "a_pc f = Created t" "lock_free f" using frees_lock [OF assms(1)] by auto
    let ?i = "f\<lparr>a_pc := Inserted t, a_map := insert t (a_map f)\<rparr>"
    have "acc_step f ?i" by (rule acc_step.insert_entry [OF f(2,3)])
    moreover obtain q where "acc_step\<^sup>*\<^sup>* ?i q" "a_pc q = Polling" using ins [of ?i] by auto
    ultimately show ?thesis using f(1) by (meson converse_rtranclp_into_rtranclp rtranclp_trans)
  qed (use ins in auto)
qed

text \<open>C26: From every reachable state in which the accepting thread is in its loop, however many clients are being
  served and whatever they hold, there is a continuation in which a signal comes, every client thread ends and the
  accepting thread finishes its joins: no interleaving leaves a deadlock behind.\<close>

theorem accept_can_finish:
  assumes "acc_reachable s" "a_pc s \<in> {Polling, Created t, Inserted t}"
  shows "\<exists>s'. acc_step\<^sup>*\<^sup>* s s' \<and> a_pc s' = Finished \<and> (\<forall>u. a_phase s' u \<in> {None, Some Ended})"
proof -
  obtain q where q: "acc_step\<^sup>*\<^sup>* s q" "a_pc q = Polling" using polls_again reachable_inv assms by blast
  have "acc_step\<^sup>*\<^sup>* s (q\<lparr>a_stop := True\<rparr>)" using q(1) acc_step.signal by (rule rtranclp.rtrancl_into_rtrancl)
  moreover from this have "stopping (q\<lparr>a_stop := True\<rparr>)"
    using inv_steps reachable_inv [OF assms(1)] q(2) by (auto simp: stopping_def)
  ultimately obtain s' where "acc_step\<^sup>*\<^sup>* s s'" "a_pc s' = Finished" using stopping_finishes by (meson rtranclp_trans)
  moreover from this have "thread_ok s' u" for u using inv_steps reachable_inv [OF assms(1)] by (simp add: acc_inv_def)
  ultimately show ?thesis by (auto simp: thread_ok_def)
qed

theorem accept_can_finish_witness:
  "\<exists>s'. acc_step\<^sup>*\<^sup>* (one_client False Polling Serving) s' \<and> a_pc s' = Finished \<and> (\<forall>u. a_phase s' u \<in> {None, Some Ended})"
  by (rule accept_can_finish [OF one_client_serving, of 0]) (simp add: one_client_def)

end
