(* ===== verification/Autoconf.thy ===== *)
theory Autoconf
  imports Proxy Hops Cmdline
begin

text \<open>
  \<open>autoconf.cpp\<close> and \<open>ssl.cpp\<close>: the search for a working attack. Each attempt connects to the server, attacks the
  first data and judges the answer: a TLS handshake that ends with a certificate of the host, or a page
  that was not forged. OpenSSL is a parameter: its handshake, what it wants to send, how it takes what was
  received, the verification and the certificate of the server. The lines that the user types are a list.
\<close>

section \<open>Certificates\<close>

text \<open>The common name of the subject, and the alternative names with whether they are DNS names.\<close>

record cert =
  cert_cn :: "string option"
  cert_alt_names :: "(bool \<times> string) list"

record crypto =
  tl_handshake :: "hist \<Rightarrow> bool"
  tl_read :: "hist \<Rightarrow> nat \<Rightarrow> bytes"
  tl_write :: "hist \<Rightarrow> bytes \<Rightarrow> int"
  tl_verified :: "hist \<Rightarrow> bool"
  tl_cert :: "hist \<Rightarrow> cert option"

text \<open>\<open>X509_NAME_get_text_by_NID\<close> stores at most 253 characters into the array of 254.\<close>

definition verify_cert_common_name :: "cert \<Rightarrow> string \<Rightarrow> bool" where
  "verify_cert_common_name c host = (case cert_cn c of None \<Rightarrow> False | Some name \<Rightarrow> check_host_name (take 253 name) host)"

fun alt_name_matches :: "(bool \<times> string) list \<Rightarrow> string \<Rightarrow> bool" where
  "alt_name_matches [] host = False"
| "alt_name_matches ((is_dns, name) # names) host =
     (if is_dns \<and> check_host_name name host then True else alt_name_matches names host)"

definition verify_cert_subject_alt_name :: "cert \<Rightarrow> string \<Rightarrow> bool" where
  "verify_cert_subject_alt_name c host = alt_name_matches (cert_alt_names c) host"

definition verify_cert :: "cert \<Rightarrow> string \<Rightarrow> bool" where
  "verify_cert c host = (verify_cert_subject_alt_name c host \<or> verify_cert_common_name c host)"

text \<open>\<open>ssl.cpp\<close>: the bundle from a file, and the store with the certificates and revocation lists of the bundle.\<close>

definition load_ca_bundle :: "(string \<Rightarrow> string option) \<Rightarrow> Settings_perst_s \<Rightarrow> int \<times> Settings_perst_s" where
  "load_ca_bundle files S = (case files (ca_bundle_path S) of
     None \<Rightarrow> (-1, S)
   | Some c \<Rightarrow> (0, S\<lparr>ca_bundle := c\<rparr>))"

fun add_infos :: "('c option \<times> 'r option) list \<Rightarrow> 'c list \<times> 'r list \<Rightarrow> 'c list \<times> 'r list" where
  "add_infos [] cts = cts"
| "add_infos ((x509, crl) # infs) (certs, crls) =
     add_infos infs (case x509 of None \<Rightarrow> certs | Some c \<Rightarrow> certs @ [c], case crl of None \<Rightarrow> crls | Some r \<Rightarrow> crls @ [r])"

definition gen_x509_store :: "(string \<Rightarrow> ('c option \<times> 'r option) list option) \<Rightarrow> Settings_perst_s \<Rightarrow> ('c list \<times> 'r list) option" where
  "gen_x509_store pem S = map_option (\<lambda>infs. add_infos infs ([], [])) (pem (ca_bundle S))"

section \<open>An attempt over TLS\<close>

definition give_up :: "int \<Rightarrow> 'a io" where
  "give_up sock = then_do (close sock) (raise (Return (-1)))"

definition hello_split :: "Profile_s \<Rightarrow> bytes \<Rightarrow> nat \<Rightarrow> u32 io" where
  "hello_split P buffer res =
     (if split_at_sni P then
        (case get_tls_sni buffer res of
           None \<Rightarrow> raise Undefined
         | Some (start, len) \<Rightarrow>
             ret (if res < start + len \<or> start = 0 \<or> len = 0 then split_position P else word_of_nat (start + len div 2)))
      else ret (word_of_int (min (sint (split_position P)) (int res))))"

text \<open>The Client Hello goes out with the attacks, followed by zeros of its size; what OpenSSL wants to send
  later goes out as it is.\<close>

definition send_hello :: "nat \<Rightarrow> proxy \<Rightarrow> int \<Rightarrow> string \<Rightarrow> int \<Rightarrow> bytes \<Rightarrow> bytes \<Rightarrow> nat \<Rightarrow> unit io" where
  "send_hello fuel X sock ip port sniffed_packet buffer res =
     bnd (hello_split (px_profile X) buffer res) (\<lambda>split_pos.
     bnd (do_desync_attack (px_os X) (px_profile X) sock ip port True sniffed_packet buffer (word_of_nat res) split_pos) (\<lambda>r.
     if r = -1 then give_up sock
     else bnd (synchronize fuel X sock (word_of_nat res) split_pos) (\<lambda>ok. if ok then ret () else give_up sock)))"

definition send_flight :: "nat \<Rightarrow> proxy \<Rightarrow> int \<Rightarrow> bytes \<Rightarrow> nat \<Rightarrow> unit io" where
  "send_flight fuel X sock buffer res =
     bnd (send_string fuel (px_os X) sock buffer (word_of_nat res) 0) (\<lambda>r. if r = -1 then give_up sock else ret ())"

text \<open>What was received goes to OpenSSL: each call gets \<open>last_char\<close> bytes from the offset, not what is left.\<close>

fun feed :: "nat \<Rightarrow> crypto \<Rightarrow> int \<Rightarrow> bytes \<Rightarrow> nat \<Rightarrow> nat \<Rightarrow> unit io" where
  "feed 0 T sock buffer last_char offset = raise Out_of_fuel"
| "feed (Suc n) T sock buffer last_char offset =
     (if last_char = offset then ret ()
      else if length buffer + 1 < offset + last_char then raise Undefined
      else bnd (ask (\<lambda>h. tl_write T h (take last_char (drop offset (buffer @ [0]))))) (\<lambda>res.
        if res \<le> 0 then give_up sock else feed n T sock buffer last_char (offset + nat res)))"

definition receive_flight :: "nat \<Rightarrow> crypto \<Rightarrow> proxy \<Rightarrow> int \<Rightarrow> bytes \<Rightarrow> bytes io" where
  "receive_flight fuel T X sock buffer =
     bnd (recv_string fuel (px_os X) sock buffer 0 None None) (\<lambda>r.
     if r_ret r = -1 then give_up sock
     else then_do (feed fuel T sock (r_message r) (unat (r_last_char r)) 0) (ret (r_message r)))"

fun handshake :: "nat \<Rightarrow> nat \<Rightarrow> crypto \<Rightarrow> proxy \<Rightarrow> int \<Rightarrow> string \<Rightarrow> int \<Rightarrow> bytes \<Rightarrow> int \<Rightarrow> bytes \<Rightarrow> bool \<Rightarrow> unit io" where
  "handshake 0 fuel T X sock ip port sniffed_packet start buffer is_first_time = raise Out_of_fuel"
| "handshake (Suc n) fuel T X sock ip port sniffed_packet start buffer is_first_time =
     bnd (ask (tl_handshake T)) (\<lambda>complete.
     if complete then ret ()
     else bnd (ask (\<lambda>h. take (length buffer) (tl_read T h (length buffer)))) (\<lambda>d.
       bnd (if d \<noteq> [] then
              then_do (if is_first_time then send_hello fuel X sock ip port sniffed_packet (overwrite d buffer) (length d)
                       else send_flight fuel X sock (overwrite d buffer) (length d)) (ret (overwrite d buffer))
            else receive_flight fuel T X sock buffer) (\<lambda>buffer.
       bnd (now_ms (px_os X)) (\<lambda>stop.
       if int (unat (test_ssl_handshake_timeout (px_settings X))) < c_div (stop - start) 1000 then give_up sock
       else handshake n fuel T X sock ip port sniffed_packet start buffer (is_first_time \<and> d = [])))))"

definition check_https_response :: "nat \<Rightarrow> nat \<Rightarrow> crypto \<Rightarrow> proxy \<Rightarrow> int \<Rightarrow> string \<Rightarrow> string \<Rightarrow> int \<Rightarrow> bytes \<Rightarrow> int io" where
  "check_https_response n fuel T X sock host ip port sniffed_packet = returning (
     bnd (now_ms (px_os X)) (\<lambda>start.
     then_do (handshake n fuel T X sock ip port sniffed_packet start (replicate (unat (buffer_size (px_profile X))) 32) True)
     (bnd (ask (tl_verified T)) (\<lambda>ok.
      if \<not> ok then give_up sock
      else bnd (ask (tl_cert T)) (\<lambda>server_cert. case server_cert of
        None \<Rightarrow> give_up sock
      | Some c \<Rightarrow> if \<not> verify_cert c host then give_up sock else then_do (close sock) (ret 0))))))"

section \<open>An attempt over HTTP\<close>

definition http_request :: "string \<Rightarrow> string" where
  "http_request host = ''GET / HTTP/1.1'' @ CRLF @ ''Host: '' @ host @ CRLF
     @ ''User-Agent: Mozilla/5.0 (Windows NT 10.0; Win64; x64; rv:70.0) Gecko/20100101 Firefox/70.0'' @ CRLF
     @ ''Accept: text/html,application/xhtml+xml,application/xml;q=0.9,*/*;q=0.8'' @ CRLF
     @ ''Accept-Encoding: gzip, deflate'' @ CRLF @ CRLF"

definition status_code :: "string \<Rightarrow> string option" where
  "status_code buffer = (case find_char (CHR '' '') buffer 0 of
     None \<Rightarrow> None
   | Some s \<Rightarrow> if s = length buffer - 1 then None
       else (case find_char (CHR '' '') buffer (s + 1) of
         None \<Rightarrow> None
       | Some e \<Rightarrow> Some (take (e - s - 1) (drop (s + 1) buffer))))"

text \<open>Whether the answer sends the client to another host. \<open>std::string::erase\<close> throws behind the end.\<close>

definition redirects_away :: "string \<Rightarrow> string \<Rightarrow> bool throws" where
  "redirects_away host buffer = (case find_str ''Location: '' buffer 0 of
     None \<Rightarrow> Returns False
   | Some s \<Rightarrow> (case find_str CRLF buffer (s + 1) of
       None \<Rightarrow> Returns False
     | Some e \<Rightarrow>
         (let url = take (e - s - 10) (drop (s + 10) buffer);
              url = (if starts_with ''http://'' url then drop 7 url else url)
          in case find_char (CHR ''/'') url 0 of
               None \<Rightarrow> Throws ''std::out_of_range''
             | Some p \<Rightarrow> Returns (\<not> starts_with host (take p url)))))"

definition dpi_answer :: "string \<Rightarrow> string \<Rightarrow> u32 \<Rightarrow> u32 \<Rightarrow> int throws" where
  "dpi_answer host buffer receive_time connect_time =
     (let early = (if receive_time < connect_time * 2 div 3 then 1 else 0 :: nat) in
      case status_code buffer of
        None \<Rightarrow> Returns (-1)
      | Some code \<Rightarrow>
          (let moved = (if code \<in> {''301'', ''302'', ''303'', ''307'', ''308''} then 1 else 0) in
           case redirects_away host buffer of
             Throws x \<Rightarrow> Throws x
           | Returns away \<Rightarrow> Returns (if 2 \<le> early + moved + (if away then 1 else 0) then -1 else 0)))"

definition check_http_response :: "nat \<Rightarrow> proxy \<Rightarrow> int \<Rightarrow> string \<Rightarrow> string \<Rightarrow> int \<Rightarrow> bytes \<Rightarrow> u32 \<Rightarrow> int io" where
  "check_http_response fuel X sock host ip port sniffed_packet connect_time = returning (
     (let request = bytes_of (http_request host);
          split_pos = min (split_position (px_profile X)) (word_of_nat (length request))
      in bnd (do_desync_attack (px_os X) (px_profile X) sock ip port True sniffed_packet request (word_of_nat (length request)) split_pos) (\<lambda>r.
      if r = -1 then give_up sock
      else bnd (recv_string fuel (px_os X) sock (replicate (unat (buffer_size (px_profile X))) 32) 0 (Some 5000000) (Some (px_stack X))) (\<lambda>r.
      if r_ret r = -1 then give_up sock
      else then_do (close sock) (
        if r_last_char r = 0 then raise (Return (-1))
        else case dpi_answer host (string_of (r_message r)) (case r_recv_time r of None \<Rightarrow> 0 | Some t \<Rightarrow> t) connect_time of
          Throws x \<Rightarrow> raise (Throw x)
        | Returns v \<Rightarrow> ret v)))))"

section \<open>Attempts\<close>

text \<open>The system around an attempt may depend on what happened before.\<close>

record attempts =
  at_proxy :: "hist \<Rightarrow> proxy"
  at_tls :: crypto

definition test_connection :: "nat \<Rightarrow> nat \<Rightarrow> crypto \<Rightarrow> proxy \<Rightarrow> string \<Rightarrow> string \<Rightarrow> int \<Rightarrow> bool \<Rightarrow> int io" where
  "test_connection n fuel T X host ip port is_https = returning (
     bnd (start_sniffer X ip port) (\<lambda>out.
     bnd (now_ms (px_os X)) (\<lambda>start.
     bnd (init_remote_server_socket (px_os X) (px_profile X) ip port) (\<lambda>(r, sock).
     if r = -1 then then_do (join_if (Some out)) (give_up sock)
     else bnd (now_ms (px_os X)) (\<lambda>stop.
     bnd (setsockopt (px_os X) sock TCP_NODELAY 1) (\<lambda>ok.
     if \<not> ok then then_do (join_if (Some out)) (give_up sock)
     else bnd (getsockname (px_os X) sock) (\<lambda>name. case name of
       None \<Rightarrow> then_do (join_if (Some out)) (give_up sock)
     | Some local_port \<Rightarrow>
         bnd (join_sniffer out) (\<lambda>o'.
         if so_status o' = Some (-1) then give_up sock
         else if is_https then check_https_response n fuel T X sock host ip port (so_packet o')
         else check_http_response fuel X sock host ip port (so_packet o') (word_of_int (stop - start))))))))))"

definition test_desync_attack :: "nat \<Rightarrow> nat \<Rightarrow> attempts \<Rightarrow> Profile_s \<Rightarrow> string \<Rightarrow> string \<Rightarrow> int \<Rightarrow> bool \<Rightarrow> int io" where
  "test_desync_attack n fuel A P host ip port is_https =
     bnd (ask (at_proxy A)) (\<lambda>X. test_connection n fuel (at_tls A) (X\<lparr>px_profile := P\<rparr>) host ip port is_https)"

text \<open>Three further attempts: the worst of the results.\<close>

fun worst_of :: "nat \<Rightarrow> int io \<Rightarrow> int \<Rightarrow> int io" where
  "worst_of 0 test res = ret res"
| "worst_of (Suc k) test res = bnd test (\<lambda>r. worst_of k test (min res r))"

text \<open>The smallest TTL that works: the counter of the loop is the field of the profile.\<close>

fun minimum_ttl :: "nat \<Rightarrow> (u16 \<Rightarrow> int io) \<Rightarrow> int \<Rightarrow> u16 \<Rightarrow> int \<Rightarrow> u16 io" where
  "minimum_ttl 0 test max_ttl ttl result = raise Out_of_fuel"
| "minimum_ttl (Suc k) test max_ttl ttl result =
     (if uint ttl \<le> max_ttl \<and> result = -1 then
        bnd (test ttl) (\<lambda>r.
        bnd (if r \<noteq> -1 then worst_of 3 (test ttl) r else ret r) (\<lambda>r. minimum_ttl k test max_ttl (ttl + 1) r))
      else ret (ttl - 1))"

definition attack_list :: "Profile_s \<Rightarrow> string" where
  "attack_list P =
     (let zero = desync_zero_attack P \<noteq> DESYNC_ZERO_NONE; first = desync_first_attack P \<noteq> DESYNC_FIRST_NONE in
      (if zero then the (ZERO_ATTACKS_NAMES (desync_zero_attack P)) @ (if first then '','' else []) else [])
      @ (if first then the (FIRST_ATTACKS_NAMES (desync_first_attack P)) else []))"

text \<open>The options that are shown, as the words a shell makes of them.\<close>

definition shown_options :: "Settings_perst_s \<Rightarrow> Profile_s \<Rightarrow> bool \<Rightarrow> string list" where
  "shown_options S P is_https =
     (if builtin_dns P then [''-builtin-dns'', ''-builtin-dns-ip'', builtin_dns_ip P, ''-builtin-dns-port'', to_string (builtin_dns_port P)] else [])
     @ [''-doh'', ''-doh-server'', doh_server P]
     @ (if split_at_sni P then [''-split-at-sni''] else [])
     @ (if window_size P \<noteq> 0 then [''-wsize'', to_string (uint (window_size P))] else [])
     @ (if window_scale_factor P \<noteq> - 1 then [''-wsfactor'', to_string (sint (window_scale_factor P))] else [])
     @ (if fake_packets_ttl P \<noteq> 0 then [''-ttl'', to_string (uint (fake_packets_ttl P))] else [])
     @ (if wrong_seq P then [''-wrong-seq''] else [])
     @ (if is_https then [''-ca-bundle-path'', ca_bundle_path S] else [])
     @ (if desync_zero_attack P \<noteq> DESYNC_ZERO_NONE \<or> desync_first_attack P \<noteq> DESYNC_FIRST_NONE
        then [''-desync-attacks'', attack_list P] else [])"

text \<open>The profile that the options stand for, after the search for the smallest TTL.\<close>

definition show_configured_options :: "nat \<Rightarrow> (Profile_s \<Rightarrow> int io) \<Rightarrow> Settings_perst_s \<Rightarrow> Profile_s \<Rightarrow> bool \<Rightarrow> (Profile_s \<times> string list) io" where
  "show_configured_options k test S P is_https =
     bnd (if fake_packets_ttl P \<noteq> 0
          then bnd (minimum_ttl k (\<lambda>ttl. test (P\<lparr>fake_packets_ttl := ttl\<rparr>)) (uint (fake_packets_ttl P)) 1 (-1))
                 (\<lambda>ttl. ret (P\<lparr>fake_packets_ttl := ttl\<rparr>))
          else ret P) (\<lambda>P. ret (P, shown_options S P is_https))"

definition test_desync_attack_wrapper :: "nat \<Rightarrow> (Profile_s \<Rightarrow> int io) \<Rightarrow> Settings_perst_s \<Rightarrow> Profile_s \<Rightarrow> bool
    \<Rightarrow> (Profile_s \<times> string list) option io" where
  "test_desync_attack_wrapper k test S P is_https =
     bnd (test P) (\<lambda>r.
     if r = -1 then ret None
     else bnd (worst_of 3 (test P) 0) (\<lambda>res.
       if res = -1 then ret None else bnd (show_configured_options k test S P is_https) (\<lambda>c. ret (Some c))))"

text \<open>\<open>set_profile\<close> of \<open>autoconf.cpp\<close>.\<close>

datatype fake_type = Fake_ttl | Fake_wrong_seq

definition attempt_profile :: "string \<Rightarrow> bool \<Rightarrow> Desync_zero_attacks \<Rightarrow> Desync_first_attacks \<Rightarrow> fake_type \<Rightarrow> u16 \<Rightarrow> bool \<Rightarrow> Profile_s" where
  "attempt_profile server builtin zero first fake ttl win_size_scale =
     (let P = default_Profile\<lparr>doh := True, doh_server := server\<rparr>;
          P = (if builtin then P\<lparr>builtin_dns := True\<rparr> else P);
          P = P\<lparr>desync_zero_attack := zero, desync_first_attack := first\<rparr>;
          P = (case fake of Fake_ttl \<Rightarrow> P\<lparr>fake_packets_ttl := ttl\<rparr> | Fake_wrong_seq \<Rightarrow> P\<lparr>wrong_seq := True\<rparr>)
      in if win_size_scale then P\<lparr>window_size := 1, window_scale_factor := 6\<rparr> else P)"

text \<open>The order of the four loops.\<close>

definition combinations :: "(Desync_zero_attacks \<times> Desync_first_attacks \<times> fake_type \<times> bool) list" where
  "combinations = [(z, f, t, w). z \<leftarrow> [DESYNC_ZERO_NONE, DESYNC_ZERO_FAKE, DESYNC_ZERO_RST, DESYNC_ZERO_RSTACK],
     f \<leftarrow> [DESYNC_FIRST_DISORDER_FAKE, DESYNC_FIRST_SPLIT_FAKE], t \<leftarrow> [Fake_ttl, Fake_wrong_seq], w \<leftarrow> [False, True]]"

fun try_each :: "(Profile_s \<Rightarrow> (Profile_s \<times> string list) option io) \<Rightarrow> string \<Rightarrow> bool \<Rightarrow> u16
    \<Rightarrow> (Desync_zero_attacks \<times> Desync_first_attacks \<times> fake_type \<times> bool) list \<Rightarrow> (Profile_s \<times> string list) option io" where
  "try_each try server builtin ttl [] = ret None"
| "try_each try server builtin ttl ((z, f, t, w) # cs) =
     bnd (try (attempt_profile server builtin z f t ttl w)) (\<lambda>r. case r of
       Some c \<Rightarrow> ret (Some c)
     | None \<Rightarrow> try_each try server builtin ttl cs)"

section \<open>The dialogue\<close>

fun getline :: "string list \<Rightarrow> string \<times> string list" where
  "getline [] = ([], [])"
| "getline (l # ls) = (l, ls)"

text \<open>The host, whether it is https, and the port, of the site the user types.\<close>

definition parse_site :: "string \<Rightarrow> (string \<times> bool \<times> int) throws" where
  "parse_site line =
     (let (is_https, port, host) =
        (if starts_with ''http://'' line then (False, 80, drop 7 line)
         else if starts_with ''https://'' line then (True, 443, drop 8 line) else (True, 443, line))
      in case find_char (CHR '':'') host 0 of
           None \<Rightarrow> Returns (host, is_https, port)
         | Some p \<Rightarrow> (case stoi (drop (p + 1) host) of
             Throws x \<Rightarrow> Throws x
           | Returns n \<Rightarrow> Returns (take p host, is_https, n)))"

definition dns_server :: "string \<Rightarrow> Profile_s \<Rightarrow> Profile_s throws" where
  "dns_server line P =
     (if line = [] then Returns P
      else case find_char (CHR '':'') line 0 of
        None \<Rightarrow> Returns (P\<lparr>builtin_dns_ip := line\<rparr>)
      | Some p \<Rightarrow> (case stoi (drop (p + 1) line) of
          Throws x \<Rightarrow> Throws x
        | Returns n \<Rightarrow> Returns (P\<lparr>builtin_dns_ip := take p line, builtin_dns_port := n\<rparr>)))"

definition lift_throws :: "'a throws \<Rightarrow> 'a io" where
  "lift_throws t = (case t of Throws x \<Rightarrow> raise (Throw x) | Returns v \<Rightarrow> ret v)"

text \<open>Resolving the host: over DoH, and once more with the builtin resolver for the DoH server.\<close>

definition resolve_site :: "nat \<Rightarrow> attempts \<Rightarrow> Settings_perst_s \<Rightarrow> Profile_s \<Rightarrow> string \<Rightarrow> string list \<Rightarrow> (string \<times> bool) option io" where
  "resolve_site fuel A S P host input =
     bnd (ask (at_proxy A)) (\<lambda>X.
     bnd (resolve_host fuel (px_os X) (px_net X) S P host []) (\<lambda>(r, ip).
     if r \<noteq> -1 then ret (Some (ip, False))
     else bnd (lift_throws (dns_server (fst (getline input)) (P\<lparr>builtin_dns := True\<rparr>))) (\<lambda>P.
       bnd (ask (at_proxy A)) (\<lambda>X.
       bnd (resolve_host fuel (px_os X) (px_net X) S P host ip) (\<lambda>(r, ip).
       ret (if r \<noteq> -1 then Some (ip, True) else None))))))"

text \<open>The settings and the parameters of the run: the files, the parser of the bundle, whether OpenSSL has a
  context, and the sniffers of the hop counter.\<close>

record run_env =
  re_files :: "string \<Rightarrow> string option"
  re_pem :: "string \<Rightarrow> (unit option \<times> unit option) list option"
  re_ssl_ctx :: bool
  re_sniffers :: "nat \<Rightarrow> bool \<times> sniff_obs list"

definition run_autoconf :: "nat \<Rightarrow> nat \<Rightarrow> nat \<Rightarrow> attempts \<Rightarrow> run_env \<Rightarrow> Settings_perst_s \<Rightarrow> Profile_s \<Rightarrow> string list
    \<Rightarrow> (int \<times> (Profile_s \<times> string list) option) io" where
  "run_autoconf k n fuel A R S P input =
     (let (site, input) = getline input; (server, input) = getline input;
          P = (if server \<noteq> [] then P\<lparr>doh_server := server\<rparr> else P) in
      bnd (lift_throws (parse_site site)) (\<lambda>(host, is_https, port).
      let (ca, input) = getline input; S = (if ca \<noteq> [] then S\<lparr>ca_bundle_path := ca\<rparr> else S);
          (loaded, S) = load_ca_bundle (re_files R) S in
      if loaded = -1 then ret (-1, None)
      else if is_https \<and> (gen_x509_store (re_pem R) S = None \<or> \<not> re_ssl_ctx R) then ret (-1, None)
      else bnd (resolve_site fuel A S (P\<lparr>doh := True\<rparr>) host input) (\<lambda>r. case r of
        None \<Rightarrow> ret (-1, None)
      | Some (ip, builtin) \<Rightarrow>
          bnd (ask (at_proxy A)) (\<lambda>X.
          bnd (count_hops fuel (px_os X) S (re_sniffers R) ip port) (\<lambda>hops.
          if hops = -1 then ret (-1, None)
          else bnd (try_each (\<lambda>P. test_desync_attack_wrapper k (\<lambda>P. test_desync_attack n fuel A P host ip port is_https) S P is_https)
                      (doh_server P) builtin (word_of_int (hops - 1)) combinations) (\<lambda>c. ret (0, c)))))))"

end
