(* ===== verification/Autosearch.thy ===== *)
theory Autosearch
  imports Autoconf Owning
begin

text \<open>
  The properties of the search for an attack: it closes its sockets, its smallest TTL, the answers that end
  it, and that the options it shows stand for the profile it has tested.
\<close>

section \<open>Sockets\<close>

lemma owns_give_up [owning]: "owns [s] E (give_up s)"
  unfolding give_up_def by (rule owns_steps owning)+

lemma owns_hello_split [owning]: "owns D (\<lambda>_. D) (hello_split P buffer res)"
  unfolding hello_split_def by (rule owns_steps owning)+

lemma owns_flights [owning]:
  "owns [s] (\<lambda>_. [s]) (send_hello fuel X s ip port packet buffer res)" "owns [s] (\<lambda>_. [s]) (send_flight fuel X s buffer res)"
  unfolding send_hello_def send_flight_def by (rule owns_steps owning)+

lemma owns_feed [owning]: "owns [s] (\<lambda>_. [s]) (feed n T s buffer last_char offset)"
proof (induction n arbitrary: offset)
  case (Suc n)
  show ?case unfolding feed.simps by (rule owns_steps owning Suc.IH)+
qed (simp add: owning)

lemma owns_receive_flight [owning]: "owns [s] (\<lambda>_. [s]) (receive_flight fuel T X s buffer)"
  unfolding receive_flight_def by (rule owns_steps owning)+

lemma owns_handshake [owning]: "owns [s] (\<lambda>_. [s]) (handshake n fuel T X s ip port packet start buffer first)"
proof (induction n arbitrary: buffer first)
  case (Suc n)
  show ?case unfolding handshake.simps by (rule owns_steps owning Suc.IH)+
qed (simp add: owning)

lemma owns_checks:
  "owns [s] (\<lambda>_. []) (check_https_response n fuel T X s host ip port packet)"
  "owns [s] (\<lambda>_. []) (check_http_response fuel X s host ip port packet t)"
proof -
  show "owns [s] (\<lambda>_. []) (check_https_response n fuel T X s host ip port packet)"
    unfolding check_https_response_def by (rule owns_returning) (rule owns_steps owning)+
  show "owns [s] (\<lambda>_. []) (check_http_response fuel X s host ip port packet t)"
    unfolding check_http_response_def Let_def
    by (rule owns_returning) (rule owns_steps owning | simp add: owning split: throws.splits)+
qed

lemma owns_test_connection: "owns [] (\<lambda>_. []) (test_connection n fuel T X host ip port is_https)"
proof -
  have j: "owns [s] E (then_do (join_if sn) (give_up s))" for s sn and E :: "int \<Rightarrow> int list"
    by (rule owns_then_do [OF owns_sniffer(3)]) (rule owns_give_up)
  show ?thesis unfolding test_connection_def
    apply (rule owns_returning, rule owns_bnd [OF owns_sniffer(1)], rule owns_bnd [OF owns_calls(5)], rule owns_bnd [OF owns_init_remote])
    subgoal for out start x by (cases x) (simp only: prod.case, (rule owns_steps owning j owns_checks)+)
    done
qed

lemma owns_attempt: "owns [] (\<lambda>_. []) (test_desync_attack n fuel A P host ip port is_https)"
  unfolding test_desync_attack_def by (rule owns_bnd [OF owns_ask]) (rule owns_test_connection)

interpretation attempt: handover "\<lambda>P. test_desync_attack n fuel A P host ip port is_https" "\<lambda>_. []" for n fuel A host ip port is_https
  by unfold_locales (rule owns_attempt)

text \<open>C17: An attempt of the automatic configuration closes every descriptor it opens, on each of its paths: the
  connection, the raw socket of the attacks, whatever the server, OpenSSL and the system do.\<close>

theorem test_desync_attack_closes:
  assumes "test_desync_attack n fuel A P host ip port is_https h = (Inr r, h')" "0 \<le> fd"
  shows "balance fd h' = balance fd h"
  using attempt.closes [OF assms] by simp

text \<open>The packet of the handshake does not come in time.\<close>

definition late_proxy :: proxy where
  "late_proxy = sample_proxy\<lparr>px_sniff_obs := [\<lparr>o_flag = True, o_port = 40000, o_poll = S_timeout, o_elapsed = 5001\<rparr>]\<rparr>"

definition late_attempts :: attempts where
  "late_attempts = \<lparr>at_proxy = \<lambda>h. late_proxy, at_tls = \<lparr>tl_handshake = \<lambda>h. False, tl_read = \<lambda>h n. [], tl_write = \<lambda>h d. 0,
     tl_verified = \<lambda>h. False, tl_cert = \<lambda>h. None\<rparr>\<rparr>"

lemma late_run: "fst (test_desync_attack 2 3 late_attempts default_Profile ''a.b'' ''10.0.0.5'' 443 True []) = Inr (-1)"
  by code_simp

lemma test_desync_attack_closes_witness:
  "balance 4 (snd (test_desync_attack 2 3 late_attempts default_Profile ''a.b'' ''10.0.0.5'' 443 True [])) = balance 4 []"
proof (rule test_desync_attack_closes)
  show "test_desync_attack 2 3 late_attempts default_Profile ''a.b'' ''10.0.0.5'' 443 True []
      = (Inr (-1), snd (test_desync_attack 2 3 late_attempts default_Profile ''a.b'' ''10.0.0.5'' 443 True []))"
    using late_run by (metis prod.collapse)
qed simp

section \<open>The smallest TTL\<close>

lemma worst_of_ret: "worst_of k (ret r) res = ret (if k = 0 then res else min res r)"
  by (induction k arbitrary: res) (auto simp: min_def)

lemma uint_next: "uint ttl < 65535 \<Longrightarrow> uint (ttl + 1 :: u16) = uint ttl + 1"
  by (subst uint_add_lem [THEN iffD1]) simp_all

lemma minimum_ttl_from:
  assumes "\<forall>t. v t \<in> {0, -1}" "m < 65535"
  shows "\<lbrakk>1 \<le> uint ttl; uint ttl \<le> m; m \<le> uint ttl + int k\<rbrakk>
     \<Longrightarrow> \<exists>t. minimum_ttl (Suc (Suc k)) (\<lambda>t. ret (v t)) m ttl (-1) = ret t \<and> uint ttl \<le> uint t \<and> uint t \<le> m
       \<and> (\<forall>s. uint ttl \<le> uint s \<and> uint s < uint t \<longrightarrow> v s = -1) \<and> (v t = 0 \<or> uint t = m)"
proof (induction k arbitrary: ttl)
  case 0
  then have ttl: "uint ttl = m" by simp
  have u: "uint (ttl + 1) = m + 1" using uint_next [of ttl] ttl assms(2) by simp
  have "minimum_ttl (Suc (Suc 0)) (\<lambda>t. ret (v t)) m ttl (-1) = ret ttl"
    using ttl u assms(1) [rule_format, of ttl] by (auto simp: worst_of_ret)
  then show ?case using ttl by (intro exI [of _ ttl]) simp
next
  case (Suc k)
  have u: "uint (ttl + 1) = uint ttl + 1" using uint_next [of ttl] Suc.prems assms(2) by simp
  consider "v ttl = 0" | "v ttl = -1" "uint ttl = m" | "v ttl = -1" "uint ttl < m"
    using assms(1) [rule_format, of ttl] Suc.prems(2) by fastforce
  then show ?case
  proof cases
    case 1
    then have "minimum_ttl (Suc (Suc (Suc k))) (\<lambda>t. ret (v t)) m ttl (-1) = ret ttl"
      using Suc.prems(2) by (simp add: worst_of_ret)
    then show ?thesis using 1 Suc.prems(2) by (intro exI [of _ ttl]) simp
  next
    case 2
    then have "minimum_ttl (Suc (Suc (Suc k))) (\<lambda>t. ret (v t)) m ttl (-1) = ret ttl" using u by simp
    then show ?thesis using 2 by (intro exI [of _ ttl]) simp
  next
    case 3
    obtain t where t: "minimum_ttl (Suc (Suc k)) (\<lambda>t. ret (v t)) m (ttl + 1) (-1) = ret t" "uint ttl + 1 \<le> uint t" "uint t \<le> m"
      "\<forall>s. uint ttl + 1 \<le> uint s \<and> uint s < uint t \<longrightarrow> v s = -1" "v t = 0 \<or> uint t = m"
      using Suc.IH [of "ttl + 1"] Suc.prems 3 unfolding u by auto
    have "v s = -1" if "uint ttl \<le> uint s" "uint s < uint t" for s
    proof (cases "uint s = uint ttl")
      case True
      then have "s = ttl" by (rule unsigned_word_eqI)
      then show ?thesis using 3(1) by simp
    qed (use that t(4) in simp)
    then show ?thesis using t 3 by (intro exI [of _ t]) (auto simp del: minimum_ttl.simps simp: minimum_ttl.simps(2) [of "Suc (Suc k)"])
  qed
qed

text \<open>C24: Where an attempt with a TTL always ends the same way, the TTL that is shown is the smallest one that works up to
  the one that was found before, or that one, also when no TTL works at all.\<close>

theorem minimum_ttl_least:
  assumes "\<forall>t. v t \<in> {0, -1}" "1 \<le> m" "m < 65535" "m < int k"
  shows "\<exists>t. minimum_ttl (Suc k) (\<lambda>t. ret (v t)) m 1 (-1) = ret t \<and> 1 \<le> uint t \<and> uint t \<le> m
    \<and> (\<forall>s. 1 \<le> uint s \<and> uint s < uint t \<longrightarrow> v s = -1) \<and> (v t = 0 \<or> uint t = m)"
proof -
  obtain j where "k = Suc j" using assms(2,4) by (cases k) auto
  then show ?thesis using minimum_ttl_from [OF assms(1,3), of 1 j] assms(2,4) by simp
qed

definition from_three :: "u16 \<Rightarrow> int" where
  "from_three t = (if 3 \<le> t then 0 else - 1)"

lemma minimum_ttl_least_witness:
  "\<exists>t. minimum_ttl (Suc 9) (\<lambda>t. ret (from_three t)) 5 1 (-1) = ret t \<and> 1 \<le> uint t \<and> uint t \<le> 5
    \<and> (\<forall>s. 1 \<le> uint s \<and> uint s < uint t \<longrightarrow> from_three s = -1) \<and> (from_three t = 0 \<or> uint t = 5)"
  by (rule minimum_ttl_least) (simp_all add: from_three_def)

section \<open>A forged answer\<close>

text \<open>A redirect whose address has no slash behind the host ends the program: the search for the slash fails,
  and \<open>erase\<close> throws with its result.\<close>

theorem redirect_throws:
  assumes "find_str ''Location: '' buffer 0 = Some s" "find_str CRLF buffer (s + 1) = Some e"
    and "take (e - s - 10) (drop (s + 10) buffer) = ''http://'' @ name" "CHR ''/'' \<notin> set name"
    and "status_code buffer = Some code"
  shows "dpi_answer host buffer receive_time connect_time = Throws ''std::out_of_range''"
proof -
  have "find_char (CHR ''/'') name 0 = None"
    using assms(4) by (auto simp: find_char_def find_idx_None)
  then have "redirects_away host buffer = Throws ''std::out_of_range''"
    by (simp only: redirects_away_def assms(1-3) option.case Let_def) simp
  then show ?thesis by (simp add: dpi_answer_def assms(5) Let_def)
qed

definition bare_redirect :: string where
  "bare_redirect = ''HTTP/1.1 302 Found'' @ CRLF @ ''Location: http://a.b'' @ CRLF @ CRLF"

lemma redirect_throws_witness: "dpi_answer ''a.b'' bare_redirect 5 90 = Throws ''std::out_of_range''"
proof (rule redirect_throws)
  show "find_str ''Location: '' bare_redirect 0 = Some 20" "find_str CRLF bare_redirect (20 + 1) = Some 40"
    "take (40 - 20 - 10) (drop (20 + 10) bare_redirect) = ''http://'' @ ''a.b''" "CHR ''/'' \<notin> set ''a.b''"
    "status_code bare_redirect = Some ''302''"
    by code_simp+
qed

end
