(* ===== verification/Getopt.thy ===== *)
theory Getopt
  imports Cmdline
begin

text \<open>
  The table of options of \<open>parse_cmdline\<close> and how \<open>getopt_long_only\<close> of the C library reads the words of a command
  line with it: an option starts with one dash or two, its argument follows an equals sign or is the next word;
  other words are skipped, as the library moves them behind the options, and two dashes alone end the options.
\<close>

definition long_options :: "(string \<times> bool) list" where
  "long_options = [(''ip'', True), (''port'', True), (''buffer-size'', True), (''split-position'', True), (''ttl'', True),
     (''doh'', False), (''doh-server'', True), (''ca-bundle-path'', True), (''split-at-sni'', False), (''desync-attacks'', True),
     (''auto'', False), (''help'', False), (''daemon'', False), (''wsize'', True), (''wsfactor'', True), (''profile'', True),
     (''builtin-dns'', False), (''builtin-dns-ip'', True), (''builtin-dns-port'', True), (''pid'', True), (''min-ttl'', True),
     (''auto-ttl'', True), (''wrong-seq'', False), (''mode'', True), (''whitelist'', True), (''custom-ips'', True)]"

text \<open>An option has its name in full, or an abbreviation that only one name starts with.\<close>

definition option_index :: "string \<Rightarrow> (nat \<times> bool) option" where
  "option_index name =
     map_option (\<lambda>i. (i, snd (long_options ! i)))
       (case find_idx (\<lambda>p. fst p = name) long_options of
          Some i \<Rightarrow> Some i
        | None \<Rightarrow> (case filter (\<lambda>i. starts_with name (fst (long_options ! i))) [0..<length long_options] of
            [i] \<Rightarrow> Some i
          | _ \<Rightarrow> None))"

text \<open>The name of an option and the value behind an equals sign.\<close>

definition option_word :: "string \<Rightarrow> (string \<times> string option) option" where
  "option_word w = (case w of
     CHR ''-'' # c # cs \<Rightarrow>
       (let body = (if c = CHR ''-'' then cs else c # cs) in
        case find_idx ((=) (CHR ''='')) body of
          None \<Rightarrow> Some (body, None)
        | Some i \<Rightarrow> Some (take i body, Some (drop (i + 1) body)))
   | _ \<Rightarrow> None)"

fun getopt_long_only :: "string list \<Rightarrow> getopt list" where
  "getopt_long_only [] = []"
| "getopt_long_only (w # ws) =
     (if w = ''--'' then []
      else case option_word w of
        None \<Rightarrow> getopt_long_only ws
      | Some (name, v) \<Rightarrow> (case (option_index name, v, ws) of
          (None, _, _) \<Rightarrow> [Unknown]
        | (Some (i, False), None, _) \<Rightarrow> Opt i [] # getopt_long_only ws
        | (Some (i, False), Some _, _) \<Rightarrow> [Unknown]
        | (Some (i, True), Some x, _) \<Rightarrow> Opt i x # getopt_long_only ws
        | (Some (i, True), None, []) \<Rightarrow> [Unknown]
        | (Some (i, True), None, x # ws') \<Rightarrow> Opt i x # getopt_long_only ws'))"

lemma dashed:
  "option_word ''-doh'' = Some (''doh'', None)"
  "option_word ''-builtin-dns'' = Some (''builtin-dns'', None)"
  "option_word ''-split-at-sni'' = Some (''split-at-sni'', None)"
  "option_word ''-wrong-seq'' = Some (''wrong-seq'', None)"
  "option_word ''-doh-server'' = Some (''doh-server'', None)"
  "option_word ''-builtin-dns-ip'' = Some (''builtin-dns-ip'', None)"
  "option_word ''-builtin-dns-port'' = Some (''builtin-dns-port'', None)"
  "option_word ''-wsize'' = Some (''wsize'', None)"
  "option_word ''-wsfactor'' = Some (''wsfactor'', None)"
  "option_word ''-ttl'' = Some (''ttl'', None)"
  "option_word ''-ca-bundle-path'' = Some (''ca-bundle-path'', None)"
  "option_word ''-desync-attacks'' = Some (''desync-attacks'', None)"
  by code_simp+

lemma option_indices:
  "option_index ''doh'' = Some (5, False)"
  "option_index ''builtin-dns'' = Some (16, False)"
  "option_index ''split-at-sni'' = Some (8, False)"
  "option_index ''wrong-seq'' = Some (22, False)"
  "option_index ''doh-server'' = Some (6, True)"
  "option_index ''builtin-dns-ip'' = Some (17, True)"
  "option_index ''builtin-dns-port'' = Some (18, True)"
  "option_index ''wsize'' = Some (13, True)"
  "option_index ''wsfactor'' = Some (14, True)"
  "option_index ''ttl'' = Some (4, True)"
  "option_index ''ca-bundle-path'' = Some (7, True)"
  "option_index ''desync-attacks'' = Some (9, True)"
  by code_simp+

lemma getopt_words:
  "getopt_long_only (''-doh'' # ws) = Opt 5 [] # getopt_long_only ws"
  "getopt_long_only (''-builtin-dns'' # ws) = Opt 16 [] # getopt_long_only ws"
  "getopt_long_only (''-split-at-sni'' # ws) = Opt 8 [] # getopt_long_only ws"
  "getopt_long_only (''-wrong-seq'' # ws) = Opt 22 [] # getopt_long_only ws"
  "getopt_long_only (''-doh-server'' # x # ws) = Opt 6 x # getopt_long_only ws"
  "getopt_long_only (''-builtin-dns-ip'' # x # ws) = Opt 17 x # getopt_long_only ws"
  "getopt_long_only (''-builtin-dns-port'' # x # ws) = Opt 18 x # getopt_long_only ws"
  "getopt_long_only (''-wsize'' # x # ws) = Opt 13 x # getopt_long_only ws"
  "getopt_long_only (''-wsfactor'' # x # ws) = Opt 14 x # getopt_long_only ws"
  "getopt_long_only (''-ttl'' # x # ws) = Opt 4 x # getopt_long_only ws"
  "getopt_long_only (''-ca-bundle-path'' # x # ws) = Opt 7 x # getopt_long_only ws"
  "getopt_long_only (''-desync-attacks'' # x # ws) = Opt 9 x # getopt_long_only ws"
  by (simp_all add: dashed option_indices)

declare getopt_long_only.simps(2) [simp del]

lemma atoi_to_string: "0 \<le> n \<Longrightarrow> n < 2 ^ 31 \<Longrightarrow> atoi (to_string n) = n"
proof -
  assume n: "0 \<le> n" "n < 2 ^ 31"
  then have "strtol10 (to_string n) = Some n"
    using show_nat_digits [of "nat n"] by (simp add: to_string_def strtol10_digits read_show_nat)
  moreover have "max (- (2 ^ 63)) (min (2 ^ 63 - 1) n) = n" using n by simp
  ultimately show ?thesis using n by (simp add: atoi_def signed_of_int signed_take_bit_int_eq_self)
qed

end
