(* ===== verification/Autoshow.thy ===== *)
theory Autoshow
  imports Autosearch Getopt
begin

text \<open>
  The end of the automatic configuration: the options that it shows, given to the program, make
  \<open>parse_cmdline\<close> choose the profile that was tested.
\<close>

section \<open>Words and their effect on the state of \<open>parse_cmdline\<close>\<close>

definition applied :: "string list \<Rightarrow> (cmd_state \<Rightarrow> cmd_state) \<Rightarrow> bool" where
  "applied ws f = (\<forall>rest st. option_loop (getopt_long_only (ws @ rest)) st = option_loop (getopt_long_only rest) (f st))"

definition upd :: "(Profile_s \<Rightarrow> Profile_s) \<Rightarrow> cmd_state \<Rightarrow> cmd_state" where
  "upd f st = st\<lparr>profile := f (profile st)\<rparr>"

definition set_ca :: "string \<Rightarrow> cmd_state \<Rightarrow> cmd_state" where
  "set_ca s st = st\<lparr>settings := (settings st)\<lparr>ca_bundle_path := s\<rparr>\<rparr>"

lemma applied_Nil: "applied [] id"
  by (simp add: applied_def)

lemma applied_append: "applied u f \<Longrightarrow> applied v g \<Longrightarrow> applied (u @ v) (g \<circ> f)"
  by (simp add: applied_def)

lemma applied_if: "(b \<Longrightarrow> applied u f) \<Longrightarrow> applied (if b then u else []) (if b then f else id)"
  by (simp add: applied_Nil)

lemma applied_flags:
  "applied [''-doh'', ''-doh-server'', s] (upd (\<lambda>P. P\<lparr>doh := True, doh_server := s\<rparr>))"
  "applied [''-split-at-sni''] (upd (\<lambda>P. P\<lparr>split_at_sni := True\<rparr>))"
  "applied [''-wrong-seq''] (upd (\<lambda>P. P\<lparr>wrong_seq := True\<rparr>))"
  "applied [''-ca-bundle-path'', s] (set_ca s)"
  by (simp_all add: applied_def getopt_words option_step_def more_options_def set_profile_def set_settings_def upd_def set_ca_def)

lemma u16_to_string: "atoi (to_string (uint (w :: u16))) = uint w"
  using uint_bounded [of w] by (intro atoi_to_string) simp_all

lemma applied_numbers:
  "1 \<le> n \<Longrightarrow> n \<le> 65535 \<Longrightarrow> applied [''-builtin-dns'', ''-builtin-dns-ip'', s, ''-builtin-dns-port'', to_string n]
     (upd (\<lambda>P. P\<lparr>builtin_dns := True, builtin_dns_ip := s, builtin_dns_port := n\<rparr>))"
  "w \<noteq> 0 \<Longrightarrow> applied [''-wsize'', to_string (uint w)] (upd (\<lambda>P. P\<lparr>window_size := w\<rparr>))"
  "t \<noteq> 0 \<Longrightarrow> uint t \<le> 255 \<Longrightarrow> applied [''-ttl'', to_string (uint t)] (upd (\<lambda>P. P\<lparr>fake_packets_ttl := t\<rparr>))"
  "0 \<le> sint v \<Longrightarrow> sint v \<le> 14 \<Longrightarrow> applied [''-wsfactor'', to_string (sint v)] (upd (\<lambda>P. P\<lparr>window_scale_factor := v\<rparr>))"
proof -
  show "1 \<le> n \<Longrightarrow> n \<le> 65535 \<Longrightarrow> applied [''-builtin-dns'', ''-builtin-dns-ip'', s, ''-builtin-dns-port'', to_string n]
     (upd (\<lambda>P. P\<lparr>builtin_dns := True, builtin_dns_ip := s, builtin_dns_port := n\<rparr>))"
    by (simp add: applied_def getopt_words option_step_def more_options_def set_profile_def checked_def upd_def atoi_to_string)
  show "applied [''-wsize'', to_string (uint w)] (upd (\<lambda>P. P\<lparr>window_size := w\<rparr>))" if "w \<noteq> 0"
  proof -
    have "u16_in 1 65535 w" using that unat_u16 [of w] by (simp add: u16_in_def unat_gt_0 Suc_le_eq)
    then show ?thesis by (simp add: applied_def getopt_words option_step_def set_profile_def checked_def upd_def u16_to_string)
  qed
  show "applied [''-ttl'', to_string (uint t)] (upd (\<lambda>P. P\<lparr>fake_packets_ttl := t\<rparr>))" if "t \<noteq> 0" "uint t \<le> 255"
  proof -
    have "unat t \<le> 255" using that(2) unfolding uint_nat by linarith
    then have "u16_in 1 255 t" using that(1) by (simp add: u16_in_def unat_gt_0 Suc_le_eq)
    then show ?thesis by (simp add: applied_def getopt_words option_step_def set_profile_def checked_def upd_def u16_to_string)
  qed
  show "applied [''-wsfactor'', to_string (sint v)] (upd (\<lambda>P. P\<lparr>window_scale_factor := v\<rparr>))" if "0 \<le> sint v" "sint v \<le> 14"
    using that by (simp add: applied_def getopt_words option_step_def more_options_def set_profile_def checked_def upd_def atoi_to_string)
qed

definition with_attacks :: "Profile_s \<Rightarrow> Profile_s \<Rightarrow> Profile_s" where
  "with_attacks P Q = Q\<lparr>desync_attacks := True,
     desync_zero_attack := (if desync_zero_attack P = DESYNC_ZERO_NONE then desync_zero_attack Q else desync_zero_attack P),
     desync_first_attack := (if desync_first_attack P = DESYNC_FIRST_NONE then desync_first_attack Q else desync_first_attack P)\<rparr>"

lemma attack_words:
  assumes "desync_zero_attack P \<noteq> DESYNC_ZERO_NONE \<or> desync_first_attack P \<noteq> DESYNC_FIRST_NONE"
  shows "attack_names (split_on (CHR '','') [] (attack_list P)) (Q\<lparr>desync_attacks := True\<rparr>) = Some (with_attacks P Q)"
  using assms
  by (cases "desync_zero_attack P"; cases "desync_first_attack P")
    (simp_all add: attack_list_def ZERO_ATTACKS_NAMES_def FIRST_ATTACKS_NAMES_def attack_name_def with_attacks_def)

lemma applied_attacks:
  assumes "desync_zero_attack P \<noteq> DESYNC_ZERO_NONE \<or> desync_first_attack P \<noteq> DESYNC_FIRST_NONE"
  shows "applied [''-desync-attacks'', attack_list P] (upd (with_attacks P))"
  using attack_words [OF assms] by (simp add: applied_def getopt_words option_step_def set_desync_def upd_def)

section \<open>The options of a profile\<close>

definition showable :: "Profile_s \<Rightarrow> bool" where
  "showable P = (1 \<le> builtin_dns_port P \<and> builtin_dns_port P \<le> 65535 \<and> uint (fake_packets_ttl P) \<le> 255
     \<and> (window_scale_factor P = - 1 \<or> 0 \<le> sint (window_scale_factor P) \<and> sint (window_scale_factor P) \<le> 14))"

definition after_options :: "Settings_perst_s \<Rightarrow> Profile_s \<Rightarrow> bool \<Rightarrow> cmd_state \<Rightarrow> cmd_state" where
  "after_options S P is_https =
     (if desync_zero_attack P \<noteq> DESYNC_ZERO_NONE \<or> desync_first_attack P \<noteq> DESYNC_FIRST_NONE then upd (with_attacks P) else id)
     \<circ> (if is_https then set_ca (ca_bundle_path S) else id)
     \<circ> (if wrong_seq P then upd (\<lambda>Q. Q\<lparr>wrong_seq := True\<rparr>) else id)
     \<circ> (if fake_packets_ttl P \<noteq> 0 then upd (\<lambda>Q. Q\<lparr>fake_packets_ttl := fake_packets_ttl P\<rparr>) else id)
     \<circ> (if window_scale_factor P \<noteq> - 1 then upd (\<lambda>Q. Q\<lparr>window_scale_factor := window_scale_factor P\<rparr>) else id)
     \<circ> (if window_size P \<noteq> 0 then upd (\<lambda>Q. Q\<lparr>window_size := window_size P\<rparr>) else id)
     \<circ> (if split_at_sni P then upd (\<lambda>Q. Q\<lparr>split_at_sni := True\<rparr>) else id)
     \<circ> upd (\<lambda>Q. Q\<lparr>doh := True, doh_server := doh_server P\<rparr>)
     \<circ> (if builtin_dns P then upd (\<lambda>Q. Q\<lparr>builtin_dns := True, builtin_dns_ip := builtin_dns_ip P, builtin_dns_port := builtin_dns_port P\<rparr>) else id)"

lemma applied_shown:
  assumes "showable P"
  shows "applied (shown_options S P is_https) (after_options S P is_https)"
  unfolding shown_options_def after_options_def
  by (intro applied_append applied_if applied_flags applied_numbers applied_attacks) (use assms in \<open>auto simp: showable_def\<close>)

text \<open>The profile that the options stand for: where an option is not shown, the profile has its default.\<close>

definition default_elsewhere :: "Profile_s \<Rightarrow> bool" where
  "default_elsewhere P = (\<exists>bd bip bp s sni ws wf ttl wrong z f.
     P = default_Profile\<lparr>builtin_dns := bd, builtin_dns_ip := bip, builtin_dns_port := bp, doh := True, doh_server := s,
       split_at_sni := sni, window_size := ws, window_scale_factor := wf, fake_packets_ttl := ttl, wrong_seq := wrong,
       desync_zero_attack := z, desync_first_attack := f\<rparr>
     \<and> (bd \<or> bip = builtin_dns_ip default_Profile \<and> bp = builtin_dns_port default_Profile)
     \<and> (z \<noteq> DESYNC_ZERO_NONE \<or> f \<noteq> DESYNC_FIRST_NONE))"

lemma upd_fields:
  "cur_name (upd f st) = cur_name st" "settings (upd f st) = settings st" "profile (upd f st) = f (profile st)"
  by (simp_all add: upd_def)

lemma optional_fields:
  "cur_name ((if b then upd f else id) st) = cur_name st"
  "settings ((if b then upd f else id) st) = settings st"
  "profile ((if b then upd f else id) st) = (if b then f else id) (profile st)"
  by (simp_all add: upd_def)

lemma optional_updates:
  "(if b then (\<lambda>Q. Q\<lparr>wrong_seq := True\<rparr>) else id) Q = Q\<lparr>wrong_seq := b \<or> wrong_seq Q\<rparr>"
  "(if b then (\<lambda>Q. Q\<lparr>split_at_sni := True\<rparr>) else id) Q = Q\<lparr>split_at_sni := b \<or> split_at_sni Q\<rparr>"
  "(if t \<noteq> 0 then (\<lambda>Q. Q\<lparr>fake_packets_ttl := t\<rparr>) else id) Q = Q\<lparr>fake_packets_ttl := (if t \<noteq> 0 then t else fake_packets_ttl Q)\<rparr>"
  "(if w \<noteq> - 1 then (\<lambda>Q. Q\<lparr>window_scale_factor := w\<rparr>) else id) Q = Q\<lparr>window_scale_factor := (if w \<noteq> - 1 then w else window_scale_factor Q)\<rparr>"
  "(if v \<noteq> 0 then (\<lambda>Q. Q\<lparr>window_size := v\<rparr>) else id) Q = Q\<lparr>window_size := (if v \<noteq> 0 then v else window_size Q)\<rparr>"
  "(if b then (\<lambda>Q. Q\<lparr>builtin_dns := True, builtin_dns_ip := bip, builtin_dns_port := bp\<rparr>) else id) Q
     = Q\<lparr>builtin_dns := b \<or> builtin_dns Q, builtin_dns_ip := (if b then bip else builtin_dns_ip Q), builtin_dns_port := (if b then bp else builtin_dns_port Q)\<rparr>"
  by simp_all

lemma set_ca_fields:
  "cur_name ((if b then set_ca s else id) st) = cur_name st" "profile ((if b then set_ca s else id) st) = profile st"
  "ca_bundle_path (settings (set_ca s st)) = s"
  by (simp_all add: set_ca_def)

lemma after_options_name: "cur_name (after_options S P is_https st) = cur_name st"
  unfolding after_options_def comp_apply by (simp only: upd_fields optional_fields set_ca_fields)

lemma after_options_ca: "is_https \<Longrightarrow> ca_bundle_path (settings (after_options S P is_https st)) = ca_bundle_path S"
  unfolding after_options_def comp_apply by (simp only: optional_fields set_ca_fields if_True)

lemma after_options_profile:
  assumes "default_elsewhere P"
  shows "profile (after_options S P is_https initial_cmd_state) = P\<lparr>desync_attacks := True\<rparr>"
proof -
  obtain bd bip bp s sni ws wf ttl wrong z f where
    P: "P = default_Profile\<lparr>builtin_dns := bd, builtin_dns_ip := bip, builtin_dns_port := bp, doh := True, doh_server := s,
       split_at_sni := sni, window_size := ws, window_scale_factor := wf, fake_packets_ttl := ttl, wrong_seq := wrong,
       desync_zero_attack := z, desync_first_attack := f\<rparr>"
    and bd: "bd \<or> bip = builtin_dns_ip default_Profile \<and> bp = builtin_dns_port default_Profile"
    and zf: "z \<noteq> DESYNC_ZERO_NONE \<or> f \<noteq> DESYNC_FIRST_NONE"
    using assms unfolding default_elsewhere_def by blast
  have a: "desync_zero_attack P \<noteq> DESYNC_ZERO_NONE \<or> desync_first_attack P \<noteq> DESYNC_FIRST_NONE" using zf by (simp add: P)
  show ?thesis
    unfolding after_options_def comp_apply upd_fields optional_fields set_ca_fields optional_updates if_P [OF a]
    using bd by (auto simp: P with_attacks_def initial_cmd_state_def default_Profile_def)
qed

lemma options_stand_for:
  assumes "showable P" "default_elsewhere P"
  shows "\<exists>st. parse_cmdline (getopt_long_only (shown_options S P is_https)) = Next st \<and> active st = P\<lparr>desync_attacks := True\<rparr>
    \<and> (is_https \<longrightarrow> ca_bundle_path (settings st) = ca_bundle_path S)"
proof -
  let ?st = "after_options S P is_https initial_cmd_state"
  have run: "parse_cmdline (getopt_long_only (shown_options S P is_https)) = option_loop [] ?st"
    using applied_shown [OF assms(1), unfolded applied_def, rule_format, of S is_https "[]" initial_cmd_state]
    by (simp add: parse_cmdline_def)
  show ?thesis unfolding run using after_options_name [of S P is_https initial_cmd_state] after_options_profile [OF assms(2)] after_options_ca
    by (simp add: initial_cmd_state_def)
qed

section \<open>What the search ends with\<close>

text \<open>A profile of the search: that of a combination, with a TTL of one byte.\<close>

definition searched :: "Profile_s \<Rightarrow> bool" where
  "searched P = (\<exists>server builtin z f t ttl w. P = attempt_profile server builtin z f t ttl w \<and> uint ttl \<le> 255
     \<and> f \<noteq> DESYNC_FIRST_NONE)"

lemma searched_shows:
  assumes "searched P"
  shows "showable P" "default_elsewhere P"
proof -
  obtain server builtin z f t ttl w where P: "P = attempt_profile server builtin z f t ttl w" and ttl: "uint ttl \<le> 255" and f: "f \<noteq> DESYNC_FIRST_NONE"
    using assms unfolding searched_def by blast
  show "showable P" using ttl by (cases t) (simp_all add: P attempt_profile_def Let_def showable_def default_Profile_def)
  have "P = default_Profile\<lparr>builtin_dns := builtin, builtin_dns_ip := builtin_dns_ip default_Profile,
      builtin_dns_port := builtin_dns_port default_Profile, doh := True, doh_server := server, split_at_sni := False,
      window_size := (if w then 1 else 0), window_scale_factor := (if w then 6 else - 1),
      fake_packets_ttl := (if t = Fake_ttl then ttl else 0), wrong_seq := (t = Fake_wrong_seq),
      desync_zero_attack := z, desync_first_attack := f\<rparr>"
    by (cases t; cases w; cases builtin) (simp_all add: P attempt_profile_def Let_def default_Profile_def)
  then show "default_elsewhere P" unfolding default_elsewhere_def using f by blast
qed

lemma searched_ttl: "searched P \<Longrightarrow> fake_packets_ttl P \<noteq> 0 \<Longrightarrow> uint ttl \<le> 255 \<Longrightarrow> searched (P\<lparr>fake_packets_ttl := ttl\<rparr>)"
proof -
  assume P: "searched P" "fake_packets_ttl P \<noteq> 0" "uint ttl \<le> 255"
  then obtain server builtin z f t ttl' w where a: "P = attempt_profile server builtin z f t ttl' w" "f \<noteq> DESYNC_FIRST_NONE"
    unfolding searched_def by blast
  have "t = Fake_ttl" using a(1) P(2) by (cases t) (simp_all add: attempt_profile_def Let_def default_Profile_def split: if_splits)
  then have "P\<lparr>fake_packets_ttl := ttl\<rparr> = attempt_profile server builtin z f Fake_ttl ttl w"
    by (simp add: a(1) attempt_profile_def Let_def)
  then show ?thesis using P(3) a(2) unfolding searched_def by blast
qed

lemma uint_prev: "1 \<le> uint ttl \<Longrightarrow> uint (ttl - 1 :: u16) = uint ttl - 1"
  by (subst uint_sub_lem [THEN iffD1]) simp_all

lemma minimum_ttl_range:
  "m < 65535 \<Longrightarrow> hoare (\<lambda>h. 1 \<le> uint ttl \<and> uint ttl \<le> m + 1 \<and> (uint ttl = 1 \<longrightarrow> r = -1) \<and> 1 \<le> m)
     (minimum_ttl k test m ttl r) (\<lambda>t h. 1 \<le> uint t \<and> uint t \<le> m) (\<lambda>_ _. True)"
proof (induction k arbitrary: ttl r)
  case 0
  then show ?case by (simp add: hoare_def wp_simps)
next
  case (Suc k)
  show ?case
  proof (rule hoareI)
    fix h
    assume a: "1 \<le> uint ttl \<and> uint ttl \<le> m + 1 \<and> (uint ttl = 1 \<longrightarrow> r = -1) \<and> 1 \<le> m"
    show "wp (minimum_ttl (Suc k) test m ttl r) (\<lambda>t h. 1 \<le> uint t \<and> uint t \<le> m) (\<lambda>_ _. True) h"
    proof (cases "uint ttl \<le> m \<and> r = -1")
      case True
      have u: "uint (ttl + 1) = uint ttl + 1" using uint_next [of ttl] True Suc.prems by simp
      have IH: "wp (minimum_ttl k test m (ttl + 1) r') (\<lambda>t h. 1 \<le> uint t \<and> uint t \<le> m) (\<lambda>_ _. True) h'" for r' h'
        by (rule hoareD [OF Suc.IH [OF Suc.prems]]) (use a True u in simp)
      have "minimum_ttl (Suc k) test m ttl r = bnd (test ttl) (\<lambda>r. bnd (if r \<noteq> -1 then worst_of 3 (test ttl) r else ret r)
          (\<lambda>r. minimum_ttl k test m (ttl + 1) r))" using True by simp
      then show ?thesis by (simp only:) (rule wp_any, rule wp_any, rule IH)
    next
      case False
      then show ?thesis using a uint_prev [of ttl] by (auto simp: wp_basic)
    qed
  qed
qed

definition shows_tested :: "Settings_perst_s \<Rightarrow> bool \<Rightarrow> (Profile_s \<times> string list) option \<Rightarrow> bool" where
  "shows_tested S is_https r = (case r of None \<Rightarrow> True | Some (P, ws) \<Rightarrow> searched P \<and> ws = shown_options S P is_https)"

lemma show_options_tested:
  assumes "searched P"
  shows "wp (show_configured_options k test S P is_https) (\<lambda>c h. shows_tested S is_https (Some c)) (\<lambda>_ _. True) h"
proof (cases "fake_packets_ttl P = 0")
  case True
  then show ?thesis using assms by (simp add: show_configured_options_def wp_basic shows_tested_def)
next
  case False
  have small: "uint (fake_packets_ttl P) \<le> 255" using searched_shows(1) [OF assms] by (simp add: showable_def)
  have "1 \<le> uint (fake_packets_ttl P)" using False uint_ge_0 [of "fake_packets_ttl P"] by (simp add: word_neq_0_conv word_less_def)
  then have "wp (minimum_ttl k (\<lambda>ttl. test (P\<lparr>fake_packets_ttl := ttl\<rparr>)) (uint (fake_packets_ttl P)) 1 (-1))
      (\<lambda>t h. 1 \<le> uint t \<and> uint t \<le> uint (fake_packets_ttl P)) (\<lambda>_ _. True) h"
    by (intro hoareD [OF minimum_ttl_range]) (use small in simp_all)
  then have "wp (minimum_ttl k (\<lambda>ttl. test (P\<lparr>fake_packets_ttl := ttl\<rparr>)) (uint (fake_packets_ttl P)) 1 (-1))
      (\<lambda>t h. searched (P\<lparr>fake_packets_ttl := t\<rparr>)) (\<lambda>_ _. True) h"
    by (rule wp_mono) (use searched_ttl [OF assms False] small in auto)
  then show ?thesis using False by (simp add: show_configured_options_def wp_bnd_ret shows_tested_def)
qed

lemma wrapper_tested:
  assumes "searched P"
  shows "wp (test_desync_attack_wrapper k test S P is_https) (\<lambda>c h. shows_tested S is_https c) (\<lambda>_ _. True) h"
proof -
  have n: "shows_tested S is_https None" by (simp add: shows_tested_def)
  have s: "wp (bnd (show_configured_options k test S P is_https) (\<lambda>c. ret (Some c))) (\<lambda>c h. shows_tested S is_https c) (\<lambda>_ _. True) h" for h
    using show_options_tested [OF assms] by (simp add: wp_bnd_ret)
  show ?thesis unfolding test_desync_attack_wrapper_def
    by (rule wp_any) (use n s in \<open>simp add: wp_choice wp_basic wp_any\<close>)
qed

lemma try_each_tested:
  assumes "\<And>P h. searched P \<Longrightarrow> wp (try P) (\<lambda>c h. shows_tested S is_https c) (\<lambda>_ _. True) h"
    and "uint ttl \<le> 255" "\<forall>(z, f, t, w)\<in>set cs. f \<noteq> DESYNC_FIRST_NONE"
  shows "wp (try_each try server builtin ttl cs) (\<lambda>c h. shows_tested S is_https c) (\<lambda>_ _. True) h"
  using assms(3)
proof (induction cs arbitrary: h)
  case Nil
  then show ?case by (simp add: wp_basic shows_tested_def)
next
  case (Cons c cs h)
  obtain z f t w where c: "c = (z, f, t, w)" by (metis prod_cases4)
  have "searched (attempt_profile server builtin z f t ttl w)"
    using Cons.prems assms(2) unfolding searched_def c by fastforce
  then have t: "wp (try (attempt_profile server builtin z f t ttl w)) (\<lambda>c h. shows_tested S is_https c) (\<lambda>_ _. True) h" by (rule assms(1))
  have IH: "wp (try_each try server builtin ttl cs) (\<lambda>c h. shows_tested S is_https c) (\<lambda>_ _. True) h'" for h'
    using Cons by simp
  show ?case unfolding c try_each.simps wp_bnd
    by (rule wp_mono [OF t]) (use IH in \<open>auto simp: wp_basic split: option.splits\<close>)
qed

lemma combinations_first: "\<forall>(z, f, t, w)\<in>set combinations. f \<noteq> DESYNC_FIRST_NONE"
  by (auto simp: combinations_def)

text \<open>C10: The options that the search prints, read back as a command line, give the profile that the search has tested,
  with the attacks on, and the bundle of certificates of an https site.\<close>

theorem found_options_roundtrip:
  assumes "try_each (\<lambda>P. test_desync_attack_wrapper k test S P is_https) server builtin ttl combinations h
      = (Inr (Some (P', words)), h')" "uint ttl \<le> 255"
  shows "\<exists>st. parse_cmdline (getopt_long_only words) = Next st \<and> active st = P'\<lparr>desync_attacks := True\<rparr>
    \<and> (is_https \<longrightarrow> ca_bundle_path (settings st) = ca_bundle_path S)"
proof -
  have "wp (try_each (\<lambda>P. test_desync_attack_wrapper k test S P is_https) server builtin ttl combinations)
      (\<lambda>c h. shows_tested S is_https c) (\<lambda>_ _. True) h"
    by (rule try_each_tested [OF wrapper_tested assms(2) combinations_first])
  then have "searched P'" "words = shown_options S P' is_https" using assms(1) by (simp_all add: wp_def shows_tested_def)
  then show ?thesis using options_stand_for searched_shows by simp
qed

text \<open>Every attempt works: the first combination is shown, with the TTL 1.\<close>

definition first_found :: Profile_s where
  "first_found = (attempt_profile ''https://dns.example/dns-query'' False DESYNC_ZERO_NONE DESYNC_FIRST_DISORDER_FAKE Fake_ttl 1 False)"

lemma found_options_roundtrip_witness:
  "\<exists>st. parse_cmdline (getopt_long_only (shown_options default_Settings first_found True)) = Next st
    \<and> active st = first_found\<lparr>desync_attacks := True\<rparr>
    \<and> (True \<longrightarrow> ca_bundle_path (settings st) = ca_bundle_path default_Settings)"
proof (rule found_options_roundtrip)
  show "try_each (\<lambda>P. test_desync_attack_wrapper 3 (\<lambda>P. ret 0) default_Settings P True) ''https://dns.example/dns-query'' False 3 combinations []
      = (Inr (Some (first_found, shown_options default_Settings first_found True)), [])"
    by code_simp
qed simp

end
