(* ===== verification/Netattr.thy ===== *)
theory Netattr
  imports Os
begin

text \<open>
  The netlink message format, as \<open>netiface.cpp\<close> walks over it with the RTA macros and as \<open>libnl\<close>
  (\<open>attr.c\<close>, \<open>msg.c\<close> and \<open>genl/genl.c\<close>) builds and parses it for that file. A pointer into a message is its
  offset in the bytes of the buffer; a read outside of the buffer is the value None. Fields are in
  the byte order of the host, which is little endian here.
\<close>

section \<open>Fields\<close>

definition byte_at :: "bytes \<Rightarrow> nat \<Rightarrow> nat option" where
  "byte_at b i = (if i < length b then Some (unat (b ! i)) else None)"

definition le16_at :: "bytes \<Rightarrow> nat \<Rightarrow> nat option" where
  "le16_at b i = (if i + 2 \<le> length b then Some (unat (b ! i) + 256 * unat (b ! (i + 1))) else None)"

definition le32_at :: "bytes \<Rightarrow> nat \<Rightarrow> nat option" where
  "le32_at b i = (if i + 4 \<le> length b
     then Some (unat (b ! i) + 256 * (unat (b ! (i + 1)) + 256 * (unat (b ! (i + 2)) + 256 * unat (b ! (i + 3))))) else None)"

definition le16 :: "nat \<Rightarrow> bytes" where
  "le16 v = [word_of_nat v, word_of_nat (v div 256)]"

definition le32 :: "nat \<Rightarrow> bytes" where
  "le32 v = [word_of_nat v, word_of_nat (v div 256), word_of_nat (v div 65536), word_of_nat (v div 16777216)]"

text \<open>\<open>NLMSG_ALIGN\<close>, \<open>NLA_ALIGN\<close> and \<open>RTA_ALIGN\<close>.\<close>

definition align4 :: "nat \<Rightarrow> nat" where
  "align4 n = (n + 3) div 4 * 4"

definition overwrite_at :: "nat \<Rightarrow> bytes \<Rightarrow> bytes \<Rightarrow> bytes" where
  "overwrite_at i d b = take i b @ d @ drop (i + length d) b"

lemma align4_bounds [simp]: "n \<le> align4 n" "align4 n < n + 4" "align4 (align4 n) = align4 n"
  by (auto simp: align4_def)

lemma lengths_le [simp]: "length (le16 v) = 2" "length (le32 v) = 4"
  by (simp_all add: le16_def le32_def)

lemma unat_byte_mod: "unat (word_of_nat n :: byte) = n mod 256"
  by (simp add: unat_of_nat)

lemma le16_at_le16:
  assumes "v < 65536" "length pre = i"
  shows "le16_at (pre @ le16 v @ post) i = Some v"
  using assms by (simp add: le16_at_def le16_def nth_append unat_byte_mod)

lemma le32_at_le32:
  assumes "v < 2 ^ 32" "length pre = i"
  shows "le32_at (pre @ le32 v @ post) i = Some v"
proof -
  have d: "v div 65536 = v div 256 div 256" "v div 16777216 = v div 256 div 256 div 256"
    by (simp_all only: div_mult2_eq [symmetric], simp_all)
  have "v div 256 div 256 div 256 < 256" using assms(1) by (simp add: div_mult2_eq [symmetric] less_mult_imp_div_less)
  then show ?thesis using assms(2)
    by (simp add: le32_at_def le32_def nth_append unat_byte_mod d add.assoc)
qed

section \<open>The attributes\<close>

text \<open>The loop of \<open>parse_rtattr\<close> and of \<open>nla_for_each_attr\<close>: \<open>RTA_OK\<close> and \<open>nla_ok\<close> end it, \<open>RTA_NEXT\<close> and
  \<open>nla_next\<close> advance it. The body gets the offset, the length and the type of an attribute.\<close>

definition nla_ok :: "nat \<Rightarrow> int \<Rightarrow> bool" where
  "nla_ok nla_len rem = (4 \<le> rem \<and> 4 \<le> nla_len \<and> int nla_len \<le> rem)"

function each_attr :: "bytes \<Rightarrow> (nat \<Rightarrow> nat \<Rightarrow> nat \<Rightarrow> 'a \<Rightarrow> 'e + 'a) \<Rightarrow> nat \<Rightarrow> int \<Rightarrow> 'a \<Rightarrow> ('e + 'a) option" where
  "each_attr b body nla rem acc =
     (if rem < 4 then Some (Inr acc)
      else case (le16_at b nla, le16_at b (nla + 2)) of
        (Some n, Some t) \<Rightarrow>
          if \<not> nla_ok n rem then Some (Inr acc)
          else (case body nla n t acc of
            Inl e \<Rightarrow> Some (Inl e)
          | Inr acc' \<Rightarrow> each_attr b body (nla + align4 n) (rem - int (align4 n)) acc')
      | _ \<Rightarrow> None)"
  by pat_completeness auto
termination
  by (relation "measure (\<lambda>(b, body, nla, rem, acc). nat rem)") (auto simp: nla_ok_def align4_def)

declare each_attr.simps [simp del]

type_synonym index = "nat \<Rightarrow> nat option"

definition parse_rtattr :: "bytes \<Rightarrow> nat \<Rightarrow> nat \<Rightarrow> int \<Rightarrow> index option" where
  "parse_rtattr b max_type rta len =
     map_option (case_sum (\<lambda>e :: unit. Map.empty) id)
       (each_attr b (\<lambda>nla n t tb. Inr (if t \<le> max_type then tb(t \<mapsto> nla) else tb)) rta len Map.empty)"

text \<open>\<open>nla_type\<close>, \<open>nla_len\<close> and \<open>nla_data\<close> of \<open>attr.c\<close>.\<close>

definition nla_type :: "nat \<Rightarrow> nat" where
  "nla_type t = t mod 16384"

definition nla_len :: "bytes \<Rightarrow> nat \<Rightarrow> int option" where
  "nla_len b nla = map_option (\<lambda>n. int n - 4) (le16_at b nla)"

definition nla_data :: "nat \<Rightarrow> nat" where
  "nla_data nla = nla + 4"

datatype nla_kind = NLA_UNSPEC | NLA_U8 | NLA_U16 | NLA_U32 | NLA_U64 | NLA_STRING | NLA_FLAG

fun nla_attr_minlen :: "nla_kind \<Rightarrow> int" where
  "nla_attr_minlen NLA_U8 = 1"
| "nla_attr_minlen NLA_U16 = 2"
| "nla_attr_minlen NLA_U32 = 4"
| "nla_attr_minlen NLA_U64 = 8"
| "nla_attr_minlen NLA_STRING = 1"
| "nla_attr_minlen _ = 0"

record nla_policy =
  p_type :: nla_kind
  p_minlen :: nat
  p_maxlen :: nat

definition no_policy :: nla_policy where
  "no_policy = \<lparr>p_type = NLA_UNSPEC, p_minlen = 0, p_maxlen = 0\<rparr>"

definition NLE_RANGE :: int where "NLE_RANGE = 8"
definition NLE_INVAL :: int where "NLE_INVAL = 7"

definition validate_nla :: "bytes \<Rightarrow> nat \<Rightarrow> nat \<Rightarrow> nat \<Rightarrow> nat \<Rightarrow> (nat \<Rightarrow> nla_policy) \<Rightarrow> int option" where
  "validate_nla b nla n t maxtype policy =
     (let type = nla_type t; pt = policy type; len = int n - 4;
          minlen = (if p_minlen pt \<noteq> 0 then int (p_minlen pt)
                    else if p_type pt \<noteq> NLA_UNSPEC then nla_attr_minlen (p_type pt) else 0)
      in if maxtype < type then Some 0
         else if len < minlen then Some (- NLE_RANGE)
         else if p_maxlen pt \<noteq> 0 \<and> int (p_maxlen pt) < len then Some (- NLE_RANGE)
         else if p_type pt = NLA_STRING then
           (case byte_at b (nat (int (nla_data nla) + len - 1)) of
              None \<Rightarrow> None
            | Some c \<Rightarrow> Some (if c \<noteq> 0 then - NLE_INVAL else 0))
         else Some 0)"

text \<open>The error of a body is a negative result, or None where it reads outside of the buffer.\<close>

definition nla_parse :: "bytes \<Rightarrow> nat \<Rightarrow> nat \<Rightarrow> int \<Rightarrow> (nat \<Rightarrow> nla_policy) option \<Rightarrow> (int option + index) option" where
  "nla_parse b maxtype head len policy =
     each_attr b (\<lambda>nla n t tb.
       let type = nla_type t in
       if maxtype < type then Inr tb
       else case policy of
         None \<Rightarrow> Inr (tb(type \<mapsto> nla))
       | Some p \<Rightarrow> (case validate_nla b nla n t maxtype p of
           None \<Rightarrow> Inl None
         | Some err \<Rightarrow> if err < 0 then Inl (Some err) else Inr (tb(type \<mapsto> nla)))) head len Map.empty"

definition nla_parse_nested :: "bytes \<Rightarrow> nat \<Rightarrow> nat \<Rightarrow> (nat \<Rightarrow> nla_policy) option \<Rightarrow> (int option + index) option" where
  "nla_parse_nested b maxtype nla policy = (case nla_len b nla of
     None \<Rightarrow> None
   | Some len \<Rightarrow> nla_parse b maxtype (nla_data nla) len policy)"

definition nla_get_u32 :: "bytes \<Rightarrow> nat \<Rightarrow> nat option" where
  "nla_get_u32 b nla = le32_at b (nla_data nla)"

section \<open>Building a message\<close>

text \<open>A message is its buffer of \<open>nm_size\<close> bytes; \<open>nlmsg_len\<close> is the first field of its header.\<close>

definition nlmsg_alloc :: "nat \<Rightarrow> bytes" where
  "nlmsg_alloc len = overwrite_at 0 (le32 16) (replicate (max len 16) 0)"

definition nlmsg_len :: "bytes \<Rightarrow> nat" where
  "nlmsg_len m = the (le32_at m 0)"

definition nlmsg_reserve :: "bytes \<Rightarrow> nat \<Rightarrow> (nat \<times> bytes) option" where
  "nlmsg_reserve m len =
     (let tlen = align4 len; n = nlmsg_len m
      in if length m < len \<or> length m < tlen + n then None
         else Some (n, overwrite_at 0 (le32 (n + tlen)) (overwrite_at (n + len) (replicate (tlen - len) 0) m)))"

text \<open>The message is changed also when a call returns NULL, the first component.\<close>

definition nlmsg_put :: "bytes \<Rightarrow> nat \<Rightarrow> nat \<Rightarrow> nat \<Rightarrow> nat \<Rightarrow> nat \<Rightarrow> bool \<times> bytes" where
  "nlmsg_put m pid seqno type payload flags =
     (let m = overwrite_at 12 (le32 pid) (overwrite_at 8 (le32 seqno) (overwrite_at 6 (le16 flags) (overwrite_at 4 (le16 type) m)))
      in if 0 < payload then (case nlmsg_reserve m payload of None \<Rightarrow> (False, m) | Some (p, m) \<Rightarrow> (True, m)) else (True, m))"

definition genlmsg_put :: "bytes \<Rightarrow> nat \<Rightarrow> nat \<Rightarrow> nat \<Rightarrow> nat \<Rightarrow> nat \<Rightarrow> byte \<Rightarrow> byte \<Rightarrow> bool \<times> bytes" where
  "genlmsg_put m port seqno family hdrlen flags cmd version =
     (case nlmsg_put m port seqno family (4 + hdrlen) flags of
        (ok, m) \<Rightarrow> if ok then (True, overwrite_at 16 [cmd, version, 0, 0] m) else (False, m))"

definition nla_total_size :: "nat \<Rightarrow> nat" where
  "nla_total_size payload = align4 (4 + payload)"

definition nla_padlen :: "nat \<Rightarrow> nat" where
  "nla_padlen payload = nla_total_size payload - (4 + payload)"

definition nla_reserve :: "bytes \<Rightarrow> nat \<Rightarrow> nat \<Rightarrow> (nat \<times> bytes) option" where
  "nla_reserve m attrtype attrlen =
     (let nla = align4 (nlmsg_len m); tlen = nla + nla_total_size attrlen
      in if length m < tlen then None
         else let m = overwrite_at nla (le16 (4 + attrlen) @ le16 attrtype) m;
                  m = (if attrlen \<noteq> 0 then overwrite_at (nla + (4 + attrlen)) (replicate (nla_padlen attrlen) 0) m else m)
              in Some (nla, overwrite_at 0 (le32 tlen) m))"

definition nla_put :: "bytes \<Rightarrow> nat \<Rightarrow> bytes \<Rightarrow> bytes option" where
  "nla_put m attrtype data =
     (case nla_reserve m attrtype (length data) of
        None \<Rightarrow> None
      | Some (nla, m) \<Rightarrow> Some (if 0 < length data then overwrite_at (nla_data nla) data m else m))"

definition nla_put_u32 :: "bytes \<Rightarrow> nat \<Rightarrow> nat \<Rightarrow> bytes option" where
  "nla_put_u32 m attrtype value = nla_put m attrtype (le32 value)"

section \<open>Attribute streams\<close>

text \<open>A stream as \<open>nla_put\<close> and the kernel write it: each attribute is padded to a multiple of four.\<close>

definition attr_image :: "nat \<times> bytes \<Rightarrow> bytes" where
  "attr_image = (\<lambda>(t, d). le16 (4 + length d) @ le16 t @ d @ replicate (nla_padlen (length d)) 0)"

definition attrs_image :: "(nat \<times> bytes) list \<Rightarrow> bytes" where
  "attrs_image as = concat (map attr_image as)"

definition attr_ok :: "nat \<times> bytes \<Rightarrow> bool" where
  "attr_ok a = (fst a < 16384 \<and> 4 + length (snd a) < 65536)"

lemma length_attr_image [simp]: "length (attr_image (t, d)) = align4 (4 + length d)"
  using align4_bounds(1) [of "4 + length d"] by (simp add: attr_image_def nla_padlen_def nla_total_size_def del: align4_bounds)

text \<open>The body over the attributes of a stream that starts at the offset \<open>p\<close>.\<close>

fun over_attrs :: "(nat \<Rightarrow> nat \<Rightarrow> nat \<Rightarrow> 'a \<Rightarrow> 'e + 'a) \<Rightarrow> nat \<Rightarrow> (nat \<times> bytes) list \<Rightarrow> 'a \<Rightarrow> 'e + 'a" where
  "over_attrs body p [] acc = Inr acc"
| "over_attrs body p ((t, d) # as) acc = (case body p (4 + length d) t acc of
     Inl e \<Rightarrow> Inl e
   | Inr acc' \<Rightarrow> over_attrs body (p + align4 (4 + length d)) as acc')"

lemma each_attr_image:
  assumes "\<forall>a\<in>set as. attr_ok a" "b = pre @ attrs_image as @ post" "length pre = p"
  shows "each_attr b body p (int (length (attrs_image as))) acc = Some (over_attrs body p as acc)"
  using assms
proof (induction as arbitrary: pre p acc)
  case Nil
  then show ?case by (subst each_attr.simps) (simp add: attrs_image_def)
next
  case (Cons a as)
  obtain t d where a: "a = (t, d)" by (cases a)
  let ?n = "4 + length d" and ?rest = "attrs_image as @ post"
  have b: "b = pre @ attr_image a @ ?rest" using Cons.prems(2) by (simp add: attrs_image_def)
  have ok: "t < 16384" "?n < 65536" using Cons.prems(1) by (simp_all add: a attr_ok_def)
  have n: "le16_at b p = Some ?n"
    unfolding b a attr_image_def using le16_at_le16 [OF ok(2) Cons.prems(3)] by simp
  have t: "le16_at b (p + 2) = Some t"
    using le16_at_le16 [of t "pre @ le16 ?n" "p + 2" "d @ replicate (nla_padlen (length d)) 0 @ ?rest"] ok(1) Cons.prems(3)
    unfolding b a attr_image_def by simp
  have len: "int (length (attrs_image (a # as))) = int (align4 ?n) + int (length (attrs_image as))"
    by (simp add: attrs_image_def a)
  have nok: "nla_ok ?n (int (length (attrs_image (a # as))))" unfolding len nla_ok_def using align4_bounds(1) [of ?n] by linarith
  have IH: "each_attr b body (p + align4 ?n) (int (length (attrs_image as))) acc' = Some (over_attrs body (p + align4 ?n) as acc')" for acc'
    using Cons.IH [of "pre @ attr_image a" "p + align4 ?n"] Cons.prems(1,3) b a by simp
  have "\<not> int (length (attrs_image (a # as))) < 4" using nok by (simp add: nla_ok_def)
  then have "each_attr b body p (int (length (attrs_image (a # as)))) acc = (case body p ?n t acc of
      Inl e \<Rightarrow> Some (Inl e) | Inr acc' \<Rightarrow> each_attr b body (p + align4 ?n) (int (length (attrs_image (a # as))) - int (align4 ?n)) acc')"
    by (subst each_attr.simps) (simp only: n t nok if_False option.case not_True_eq_False prod.case)
  then show ?case unfolding len by (simp add: a IH split: sum.splits)
qed

text \<open>Over any bytes the loop stays inside: no read outside of the buffer, and each attribute that the body
  sees lies in the stream.\<close>

lemma each_attr_inside:
  assumes "int p + rem \<le> int (length b)" "I acc"
    and "\<And>nla n t acc. p \<le> nla \<Longrightarrow> 4 \<le> n \<Longrightarrow> int nla + int n \<le> int p + rem \<Longrightarrow> le16_at b nla = Some n \<Longrightarrow> I acc
      \<Longrightarrow> case body nla n t acc of Inl e \<Rightarrow> J e | Inr acc' \<Rightarrow> I acc'"
  shows "\<exists>r. each_attr b body p rem acc = Some r \<and> (case r of Inl e \<Rightarrow> J e | Inr acc' \<Rightarrow> I acc')"
  using assms
proof (induction b body p rem acc rule: each_attr.induct)
  case (1 b body nla rem acc)
  show ?case
  proof (cases "rem < 4")
    case False
    then obtain n t where nt: "le16_at b nla = Some n" "le16_at b (nla + 2) = Some t"
      using 1(2) by (simp add: le16_at_def)
    show ?thesis
    proof (cases "nla_ok n rem")
      case ok: True
      have body: "case body nla n t acc of Inl e \<Rightarrow> J e | Inr acc' \<Rightarrow> I acc'"
        by (rule 1(4)) (use ok nt 1(3) in \<open>simp_all add: nla_ok_def\<close>)
      show ?thesis
      proof (cases "body nla n t acc")
        case (Inl e)
        then show ?thesis using body nt ok by (subst each_attr.simps) (simp add: nla_ok_def)
      next
        case (Inr acc')
        have "\<exists>r. each_attr b body (nla + align4 n) (rem - int (align4 n)) acc' = Some r
            \<and> (case r of Inl e \<Rightarrow> J e | Inr acc' \<Rightarrow> I acc')"
        proof (rule 1(1) [OF False refl nt(1) nt(2) _ Inr])
          show "\<not> \<not> nla_ok n rem" using ok by simp
          show "I acc'" using body Inr by simp
          show "case body nla' n' t' acc'' of Inl e \<Rightarrow> J e | Inr acc' \<Rightarrow> I acc'"
            if "nla + align4 n \<le> nla'" "4 \<le> n'" "int nla' + int n' \<le> int (nla + align4 n) + (rem - int (align4 n))"
              "le16_at b nla' = Some n'" "I acc''" for nla' n' t' acc''
            by (rule 1(4)) (use that in simp_all)
        qed (use 1(2) in simp)
        then show ?thesis using nt ok Inr by (subst each_attr.simps) (simp add: nla_ok_def)
      qed
    qed (use nt False 1(3) in \<open>subst each_attr.simps, simp\<close>)
  qed (use 1(3) in \<open>subst each_attr.simps, simp\<close>)
qed

text \<open>An entry of an index points to an attribute of the stream.\<close>

definition entry_inside :: "bytes \<Rightarrow> nat \<Rightarrow> int \<Rightarrow> nat \<Rightarrow> bool" where
  "entry_inside b head len nla = (head \<le> nla \<and> (\<exists>n\<ge>4. le16_at b nla = Some n \<and> int nla + int n \<le> int head + len))"

lemma parse_rtattr_inside:
  assumes "int rta + len \<le> int (length b)"
  shows "\<exists>tb. parse_rtattr b max_type rta len = Some tb \<and> (\<forall>t nla. tb t = Some nla \<longrightarrow> t \<le> max_type \<and> entry_inside b rta len nla)"
proof -
  let ?I = "\<lambda>tb :: index. \<forall>t nla. tb t = Some nla \<longrightarrow> t \<le> max_type \<and> entry_inside b rta len nla"
  have "\<exists>r. each_attr b (\<lambda>nla n t tb. Inr (if t \<le> max_type then tb(t \<mapsto> nla) else tb)) rta len Map.empty = Some r
      \<and> (case r of Inl (e :: unit) \<Rightarrow> False | Inr tb \<Rightarrow> ?I tb)"
    by (rule each_attr_inside) (use assms in \<open>auto simp: entry_inside_def\<close>)
  then obtain r where "each_attr b (\<lambda>nla n t tb. Inr (if t \<le> max_type then tb(t \<mapsto> nla) else tb)) rta len Map.empty = Some r"
    "case r of Inl (e :: unit) \<Rightarrow> False | Inr tb \<Rightarrow> ?I tb" by blast
  then show ?thesis by (cases r) (simp_all add: parse_rtattr_def)
qed

lemma validate_nla_inside:
  assumes "4 \<le> n" "nla + n \<le> length b" "p_minlen (policy (nla_type t)) = 0"
  shows "validate_nla b nla n t maxtype policy \<noteq> None"
  using assms by (auto simp: validate_nla_def Let_def byte_at_def nla_data_def split: if_splits)

lemma nla_parse_inside:
  assumes "int head + len \<le> int (length b)" "\<forall>p t. policy = Some p \<longrightarrow> p_minlen (p t) = 0"
  shows "\<exists>r. nla_parse b maxtype head len policy = Some r \<and> r \<noteq> Inl None
    \<and> (\<forall>tb. r = Inr tb \<longrightarrow> (\<forall>t nla. tb t = Some nla \<longrightarrow> t \<le> maxtype \<and> entry_inside b head len nla))"
proof -
  let ?I = "\<lambda>tb :: index. \<forall>t nla. tb t = Some nla \<longrightarrow> t \<le> maxtype \<and> entry_inside b head len nla"
  have "\<exists>r. nla_parse b maxtype head len policy = Some r \<and> (case r of Inl e \<Rightarrow> e \<noteq> None | Inr tb \<Rightarrow> ?I tb)"
    unfolding nla_parse_def
  proof (rule each_attr_inside)
    fix nla n t and tb :: index
    assume a: "head \<le> nla" "4 \<le> n" "int nla + int n \<le> int head + len" "le16_at b nla = Some n" "?I tb"
    then have e: "entry_inside b head len nla" by (auto simp: entry_inside_def)
    have "validate_nla b nla n t maxtype p \<noteq> None" if "policy = Some p" for p
      using validate_nla_inside a(2,3) assms that by simp
    then show "case let type = nla_type t in if maxtype < type then Inr tb
        else case policy of None \<Rightarrow> Inr (tb(type \<mapsto> nla))
        | Some p \<Rightarrow> (case validate_nla b nla n t maxtype p of None \<Rightarrow> Inl None
          | Some err \<Rightarrow> if err < 0 then Inl (Some err) else Inr (tb(type \<mapsto> nla))) of
        Inl e \<Rightarrow> e \<noteq> None | Inr tb \<Rightarrow> ?I tb"
      using a(5) e by (auto simp: Let_def split: option.splits)
  qed (use assms in auto)
  then obtain r where "nla_parse b maxtype head len policy = Some r" "case r of Inl e \<Rightarrow> e \<noteq> None | Inr tb \<Rightarrow> ?I tb" by blast
  then show ?thesis by (cases r) simp_all
qed

text \<open>What the index of a stream holds: the offset of the last attribute of each type.\<close>

fun index_of :: "nat \<Rightarrow> nat \<Rightarrow> (nat \<times> bytes) list \<Rightarrow> index \<Rightarrow> index" where
  "index_of maxtype p [] tb = tb"
| "index_of maxtype p ((t, d) # as) tb =
     index_of maxtype (p + align4 (4 + length d)) as (if t \<le> maxtype then tb(t \<mapsto> p) else tb)"

lemma parse_rtattr_stream:
  assumes "\<forall>a\<in>set as. attr_ok a" "b = pre @ attrs_image as @ post" "length pre = p"
  shows "parse_rtattr b maxtype p (int (length (attrs_image as))) = Some (index_of maxtype p as Map.empty)"
proof -
  have "over_attrs (\<lambda>nla n t tb. Inr (if t \<le> maxtype then tb(t \<mapsto> nla) else tb)) p as tb
      = (Inr (index_of maxtype p as tb) :: unit + index)" for tb
    by (induction maxtype p as tb rule: index_of.induct) simp_all
  then show ?thesis unfolding parse_rtattr_def each_attr_image [OF assms] by simp
qed

definition policy_ok :: "nat \<Rightarrow> (nat \<Rightarrow> nla_policy) \<Rightarrow> nat \<times> bytes \<Rightarrow> bool" where
  "policy_ok maxtype p = (\<lambda>(t, d). maxtype < t \<or> p_minlen (p t) = 0 \<and> p_maxlen (p t) = 0 \<and> p_type (p t) \<noteq> NLA_STRING
     \<and> nla_attr_minlen (p_type (p t)) \<le> int (length d))"

lemma validate_nla_ok: "policy_ok maxtype p (t, d) \<Longrightarrow> t < 16384 \<Longrightarrow> validate_nla b nla (4 + length d) t maxtype p = Some 0"
  by (cases "p_type (p t)") (auto simp: policy_ok_def validate_nla_def nla_type_def Let_def)

lemma nla_parse_stream:
  assumes "\<forall>a\<in>set as. attr_ok a" "b = pre @ attrs_image as @ post" "length pre = p"
    and "\<forall>q a. policy = Some q \<longrightarrow> a \<in> set as \<longrightarrow> policy_ok maxtype q a"
  shows "nla_parse b maxtype p (int (length (attrs_image as))) policy = Some (Inr (index_of maxtype p as Map.empty))"
proof -
  let ?body = "\<lambda>nla n t tb. let type = nla_type t in if maxtype < type then Inr tb
        else case policy of None \<Rightarrow> Inr (tb(type \<mapsto> nla))
        | Some p \<Rightarrow> (case validate_nla b nla n t maxtype p of None \<Rightarrow> Inl None
          | Some err \<Rightarrow> if err < 0 then Inl (Some err) else Inr (tb(type \<mapsto> nla)))"
  have "over_attrs ?body p as tb = Inr (index_of maxtype p as tb)" for tb
    using assms(1,4)
  proof (induction maxtype p as tb rule: index_of.induct)
    case (2 maxtype p t d as tb)
    then have t: "t < 16384" by (simp add: attr_ok_def)
    then have ty: "nla_type t = t" by (simp add: nla_type_def)
    have v: "validate_nla b p (4 + length d) t maxtype q = Some 0" if "policy = Some q" for q
      using 2(3) that t validate_nla_ok by simp
    show ?case using 2 v by (cases policy) (auto simp: ty Let_def)
  qed simp
  then show ?thesis unfolding nla_parse_def each_attr_image [OF assms(1-3)] by blast
qed

text \<open>The offset that the index gives for the last attribute of a type leads to its payload.\<close>

lemma index_of_other: "\<forall>a\<in>set as. fst a \<noteq> t \<Longrightarrow> index_of maxtype p as tb t = tb t"
  by (induction maxtype p as tb rule: index_of.induct) auto

lemma index_of_append:
  "index_of maxtype p (as @ bs) tb = index_of maxtype (p + length (attrs_image as)) bs (index_of maxtype p as tb)"
  by (induction maxtype p as tb rule: index_of.induct) (simp_all add: attrs_image_def add.assoc)

lemma index_of_last:
  assumes "t \<le> maxtype" "\<forall>a\<in>set bs. fst a \<noteq> t"
  shows "index_of maxtype p (as @ (t, d) # bs) tb t = Some (p + length (attrs_image as))"
  using assms by (simp add: index_of_append index_of_other)

end
