(* ===== verification/Netiface.thy ===== *)
theory Netiface
  imports Netattr Profiles
begin

text \<open>
  \<open>netiface.cpp\<close>: the thread that watches the routing table and changes the profile when the default route
  moves to another interface, the name of the interface in use and the name of its wireless network.
  The results of the system and of \<open>libnl\<close> are oracles of the history.
\<close>

record netif =
  ni_os :: os
  ni_bind :: "hist \<Rightarrow> int \<Rightarrow> bool"
  ni_ioctl_essid :: "hist \<Rightarrow> int \<Rightarrow> string \<Rightarrow> bytes option"
  ni_indextoname :: "hist \<Rightarrow> nat \<Rightarrow> string option"
  ni_nametoindex :: "hist \<Rightarrow> string \<Rightarrow> nat"
  ni_local_addr :: "hist \<Rightarrow> int \<Rightarrow> u32 option"
  ni_getifaddrs :: "hist \<Rightarrow> (string option \<times> u32 option) list option"
  ni_socket_alloc :: "hist \<Rightarrow> bool"
  ni_genl_connect :: "hist \<Rightarrow> bool"
  ni_ctrl_resolve :: "hist \<Rightarrow> int"
  ni_cb_alloc :: "hist \<Rightarrow> bool"
  ni_msg_alloc :: "hist \<Rightarrow> bool"
  ni_msg_size :: nat
  ni_recvmsgs :: "hist \<Rightarrow> bytes list \<times> bool"
  ni_pipe :: int
  ni_stop :: "hist \<Rightarrow> bool"

text \<open>A value that is read through a pointer: None is a read outside of the buffer.\<close>

definition defined :: "'a option \<Rightarrow> 'a io" where
  "defined x = the_or Undefined x"

section \<open>The name of the wireless network\<close>

definition IFNAMSIZ :: nat where "IFNAMSIZ = 16"
definition IW_ESSID_MAX_SIZE :: nat where "IW_ESSID_MAX_SIZE = 32"

text \<open>The second \<open>strncpy\<close> copies the whole name into the field of the request.\<close>

definition get_current_wifi_name_ioctl :: "netif \<Rightarrow> string \<Rightarrow> string io" where
  "get_current_wifi_name_ioctl N iface_name =
     bnd (socket (ni_os N) SOCK_DGRAM) (\<lambda>s. case s of
       None \<Rightarrow> ret []
     | Some sock \<Rightarrow>
         if IFNAMSIZ < length iface_name then raise Undefined
         else bnd (sys (\<lambda>r. Ioctl sock (r \<noteq> None)) (\<lambda>h. ni_ioctl_essid N h sock iface_name)) (\<lambda>r.
           case r of
             None \<Rightarrow> then_do (close sock) (ret [])
           | Some essid \<Rightarrow> then_do (close sock)
               (ret (c_str (string_of (take IW_ESSID_MAX_SIZE essid @ replicate (IW_ESSID_MAX_SIZE - length essid) 0 @ [0]))))))"

text \<open>\<open>find_ssid\<close> walks over the information elements of a beacon, each an identifier, a length and as many bytes.\<close>

function find_ssid_loop :: "bytes \<Rightarrow> nat \<Rightarrow> u32 \<Rightarrow> (nat \<times> u32) option" where
  "find_ssid_loop b ies ies_len =
     (if \<not> 2 < ies_len then Some (ies, ies_len)
      else case byte_at b ies of
        None \<Rightarrow> None
      | Some eid \<Rightarrow>
          if eid = 0 then Some (ies, ies_len)
          else case byte_at b (ies + 1) of
            None \<Rightarrow> None
          | Some l \<Rightarrow> find_ssid_loop b (ies + (l + 2)) (ies_len - word_of_nat (l + 2)))"
  by pat_completeness auto
termination
  by (relation "measure (\<lambda>(b, ies, ies_len). length b - ies)") (auto simp: byte_at_def split: if_splits)

declare find_ssid_loop.simps [simp del]

definition find_ssid :: "bytes \<Rightarrow> nat \<Rightarrow> u32 \<Rightarrow> (nat \<times> nat) option option" where
  "find_ssid b ies ies_len = (case find_ssid_loop b ies ies_len of
     None \<Rightarrow> None
   | Some (ies, ies_len) \<Rightarrow>
       if ies_len < 2 then Some None
       else case byte_at b (ies + 1) of
         None \<Rightarrow> None
       | Some l \<Rightarrow> Some (if ies_len < word_of_nat (2 + l) then None else Some (ies + 2, l)))"

definition NL80211_ATTR_IFINDEX :: nat where "NL80211_ATTR_IFINDEX = 3"
definition NL80211_ATTR_BSS :: nat where "NL80211_ATTR_BSS = 47"
definition NL80211_BSS_INFORMATION_ELEMENTS :: nat where "NL80211_BSS_INFORMATION_ELEMENTS = 6"
definition NL80211_BSS_STATUS :: nat where "NL80211_BSS_STATUS = 9"
definition NL80211_BSS_STATUS_ASSOCIATED :: nat where "NL80211_BSS_STATUS_ASSOCIATED = 1"
definition NL80211_CMD_GET_SCAN :: byte where "NL80211_CMD_GET_SCAN = 32"
definition NL80211_ATTR_MAX :: nat where "NL80211_ATTR_MAX = 333"
definition NL80211_BSS_MAX :: nat where "NL80211_BSS_MAX = 25"

text \<open>The policy of the nested attributes, by their numbers: the frequency, the TSF, the beacon interval, the
  capability, both signal levels, the status and the age.\<close>

definition bss_policy :: "nat \<Rightarrow> nla_policy" where
  "bss_policy t =
     (let of_kind = (\<lambda>k. no_policy\<lparr>p_type := k\<rparr>)
      in if t = 3 then of_kind NLA_U64
         else if t = 2 \<or> t = 7 \<or> t = NL80211_BSS_STATUS \<or> t = 10 then of_kind NLA_U32
         else if t = 4 \<or> t = 5 then of_kind NLA_U16
         else if t = 8 then of_kind NLA_U8
         else no_policy)"

text \<open>\<open>genlmsg_attrdata\<close> and \<open>genlmsg_attrlen\<close> of a message without a header of its own.\<close>

definition genlmsg_attrdata :: "nat \<Rightarrow> nat" where
  "genlmsg_attrdata gnlh = gnlh + 4"

definition genlmsg_attrlen :: "bytes \<Rightarrow> nat \<Rightarrow> int option" where
  "genlmsg_attrlen b gnlh = map_option (\<lambda>n. c_int (int n - 4 - 16)) (le32_at b (gnlh - 16))"

definition scan_ssid :: "bytes \<Rightarrow> nat \<Rightarrow> string \<Rightarrow> string option" where
  "scan_ssid b ie ssid = (case nla_len b ie of
     None \<Rightarrow> None
   | Some len \<Rightarrow> (case find_ssid b (nla_data ie) (word_of_int len) of
       None \<Rightarrow> None
     | Some None \<Rightarrow> Some ssid
     | Some (Some (p, n)) \<Rightarrow> if n = 0 then Some ssid
         else if p + n \<le> length b then Some (string_of (take n (drop p b))) else None))"

text \<open>The callback for one message: the name of the network afterwards.\<close>

definition get_scan_callback :: "bytes \<Rightarrow> string \<Rightarrow> string option" where
  "get_scan_callback msg ssid =
     (let gnlh = 16 in case genlmsg_attrlen msg gnlh of
        None \<Rightarrow> None
      | Some len \<Rightarrow> (case nla_parse msg NL80211_ATTR_MAX (genlmsg_attrdata gnlh) len None of
          None \<Rightarrow> None
        | Some (Inl e) \<Rightarrow> None
        | Some (Inr tb) \<Rightarrow> (case tb NL80211_ATTR_BSS of
            None \<Rightarrow> Some ssid
          | Some nla \<Rightarrow> (case nla_parse_nested msg NL80211_BSS_MAX nla (Some bss_policy) of
              None \<Rightarrow> None
            | Some (Inl None) \<Rightarrow> None
            | Some (Inl (Some err)) \<Rightarrow> Some ssid
            | Some (Inr bss) \<Rightarrow> (case bss NL80211_BSS_STATUS of
                None \<Rightarrow> Some ssid
              | Some status \<Rightarrow> (case nla_get_u32 msg status of
                  None \<Rightarrow> None
                | Some v \<Rightarrow> if v \<noteq> NL80211_BSS_STATUS_ASSOCIATED then Some ssid
                    else (case bss NL80211_BSS_INFORMATION_ELEMENTS of
                      None \<Rightarrow> Some ssid
                    | Some ie \<Rightarrow> scan_ssid msg ie ssid)))))))"

fun callbacks :: "bytes list \<Rightarrow> string \<Rightarrow> string option" where
  "callbacks [] ssid = Some ssid"
| "callbacks (m # ms) ssid = (case get_scan_callback m ssid of None \<Rightarrow> None | Some s \<Rightarrow> callbacks ms s)"

definition free_socket :: "unit io" where
  "free_socket = then_do (emit (Netlink Nl_close)) (emit (Netlink Nl_socket_free))"

definition init_nl80211 :: "netif \<Rightarrow> (int + int) io" where
  "init_nl80211 N =
     bnd (sys (\<lambda>r. Netlink (Nl_socket_alloc r)) (ni_socket_alloc N)) (\<lambda>ok.
     if \<not> ok then ret (Inl (-12))
     else bnd (sys (\<lambda>r. Netlink (Genl_connect r)) (ni_genl_connect N)) (\<lambda>ok.
     if \<not> ok then then_do free_socket (ret (Inl (-67)))
     else bnd (sys (\<lambda>r. Netlink (Ctrl_resolve r)) (ni_ctrl_resolve N)) (\<lambda>nid.
     if nid < 0 then then_do free_socket (ret (Inl (-2)))
     else bnd (sys (\<lambda>r. Netlink (Nl_cb_alloc r)) (ni_cb_alloc N)) (\<lambda>ok.
     if \<not> ok then then_do free_socket (ret (Inl (-12)))
     else ret (Inr nid)))))"

text \<open>The loop around \<open>nl_recvmsgs\<close> ends only when the callback for the end of the dump has run.\<close>

fun recv_dump :: "nat \<Rightarrow> netif \<Rightarrow> string \<Rightarrow> string io" where
  "recv_dump 0 N ssid = raise Out_of_fuel"
| "recv_dump (Suc n) N ssid =
     bnd (sys (\<lambda>(ms, fin). Netlink (Nl_recvmsgs ms fin)) (ni_recvmsgs N)) (\<lambda>(ms, fin).
     bnd (defined (callbacks ms ssid)) (\<lambda>ssid. if fin then ret ssid else recv_dump n N ssid))"

definition NLM_F_DUMP :: nat where "NLM_F_DUMP = 768"

text \<open>The request: the header, the generic header and the number of the interface, each of the last two left out when it
  does not fit.\<close>

definition scan_request :: "nat \<Rightarrow> int \<Rightarrow> nat \<Rightarrow> bytes" where
  "scan_request len nid ifindex =
     (let m = snd (genlmsg_put (nlmsg_alloc len) 0 0 (nat (nid mod 65536)) 0 NLM_F_DUMP NL80211_CMD_GET_SCAN 0)
      in case nla_put_u32 m NL80211_ATTR_IFINDEX ifindex of None \<Rightarrow> m | Some m' \<Rightarrow> m')"

definition get_current_wifi_name_netlink :: "nat \<Rightarrow> netif \<Rightarrow> string \<Rightarrow> string io" where
  "get_current_wifi_name_netlink fuel N iface_name =
     bnd (init_nl80211 N) (\<lambda>r. case r of
       Inl e \<Rightarrow> ret []
     | Inr nid \<Rightarrow>
         bnd (sys (\<lambda>r. Netlink (Nlmsg_alloc r)) (ni_msg_alloc N)) (\<lambda>ok.
         if \<not> ok then then_do (emit (Netlink Nl_cb_put)) (then_do free_socket (ret []))
         else bnd (ask (\<lambda>h. ni_nametoindex N h iface_name)) (\<lambda>ifindex.
         if ifindex = 0 then then_do (emit (Netlink Nl_cb_put)) (then_do free_socket (then_do (emit (Netlink Nlmsg_free)) (ret [])))
         else let m = scan_request (ni_msg_size N) nid ifindex in
         then_do (emit (Netlink (Nl_send (take (nlmsg_len m) m))))
         (bnd (recv_dump fuel N []) (\<lambda>ssid. then_do (emit (Netlink Nlmsg_free)) (ret ssid))))))"

definition get_current_wifi_name :: "nat \<Rightarrow> netif \<Rightarrow> string \<Rightarrow> string io" where
  "get_current_wifi_name fuel N iface_name =
     bnd (get_current_wifi_name_ioctl N iface_name) (\<lambda>response.
     if response = [] then get_current_wifi_name_netlink fuel N iface_name else ret response)"

section \<open>The interface in use\<close>

text \<open>The last interface in the list with the local address of a socket that is \<open>connected\<close> to a root server.\<close>

definition global_ip :: u32 where
  "global_ip = 0xC6290004"

fun iface_with :: "u32 \<Rightarrow> (string option \<times> u32 option) list \<Rightarrow> string \<Rightarrow> string" where
  "iface_with a [] res = res"
| "iface_with a ((name, addr) # ifs) res =
     iface_with a ifs (if addr = Some a then (case name of Some n \<Rightarrow> n | None \<Rightarrow> res) else res)"

definition get_current_iface_name :: "netif \<Rightarrow> string io" where
  "get_current_iface_name N =
     bnd (socket (ni_os N) SOCK_DGRAM) (\<lambda>s. case s of
       None \<Rightarrow> ret []
     | Some sock \<Rightarrow>
         bnd (connect (ni_os N) sock (Sockaddr global_ip 80)) (\<lambda>c. case c of
           Err er \<Rightarrow> then_do (close sock) (ret [])
         | Ok u \<Rightarrow>
             bnd (ask (\<lambda>h. ni_local_addr N h sock)) (\<lambda>addr.
             bnd (defined addr) (\<lambda>a.
             bnd (ask (ni_getifaddrs N)) (\<lambda>ifs.
             bnd (defined ifs) (\<lambda>ifaddr. then_do (close sock) (ret (iface_with a ifaddr []))))))))"

section \<open>The routing table\<close>

definition RTA_MAX :: nat where "RTA_MAX = 30"
definition RTA_DST :: nat where "RTA_DST = 1"
definition RTA_OIF :: nat where "RTA_OIF = 4"
definition RTM_NEWROUTE :: nat where "RTM_NEWROUTE = 24"
definition NLMSG_DONE :: nat where "NLMSG_DONE = 3"

text \<open>Whether a message announces a default route: the index of its interface.\<close>

definition default_route :: "bytes \<Rightarrow> nat \<Rightarrow> nat \<Rightarrow> nat option option" where
  "default_route b nlh msg_len =
     (case (byte_at b (nlh + 17), parse_rtattr b RTA_MAX (nlh + 28) (c_int (int msg_len - 28))) of
        (Some dst_len, Some tb) \<Rightarrow>
          if tb RTA_DST = None \<and> dst_len = 0 then
            (case tb RTA_OIF of
               None \<Rightarrow> Some None
             | Some rta \<Rightarrow> (case le32_at b (rta + 4) of None \<Rightarrow> None | Some i \<Rightarrow> Some (Some i)))
          else Some None
      | _ \<Rightarrow> None)"

definition route_changed :: "nat \<Rightarrow> netif \<Rightarrow> profiles \<Rightarrow> nat \<Rightarrow> Profile_s \<Rightarrow> Profile_s io" where
  "route_changed fuel N ps oif P =
     bnd (ask (\<lambda>h. ni_indextoname N h oif)) (\<lambda>name.
     bnd (defined name) (\<lambda>iface.
     bnd (get_current_wifi_name fuel N iface) (\<lambda>wifi_ap. ret (fst (snd (change_profile ps iface wifi_ap P))))))"

text \<open>The messages of one datagram. The offset where the walk ends is where the next datagram is stored. A message
  takes at least 16 of the \<open>len\<close> bytes, which bounds the number of rounds.\<close>

definition nlmsg_ok :: "nat \<Rightarrow> int \<Rightarrow> bool" where
  "nlmsg_ok msg_len len = (16 \<le> len \<and> 16 \<le> msg_len \<and> int msg_len \<le> len)"

fun each_message :: "nat \<Rightarrow> nat \<Rightarrow> netif \<Rightarrow> profiles \<Rightarrow> bytes \<Rightarrow> nat \<Rightarrow> int \<Rightarrow> Profile_s \<Rightarrow> (nat \<times> Profile_s) io" where
  "each_message 0 fuel N ps b nlh len P = raise Out_of_fuel"
| "each_message (Suc n) fuel N ps b nlh len P =
     (if len < 16 then ret (nlh, P)
      else bnd (defined (le32_at b nlh)) (\<lambda>msg_len.
      bnd (defined (le16_at b (nlh + 4))) (\<lambda>type.
      if \<not> nlmsg_ok msg_len len \<or> type = NLMSG_DONE then ret (nlh, P)
      else bnd (if type = RTM_NEWROUTE then
             bnd (defined (default_route b nlh msg_len)) (\<lambda>r.
               case r of None \<Rightarrow> ret P | Some oif \<Rightarrow> route_changed fuel N ps oif P)
           else ret P) (\<lambda>P.
        each_message n fuel N ps b (nlh + align4 msg_len) (len - int (align4 msg_len)) P))))"

definition buffer_len :: nat where "buffer_len = 8192"

definition on_datagram :: "nat \<Rightarrow> netif \<Rightarrow> profiles \<Rightarrow> bytes \<Rightarrow> nat \<Rightarrow> bytes \<Rightarrow> Profile_s \<Rightarrow> (bytes \<times> nat \<times> Profile_s) io" where
  "on_datagram fuel N ps b nlh d P =
     (if length b < nlh + length d then raise Undefined
      else let b = overwrite_at nlh d b in
        bnd (each_message (Suc (length d)) fuel N ps b nlh (int (length d)) P) (\<lambda>(nlh, P). ret (b, nlh, P)))"

fun route_loop :: "nat \<Rightarrow> nat \<Rightarrow> netif \<Rightarrow> profiles \<Rightarrow> int \<Rightarrow> bytes \<Rightarrow> nat \<Rightarrow> Profile_s \<Rightarrow> Profile_s io" where
  "route_loop 0 fuel N ps sock b nlh P = raise Out_of_fuel"
| "route_loop (Suc n) fuel N ps sock b nlh P =
     bnd (ask (ni_stop N)) (\<lambda>stop.
     if stop then ret P
     else bnd (poll (ni_os N) [sock, ni_pipe N] (-1)) (\<lambda>p. case p of
       Poll_error er \<Rightarrow> ret P
     | Poll_timeout \<Rightarrow> route_loop n fuel N ps sock b nlh P
     | Poll_ready rs \<Rightarrow>
         (let (bad, readable) = (if rs = [] then (False, False) else hd rs) in
          if bad then ret P
          else if readable then
            bnd (recv (ni_os N) sock buffer_len) (\<lambda>r. case r of
              Err er \<Rightarrow> ret P
            | Ok d \<Rightarrow> if d = [] then ret P
                else bnd (on_datagram fuel N ps b nlh d P) (\<lambda>(b, nlh, P). route_loop n fuel N ps sock b nlh P))
          else route_loop n fuel N ps sock b nlh P)))"

definition route_monitor_thread :: "nat \<Rightarrow> nat \<Rightarrow> netif \<Rightarrow> profiles \<Rightarrow> Profile_s \<Rightarrow> Profile_s io" where
  "route_monitor_thread n fuel N ps P =
     bnd (socket (ni_os N) SOCK_RAW) (\<lambda>s. case s of
       None \<Rightarrow> ret P
     | Some sock \<Rightarrow>
         bnd (sys (Bind sock) (\<lambda>h. ni_bind N h sock)) (\<lambda>ok.
         if \<not> ok then then_do (close sock) (ret P)
         else bnd (fcntl_getfl (ni_os N) sock) (\<lambda>fl.
         bnd (fcntl_setfl (ni_os N) sock ((case fl of None \<Rightarrow> - 1 | Some f \<Rightarrow> f) OR O_NONBLOCK)) (\<lambda>ok.
         if \<not> ok then then_do (close sock) (ret P)
         else bnd (route_loop n fuel N ps sock (replicate buffer_len 0) 0 P) (\<lambda>P. then_do (close sock) (ret P))))))"

section \<open>The name in a scan result\<close>

text \<open>Information elements: the identifier, the length and the bytes.\<close>

definition ie_image :: "byte \<times> bytes \<Rightarrow> bytes" where
  "ie_image = (\<lambda>(i, d). i # word_of_nat (length d) # d)"

definition ies_image :: "(byte \<times> bytes) list \<Rightarrow> bytes" where
  "ies_image es = concat (map ie_image es)"

lemma ies_image_simps [simp]:
  "ies_image [] = []" "ies_image ((i, d) # es) = i # word_of_nat (length d) # d @ ies_image es"
  "ies_image (es @ fs) = ies_image es @ ies_image fs"
  by (simp_all add: ies_image_def ie_image_def)

lemma byte_at_append: "length pre = p \<Longrightarrow> byte_at (pre @ x # ys) p = Some (unat x)"
  by (auto simp: byte_at_def nth_append)

lemma u32_of_nat_less:
  assumes "k < 2 ^ 32"
  shows "2 < (word_of_nat k :: u32) \<longleftrightarrow> 2 < k" "(word_of_nat k :: u32) < 2 \<longleftrightarrow> k < 2"
    "j < 2 ^ 32 \<Longrightarrow> (word_of_nat k :: u32) < word_of_nat j \<longleftrightarrow> k < j"
proof -
  have u: "unat (word_of_nat i :: u32) = i" if "i < 2 ^ 32" for i using that by (simp add: unat_of_nat)
  show "2 < (word_of_nat k :: u32) \<longleftrightarrow> 2 < k" "(word_of_nat k :: u32) < 2 \<longleftrightarrow> k < 2"
    "j < 2 ^ 32 \<Longrightarrow> (word_of_nat k :: u32) < word_of_nat j \<longleftrightarrow> k < j"
    unfolding word_less_nat_alt u [OF assms] using u by simp_all
qed

lemma find_ssid_loop_skips:
  assumes "\<forall>(i, d)\<in>set es. i \<noteq> 0 \<and> length d < 256" "length pre = p"
    and "length (ies_image es) + n < 2 ^ 32" "2 < n"
  shows "find_ssid_loop (pre @ ies_image es @ rest) p (word_of_nat (length (ies_image es) + n))
    = find_ssid_loop (pre @ ies_image es @ rest) (p + length (ies_image es)) (word_of_nat n)"
  using assms
proof (induction es arbitrary: pre p)
  case (Cons e es)
  obtain i d where e: "e = (i, d)" by (cases e)
  let ?b = "pre @ ies_image (e # es) @ rest" and ?N = "length (ies_image (e # es)) + n"
  have b: "?b = (pre @ [i, word_of_nat (length d)] @ d) @ ies_image es @ rest" by (simp add: e)
  have i: "byte_at ?b p = Some (unat i)" "unat i \<noteq> 0"
    using byte_at_append [OF Cons.prems(2)] Cons.prems(1) by (simp_all add: e unat_eq_0)
  have l: "byte_at ?b (p + 1) = Some (length d)"
    using byte_at_append [of "pre @ [i]" "p + 1"] Cons.prems(1,2) by (simp add: e unat_of_nat)
  have len: "?N = length d + 2 + (length (ies_image es) + n)" by (simp add: e)
  have two: "2 < (word_of_nat ?N :: u32)"
    using Cons.prems(3,4) len u32_of_nat_less(1) [of ?N] by (simp only: e)
  have minus: "word_of_nat ?N - word_of_nat (length d + 2) = (word_of_nat (length (ies_image es) + n) :: u32)"
    unfolding len by simp
  have "find_ssid_loop ?b p (word_of_nat ?N) = find_ssid_loop ?b (p + (length d + 2)) (word_of_nat (length (ies_image es) + n))"
    by (subst find_ssid_loop.simps) (simp only: two i l minus if_False not_True_eq_False option.case)
  also have "\<dots> = find_ssid_loop ?b (p + (length d + 2) + length (ies_image es)) (word_of_nat n)"
    unfolding b by (rule Cons.IH) (use Cons.prems in \<open>auto simp: e\<close>)
  finally show ?case by (simp add: e add.assoc)
qed simp

lemma find_ssid_image:
  assumes "\<forall>(i, d)\<in>set es. i \<noteq> 0 \<and> length d < 256" "length s < 256" "s \<noteq> []" "length pre = p"
    and "length (ies_image (es @ (0, s) # fs)) < 2 ^ 32"
  shows "find_ssid (pre @ ies_image (es @ (0, s) # fs) @ post) p (word_of_nat (length (ies_image (es @ (0, s) # fs))))
    = Some (Some (p + length (ies_image es) + 2, length s))"
proof -
  let ?b = "pre @ ies_image (es @ (0, s) # fs) @ post" and ?n = "length (ies_image ((0, s) # fs))"
  have b: "?b = pre @ ies_image es @ ies_image ((0, s) # fs) @ post" by simp
  have b': "?b = (pre @ ies_image es) @ 0 # (word_of_nat (length s) # s @ ies_image fs @ post)"
    "?b = (pre @ ies_image es @ [0]) @ word_of_nat (length s) # (s @ ies_image fs @ post)" by simp_all
  have n: "2 < ?n" "length s + 2 \<le> ?n" using assms(3) by (cases s; simp)+
  have at: "byte_at ?b (p + length (ies_image es)) = Some 0" "byte_at ?b (p + length (ies_image es) + 1) = Some (length s)"
    unfolding b' using byte_at_append [of "pre @ ies_image es" "p + length (ies_image es)"]
      byte_at_append [of "pre @ ies_image es @ [0]" "p + length (ies_image es) + 1"] assms(2,4) by (simp_all add: unat_of_nat)
  have "find_ssid_loop ?b p (word_of_nat (length (ies_image es) + ?n)) = find_ssid_loop ?b (p + length (ies_image es)) (word_of_nat ?n)"
    unfolding b by (rule find_ssid_loop_skips) (use assms n in auto)
  also have "\<dots> = Some (p + length (ies_image es), word_of_nat ?n)"
    by (subst find_ssid_loop.simps) (simp only: at option.case refl if_True, simp)
  finally have loop: "find_ssid_loop ?b p (word_of_nat (length (ies_image es) + ?n)) = Some (p + length (ies_image es), word_of_nat ?n)" .
  have lt: "?n < 2 ^ 32" "2 + length s < 2 ^ 32" using assms(2,5) by simp_all
  have w: "\<not> (word_of_nat ?n :: u32) < 2" "\<not> (word_of_nat ?n :: u32) < word_of_nat (2 + length s)"
    unfolding u32_of_nat_less(2) [OF lt(1)] u32_of_nat_less(3) [OF lt] using n by linarith+
  have tot: "length (ies_image (es @ (0, s) # fs)) = length (ies_image es) + ?n" by simp
  show ?thesis unfolding find_ssid_def tot loop by (simp only: option.case prod.case at w if_False)
qed


text \<open>Where an attribute of a stream lies.\<close>

lemma attr_at:
  assumes "b = pre @ attrs_image (as @ (t, d) # bs) @ post" "attr_ok (t, d)"
    and "p = length pre + length (attrs_image as)"
  shows "le16_at b p = Some (4 + length d)" "\<exists>pre' post'. b = pre' @ d @ post' \<and> length pre' = nla_data p"
proof -
  have b: "b = (pre @ attrs_image as) @ le16 (4 + length d) @ (le16 t @ d @ replicate (nla_padlen (length d)) 0 @ attrs_image bs @ post)"
    "b = (pre @ attrs_image as @ le16 (4 + length d) @ le16 t) @ d @ (replicate (nla_padlen (length d)) 0 @ attrs_image bs @ post)"
    unfolding assms(1) by (simp_all add: attrs_image_def attr_image_def)
  show "le16_at b p = Some (4 + length d)"
    unfolding b(1) by (rule le16_at_le16) (use assms(2,3) in \<open>simp_all add: attr_ok_def\<close>)
  show "\<exists>pre' post'. b = pre' @ d @ post' \<and> length pre' = nla_data p"
    by (intro exI conjI, rule b(2)) (use assms(3) in \<open>simp add: nla_data_def\<close>)
qed

lemma c_int_small: "- (2 ^ 31) \<le> x \<Longrightarrow> x < 2 ^ 31 \<Longrightarrow> c_int x = x"
  by (simp add: c_int_def signed_of_int signed_take_bit_int_eq_self)

text \<open>A scan result for one network: its attributes, in which the nested ones hold the status and the
  information elements.\<close>

definition scan_message :: "bytes \<Rightarrow> (nat \<times> bytes) list \<Rightarrow> bytes" where
  "scan_message hdr as = le32 (20 + length (attrs_image as)) @ hdr @ attrs_image as"

definition one_attr :: "nat \<Rightarrow> bytes \<Rightarrow> (nat \<times> bytes) list \<Rightarrow> bool" where
  "one_attr t d as = (\<exists>bs cs. as = bs @ (t, d) # cs \<and> (\<forall>a\<in>set cs. fst a \<noteq> t))"

lemma one_attr_index:
  assumes "one_attr t d as" "\<forall>a\<in>set as. attr_ok a" "b = pre @ attrs_image as @ post" "t \<le> maxtype" "length pre = q"
  obtains p pre' post' where "index_of maxtype q as Map.empty t = Some p" "le16_at b p = Some (4 + length d)"
    "b = pre' @ d @ post'" "length pre' = nla_data p"
proof -
  obtain bs cs where s: "as = bs @ (t, d) # cs" "\<forall>a\<in>set cs. fst a \<noteq> t" using assms(1) by (auto simp: one_attr_def)
  let ?p = "q + length (attrs_image bs)"
  have ok: "attr_ok (t, d)" using assms(2) s(1) by simp
  have b: "b = pre @ attrs_image (bs @ (t, d) # cs) @ post" using assms(3) s(1) by simp
  have p: "?p = length pre + length (attrs_image bs)" using assms(5) by simp
  have "index_of maxtype q as Map.empty t = Some ?p" unfolding s(1) by (rule index_of_last [OF assms(4) s(2)])
  then show thesis using attr_at [OF b ok p] that by blast
qed

lemma one_attr_ok: "one_attr t d as \<Longrightarrow> \<forall>a\<in>set as. attr_ok a \<Longrightarrow> attr_ok (t, d)"
  by (auto simp: one_attr_def)

lemma nested_length:
  assumes "le16_at b p = Some (4 + length d)"
  shows "nla_len b p = Some (int (length d))"
  using assms by (simp add: nla_len_def)

lemma bss_policy_no_strings: "p_minlen (bss_policy t) = 0" "p_maxlen (bss_policy t) = 0" "p_type (bss_policy t) \<noteq> NLA_STRING"
  by (simp_all add: bss_policy_def no_policy_def Let_def)

text \<open>C22: The callback for scan results returns the name of the network from every well-formed result of an
  associated network, wherever the attributes and elements stand: the payload of its first SSID element.\<close>

theorem get_scan_callback_ssid:
  assumes "\<forall>a\<in>set as. attr_ok a" "length hdr = 16" "length (attrs_image as) < 2 ^ 31 - 20"
    and "one_attr NL80211_ATTR_BSS (attrs_image bs) as"
    and "\<forall>a\<in>set bs. attr_ok a \<and> policy_ok NL80211_BSS_MAX bss_policy a"
    and "one_attr NL80211_BSS_STATUS (le32 NL80211_BSS_STATUS_ASSOCIATED) bs"
    and "one_attr NL80211_BSS_INFORMATION_ELEMENTS (ies_image (es @ (0, s) # fs)) bs"
    and "\<forall>(i, d)\<in>set es. i \<noteq> 0 \<and> length d < 256" "length s < 256" "s \<noteq> []"
  shows "get_scan_callback (scan_message hdr as) ssid = Some (string_of s)"
proof -
  let ?b = "scan_message hdr as" and ?ies = "ies_image (es @ (0, s) # fs)"
  have b: "?b = (le32 (20 + length (attrs_image as)) @ hdr) @ attrs_image as @ []" by (simp add: scan_message_def)
  have len: "genlmsg_attrlen ?b 16 = Some (int (length (attrs_image as)))"
    using le32_at_le32 [of "20 + length (attrs_image as)" "[]" 0 "hdr @ attrs_image as"] assms(3)
    by (simp add: genlmsg_attrlen_def scan_message_def c_int_small)
  have parse: "nla_parse ?b NL80211_ATTR_MAX (genlmsg_attrdata 16) (int (length (attrs_image as))) None
      = Some (Inr (index_of NL80211_ATTR_MAX 20 as Map.empty))"
    unfolding genlmsg_attrdata_def by (subst nla_parse_stream [OF assms(1) b]) (use assms(2) in simp_all)
  obtain p pre' post' where p: "index_of NL80211_ATTR_MAX 20 as Map.empty NL80211_ATTR_BSS = Some p"
    "le16_at ?b p = Some (4 + length (attrs_image bs))" "?b = pre' @ attrs_image bs @ post'" "length pre' = nla_data p"
    by (rule one_attr_index [OF assms(4,1) b, of NL80211_ATTR_MAX 20])
      (use assms(2) in \<open>simp_all add: NL80211_ATTR_BSS_def NL80211_ATTR_MAX_def\<close>)
  have okb: "\<forall>a\<in>set bs. attr_ok a" using assms(5) by simp
  have nested: "nla_parse_nested ?b NL80211_BSS_MAX p (Some bss_policy) = Some (Inr (index_of NL80211_BSS_MAX (nla_data p) bs Map.empty))"
    unfolding nla_parse_nested_def nested_length [OF p(2)]
    by (simp only: option.case, rule nla_parse_stream [OF okb p(3,4)]) (use assms(5) in simp)
  obtain q pre2 post2 where q: "index_of NL80211_BSS_MAX (nla_data p) bs Map.empty NL80211_BSS_STATUS = Some q"
    "?b = pre2 @ le32 NL80211_BSS_STATUS_ASSOCIATED @ post2" "length pre2 = nla_data q"
    by (rule one_attr_index [OF assms(6) okb p(3), of NL80211_BSS_MAX "nla_data p"])
      (use p(4) in \<open>simp_all add: NL80211_BSS_STATUS_def NL80211_BSS_MAX_def\<close>)
  have status: "nla_get_u32 ?b q = Some NL80211_BSS_STATUS_ASSOCIATED"
    unfolding nla_get_u32_def q(2) by (rule le32_at_le32) (use q(3) in \<open>simp_all add: NL80211_BSS_STATUS_ASSOCIATED_def\<close>)
  obtain r pre3 post3 where r: "index_of NL80211_BSS_MAX (nla_data p) bs Map.empty NL80211_BSS_INFORMATION_ELEMENTS = Some r"
    "le16_at ?b r = Some (4 + length ?ies)" "?b = pre3 @ ?ies @ post3" "length pre3 = nla_data r"
    by (rule one_attr_index [OF assms(7) okb p(3), of NL80211_BSS_MAX "nla_data p"])
      (use p(4) in \<open>simp_all add: NL80211_BSS_INFORMATION_ELEMENTS_def NL80211_BSS_MAX_def\<close>)
  have small: "length ?ies < 2 ^ 32" using one_attr_ok [OF assms(7) okb] by (simp add: attr_ok_def)
  have find: "find_ssid ?b (nla_data r) (word_of_nat (length ?ies)) = Some (Some (nla_data r + length (ies_image es) + 2, length s))"
    unfolding r(3) by (rule find_ssid_image [OF assms(8-10) r(4) small])
  have ssid: "scan_ssid ?b r ssid = Some (string_of s)"
  proof -
    have "take (length s) (drop (nla_data r + length (ies_image es) + 2) ?b) = s" "nla_data r + length (ies_image es) + 2 + length s \<le> length ?b"
      unfolding r(3) using r(4) by simp_all
    then show ?thesis unfolding scan_ssid_def nested_length [OF r(2)] using find assms(10) by simp
  qed
  show ?thesis unfolding get_scan_callback_def Let_def
    by (simp only: len parse p(1) nested q(1) status r(1) ssid option.case sum.case simp_thms if_False)
qed

lemma one_attr_Cons:
  "one_attr t d (a # as) \<longleftrightarrow> a = (t, d) \<and> (\<forall>x\<in>set as. fst x \<noteq> t) \<or> one_attr t d as"
proof
  assume "one_attr t d (a # as)"
  then obtain bs cs where "a # as = bs @ (t, d) # cs" "\<forall>x\<in>set cs. fst x \<noteq> t" by (auto simp: one_attr_def)
  then show "a = (t, d) \<and> (\<forall>x\<in>set as. fst x \<noteq> t) \<or> one_attr t d as" by (cases bs) (auto simp: one_attr_def)
next
  assume "a = (t, d) \<and> (\<forall>x\<in>set as. fst x \<noteq> t) \<or> one_attr t d as"
  then show "one_attr t d (a # as)"
  proof
    assume "one_attr t d as"
    then obtain bs cs where "as = bs @ (t, d) # cs" "\<forall>x\<in>set cs. fst x \<noteq> t" by (auto simp: one_attr_def)
    then have "a # as = (a # bs) @ (t, d) # cs \<and> (\<forall>x\<in>set cs. fst x \<noteq> t)" by simp
    then show ?thesis unfolding one_attr_def by blast
  qed (force simp: one_attr_def)
qed

definition sample_bss :: "(nat \<times> bytes) list" where
  "sample_bss = [(9, le32 1), (6, ies_image ([(1, [2, 4])] @ (0, [72, 105]) # [(3, [7])]))]"

definition sample_scan :: "(nat \<times> bytes) list" where
  "sample_scan = [(3, le32 5), (47, attrs_image sample_bss)]"

lemma get_scan_callback_ssid_witness:
  "get_scan_callback (scan_message (replicate 16 0) sample_scan) [] = Some (string_of [72, 105])"
proof (rule get_scan_callback_ssid)
  show "\<forall>a\<in>set sample_scan. attr_ok a" "length (attrs_image sample_scan) < 2 ^ 31 - 20"
    "\<forall>a\<in>set sample_bss. attr_ok a \<and> policy_ok NL80211_BSS_MAX bss_policy a"
    by (simp_all add: sample_scan_def sample_bss_def attrs_image_def attr_ok_def align4_def policy_ok_def bss_policy_def
      no_policy_def NL80211_BSS_STATUS_def)
  show "one_attr NL80211_ATTR_BSS (attrs_image sample_bss) sample_scan"
    by (simp add: sample_scan_def one_attr_Cons NL80211_ATTR_BSS_def)
  show "one_attr NL80211_BSS_STATUS (le32 NL80211_BSS_STATUS_ASSOCIATED) sample_bss"
    by (simp add: sample_bss_def one_attr_Cons NL80211_BSS_STATUS_def NL80211_BSS_STATUS_ASSOCIATED_def)
  show "one_attr NL80211_BSS_INFORMATION_ELEMENTS (ies_image ([(1, [2, 4])] @ (0, [72, 105]) # [(3, [7])])) sample_bss"
    by (simp add: sample_bss_def one_attr_Cons NL80211_BSS_INFORMATION_ELEMENTS_def)
qed simp_all

text \<open>An information element before the SSID that claims more bytes than are left makes \<open>find_ssid\<close> read
  behind the message: the remaining length is unsigned and wraps around.\<close>

theorem find_ssid_overreads:
  assumes "\<forall>(i, d)\<in>set es. i \<noteq> 0 \<and> length d < 256" "i \<noteq> 0"
    and "d \<noteq> []" "length d < unat l" "length (d @ post) \<le> unat l"
    and "length (ies_image es) < 2 ^ 31"
  shows "find_ssid (pre @ ies_image es @ [i, l] @ d @ post) (length pre) (word_of_nat (length (ies_image es @ [i, l] @ d))) = None"
proof -
  let ?b = "pre @ ies_image es @ [i, l] @ d @ post" and ?n = "2 + length d"
  let ?p = "length pre + length (ies_image es)" and ?w = "word_of_nat (length (ies_image es) + ?n) :: u32"
  have l: "unat l < 256" by (rule unat_byte)
  have n: "2 < ?n" "?n < 2 ^ 32" "length (ies_image es) + ?n < 2 ^ 32" using assms(3,4,6) l by auto
  have at: "byte_at ?b ?p = Some (unat i)" "unat i \<noteq> 0" "byte_at ?b (?p + 1) = Some (unat l)" "byte_at ?b (?p + (unat l + 2)) = None"
    using byte_at_append [of "pre @ ies_image es" ?p i "l # d @ post"] byte_at_append [of "pre @ ies_image es @ [i]" "?p + 1" l "d @ post"]
      assms(2,5) by (simp_all add: byte_at_def unat_eq_0)
  have wrap: "2 < (word_of_nat ?n - word_of_nat (unat l + 2) :: u32)"
  proof -
    have "(word_of_nat ?n - word_of_nat (unat l + 2) :: u32) = word_of_nat (2 ^ 32 + length d - unat l)"
      using assms(4) l by (simp add: of_nat_diff)
    moreover have "2 < (word_of_nat (2 ^ 32 + length d - unat l) :: u32)"
      by (rule u32_of_nat_less(1) [THEN iffD2]) (use assms(4) l in simp_all)
    ultimately show ?thesis by (rule ssubst)
  qed
  have "find_ssid_loop ?b (length pre) ?w = find_ssid_loop ?b ?p (word_of_nat ?n)"
    by (rule find_ssid_loop_skips) (use assms(1) n in auto)
  also have "\<dots> = find_ssid_loop ?b (?p + (unat l + 2)) (word_of_nat ?n - word_of_nat (unat l + 2))"
    using u32_of_nat_less(1) [OF n(2)] n(1) by (subst find_ssid_loop.simps) (simp only: at option.case if_False not_True_eq_False)
  also have "\<dots> = None"
    by (subst find_ssid_loop.simps) (simp only: at wrap option.case if_False not_True_eq_False)
  finally have "find_ssid_loop ?b (length pre) ?w = None" .
  moreover have "length (ies_image es @ [i, l] @ d) = length (ies_image es) + ?n" by simp
  ultimately show ?thesis unfolding find_ssid_def by (simp only: option.case)
qed

lemma find_ssid_overreads_witness:
  "find_ssid ([] @ ies_image [(1, [2, 4])] @ [3, 9] @ [7] @ []) (length ([] :: bytes)) (word_of_nat (length (ies_image [(1, [2, 4])] @ [3, 9] @ [7]))) = None"
  by (rule find_ssid_overreads) simp_all

section \<open>Notifications of the routing table\<close>

lemma length_overwrite_at: "i + length d \<le> length b \<Longrightarrow> length (overwrite_at i d b) = length b"
  by (simp add: overwrite_at_def)

lemma read_overwritten:
  assumes "i + length d \<le> length b"
  shows "j + 4 \<le> length d \<Longrightarrow> le32_at (overwrite_at i d b) (i + j) = le32_at d j"
    "j + 2 \<le> length d \<Longrightarrow> le16_at (overwrite_at i d b) (i + j) = le16_at d j"
    "j < length d \<Longrightarrow> byte_at (overwrite_at i d b) (i + j) = byte_at d j"
  using assms by (simp_all add: le32_at_def le16_at_def byte_at_def overwrite_at_def nth_append)

text \<open>A message that fills its datagram and is of no interest to the thread.\<close>

definition other_message :: "bytes \<Rightarrow> bool" where
  "other_message m = (16 \<le> length m \<and> 4 dvd length m \<and> le32_at m 0 = Some (length m)
     \<and> (\<exists>t. le16_at m 4 = Some t \<and> t \<noteq> RTM_NEWROUTE \<and> t \<noteq> NLMSG_DONE))"

lemma align4_dvd: "4 dvd n \<Longrightarrow> align4 n = n"
  by (auto simp: align4_def)

lemma one_message:
  assumes "16 \<le> length m" "4 dvd length m" "le32_at m 0 = Some (length m)" "le16_at m 4 = Some t" "t \<noteq> NLMSG_DONE"
    and "nlh + length m \<le> length b"
  shows "on_datagram fuel N ps b nlh m P = (let b = overwrite_at nlh m b in
     bnd (if t = RTM_NEWROUTE then
            bnd (defined (default_route b nlh (length m))) (\<lambda>r. case r of None \<Rightarrow> ret P | Some oif \<Rightarrow> route_changed fuel N ps oif P)
          else ret P) (\<lambda>P. ret (b, nlh + length m, P)))"
proof -
  let ?b = "overwrite_at nlh m b"
  have r: "le32_at ?b nlh = Some (length m)" "le16_at ?b (nlh + 4) = Some t"
    using read_overwritten(1,2) [OF assms(6), of 0] read_overwritten(2) [OF assms(6), of 4] assms(1,3,4) by simp_all
  obtain k where k: "length m = Suc k" using assms(1) by (cases "length m") auto
  have fin: "each_message (Suc k) fuel N ps ?b (nlh + length m) 0 = (\<lambda>P. ret (nlh + length m, P))" by (rule ext) simp
  have al: "align4 (Suc k) = Suc k" using align4_dvd [OF assms(2)] k by simp
  have ok: "nlmsg_ok (length m) (int (length m))" using assms(1) by (simp add: nlmsg_ok_def)
  have "each_message (Suc (length m)) fuel N ps ?b nlh (int (length m)) P = bnd (if t = RTM_NEWROUTE then
            bnd (defined (default_route ?b nlh (length m))) (\<lambda>r. case r of None \<Rightarrow> ret P | Some oif \<Rightarrow> route_changed fuel N ps oif P)
          else ret P) (\<lambda>P. ret (nlh + length m, P))"
    using assms(1,5) ok fin
    by (subst each_message.simps) (simp add: r defined_def the_or_def al k del: each_message.simps)
  then show ?thesis unfolding on_datagram_def Let_def using assms(6) by simp
qed


text \<open>A route through an interface: the attributes of the announcement hold its index and no destination.\<close>

definition route_message :: "bytes \<Rightarrow> bytes \<Rightarrow> byte \<Rightarrow> bytes \<Rightarrow> (nat \<times> bytes) list \<Rightarrow> bytes" where
  "route_message hdr fam dst_len rtm as = le32 (28 + length (attrs_image as)) @ le16 RTM_NEWROUTE @ hdr @ fam @ [dst_len] @ rtm @ attrs_image as"

lemma length_attrs_image: "4 dvd length (attrs_image as)"
proof (induction as)
  case (Cons a as)
  then show ?case by (cases a) (simp add: attrs_image_def align4_def)
qed (simp add: attrs_image_def)

lemma default_route_step:
  assumes m: "m = route_message hdr fam 0 rtm as" "length hdr = 10" "length fam = 1" "length rtm = 10"
    and as: "\<forall>a\<in>set as. attr_ok a" "\<forall>a\<in>set as. fst a \<noteq> RTA_DST" "one_attr RTA_OIF (le32 oif) as" "oif < 2 ^ 32"
    and room: "length (attrs_image as) < 2 ^ 31 - 28" "nlh + length m \<le> length b"
  shows "on_datagram fuel N ps b nlh m P
    = bnd (route_changed fuel N ps oif P) (\<lambda>P. ret (overwrite_at nlh m b, nlh + length m, P))"
proof -
  let ?L = "28 + length (attrs_image as)" and ?b = "overwrite_at nlh m b"
  have len: "length m = ?L" using m by (simp add: route_message_def)
  have hd: "le32_at m 0 = Some ?L" "le16_at m 4 = Some RTM_NEWROUTE"
    unfolding m(1) route_message_def using le32_at_le32 [of ?L "[]" 0] le16_at_le16 [of RTM_NEWROUTE "le32 ?L" 4] room(1)
    by (simp_all add: RTM_NEWROUTE_def)
  have "byte_at m 17 = Some 0" unfolding m(1) route_message_def
    using byte_at_append [of "le32 ?L @ le16 RTM_NEWROUTE @ hdr @ fam" 17 0] m(2,3) by simp
  then have dst: "byte_at ?b (nlh + 17) = Some 0" using read_overwritten(3) [OF room(2), of 17] len by simp
  have b: "?b = (take nlh b @ le32 ?L @ le16 RTM_NEWROUTE @ hdr @ fam @ [0] @ rtm) @ attrs_image as @ drop (nlh + length m) b"
    by (simp add: overwrite_at_def m(1) route_message_def)
  have pre: "length (take nlh b @ le32 ?L @ le16 RTM_NEWROUTE @ hdr @ fam @ [0] @ rtm) = nlh + 28" using m(2-4) room(2) by simp
  have tb: "parse_rtattr ?b RTA_MAX (nlh + 28) (c_int (int ?L - 28)) = Some (index_of RTA_MAX (nlh + 28) as Map.empty)"
    using parse_rtattr_stream [OF as(1) b pre] room(1) by (simp add: c_int_small)
  obtain p pre' post' where p: "index_of RTA_MAX (nlh + 28) as Map.empty RTA_OIF = Some p" "?b = pre' @ le32 oif @ post'" "length pre' = nla_data p"
    by (rule one_attr_index [OF as(3,1) b, of RTA_MAX "nlh + 28"]) (use pre in \<open>simp_all add: RTA_OIF_def RTA_MAX_def\<close>)
  have "le32_at ?b (p + 4) = Some oif" using le32_at_le32 [OF as(4), of pre' "p + 4"] p(2,3) by (simp add: nla_data_def)
  then have "default_route ?b nlh (length m) = Some (Some oif)"
    using dst tb p(1) index_of_other [OF as(2), of RTA_MAX "nlh + 28" Map.empty] by (simp add: default_route_def len)
  moreover have "4 dvd length m" "16 \<le> length m" unfolding len using length_attrs_image [of as] by (simp_all add: dvd_add)
  ultimately show ?thesis
    using one_message [of m RTM_NEWROUTE nlh b] hd len room(2) by (simp add: Let_def defined_def the_or_def RTM_NEWROUTE_def NLMSG_DONE_def)
qed

text \<open>C18: A notification of a new default route (no destination, an outgoing interface) makes the thread go on with
  the profile of that interface: the one that \<open>change_profile\<close> takes from the table for the name of the interface, as
  the system gives it, and for the wireless network that the lookup finds on it; the rest of the datagram is
  consumed, and the next one is stored behind it. The name of the interface must be there (without one the code
  reads an uninitialised buffer), and the lookup must return.\<close>

theorem default_route_followed:
  assumes m: "m = route_message hdr fam 0 rtm as" "length hdr = 10" "length fam = 1" "length rtm = 10"
    and as: "\<forall>a\<in>set as. attr_ok a" "\<forall>a\<in>set as. fst a \<noteq> RTA_DST" "one_attr RTA_OIF (le32 oif) as" "oif < 2 ^ 32"
    and room: "length (attrs_image as) < 2 ^ 31 - 28" "nlh + length m \<le> length b"
    and iface: "ni_indextoname N h oif = Some iface"
    and wifi: "get_current_wifi_name fuel N iface h = (Inr wifi_ap, h1)"
  shows "on_datagram fuel N ps b nlh m P h
    = (Inr (overwrite_at nlh m b, nlh + length m, fst (snd (change_profile ps iface wifi_ap P))), h1)"
  unfolding default_route_step [OF m as room]
  using iface wifi by (simp add: route_changed_def bnd_def ask_def defined_def the_or_def ret_def)

definition sample_route :: bytes where
  "sample_route = route_message (replicate 10 0) [2] 0 (replicate 10 0) [(4, le32 3)]"

text \<open>C30: The thread never moves its pointer back to the start of its buffer: messages that it has no interest in
  push it forward by their lengths until \<open>recv\<close> stores one of them behind the end of the buffer.\<close>

theorem route_monitor_overflows:
  assumes "other_message m" "length m \<le> buffer_len" "buffer_len < n * length m"
    and "\<forall>h. \<not> ni_stop N h" "\<forall>h. os_poll (ni_os N) h [sock, ni_pipe N] (-1) = Poll_ready [(False, True), (False, False)]"
    and "\<forall>h. os_recv (ni_os N) h sock buffer_len = Ok m"
  shows "fst (route_loop n fuel N ps sock (replicate buffer_len 0) 0 P h) = Inl Undefined"
proof -
  have "buffer_len < nlh + n * length m \<Longrightarrow> nlh \<le> buffer_len \<Longrightarrow> length b = buffer_len
      \<Longrightarrow> fst (route_loop n fuel N ps sock b nlh P h) = Inl Undefined" for n nlh b P h
  proof (induction n arbitrary: nlh b P h)
    case (Suc n)
    obtain t where m: "16 \<le> length m" "4 dvd length m" "le32_at m 0 = Some (length m)" "le16_at m 4 = Some t"
      "t \<noteq> RTM_NEWROUTE" "t \<noteq> NLMSG_DONE" using assms(1) by (auto simp: other_message_def)
    have ne: "m \<noteq> []" using m(1) by auto
    have step: "\<exists>h'. route_loop (Suc n) fuel N ps sock b nlh P h
        = bnd (on_datagram fuel N ps b nlh m P) (\<lambda>(b, nlh, P). route_loop n fuel N ps sock b nlh P) h'"
      using assms(2,4-6) ne by (auto simp: bnd_def ask_def poll_def recv_def sys_def recv_of_def Let_def)
    show ?case
    proof (cases "nlh + length m \<le> length b")
      case True
      have "on_datagram fuel N ps b nlh m P = ret (overwrite_at nlh m b, nlh + length m, P)"
        using one_message [OF m(1-4,6) True] m(5) by (simp add: Let_def)
      moreover have "fst (route_loop n fuel N ps sock (overwrite_at nlh m b) (nlh + length m) P h') = Inl Undefined" for h'
        by (rule Suc.IH) (use Suc.prems True in \<open>simp_all add: length_overwrite_at algebra_simps\<close>)
      ultimately show ?thesis using step by auto
    next
      case False
      then have "on_datagram fuel N ps b nlh m P = raise Undefined" by (simp add: on_datagram_def)
      with step obtain h' where "route_loop (Suc n) fuel N ps sock b nlh P h = raise Undefined h'" by (simp del: route_loop.simps) blast
      then show ?thesis by (simp add: raise_def del: route_loop.simps)
    qed
  qed simp
  from this [of 0 n] show ?thesis using assms(3) by simp
qed


definition deaf_netif :: netif where
  "deaf_netif = \<lparr>ni_os = willing_os\<lparr>os_poll := \<lambda>h fds t. Poll_ready [(False, True), (False, False)],
       os_recv := \<lambda>h fd n. Ok (le32 16 @ le16 25 @ replicate 10 0)\<rparr>,
     ni_bind = \<lambda>h fd. True, ni_ioctl_essid = \<lambda>h fd n. None, ni_indextoname = \<lambda>h i. None, ni_nametoindex = \<lambda>h n. 3,
     ni_local_addr = \<lambda>h fd. None, ni_getifaddrs = \<lambda>h. None, ni_socket_alloc = \<lambda>h. True, ni_genl_connect = \<lambda>h. True,
     ni_ctrl_resolve = \<lambda>h. 19, ni_cb_alloc = \<lambda>h. True, ni_msg_alloc = \<lambda>h. True, ni_msg_size = 64,
     ni_recvmsgs = \<lambda>h. ([scan_message (replicate 16 0) sample_scan], True), ni_pipe = 5, ni_stop = \<lambda>h. False\<rparr>"

lemma route_monitor_overflows_witness:
  "fst (route_loop 600 1 deaf_netif [] 3 (replicate buffer_len 0) 0 default_Profile []) = Inl Undefined"
proof (rule route_monitor_overflows [of "le32 16 @ le16 25 @ replicate 10 0"])
  show "other_message (le32 16 @ le16 25 @ replicate 10 0)"
    using le32_at_le32 [of 16 "[]" 0 "le16 25 @ replicate 10 0"] le16_at_le16 [of 25 "le32 16" 4 "replicate 10 0"]
    by (simp add: other_message_def RTM_NEWROUTE_def NLMSG_DONE_def)
qed (simp_all add: deaf_netif_def buffer_len_def)

definition roaming_netif :: netif where
  "roaming_netif = deaf_netif\<lparr>ni_indextoname := \<lambda>h i. if i = 3 then Some ''wlan0'' else None,
     ni_ioctl_essid := \<lambda>h fd n. if n = ''wlan0'' then Some [72, 105] else None\<rparr>"

lemma default_route_followed_witness:
  "on_datagram 1 roaming_netif sample_profiles (replicate 60 0) 4 sample_route default_Profile []
    = (Inr (overwrite_at 4 sample_route (replicate 60 0), 4 + length sample_route, default_Profile\<lparr>doh := True\<rparr>),
       [Socket SOCK_DGRAM (Some 3), Ioctl 3 True, Close 3])"
proof -
  have s: "c_str (string_of (72 # 105 # replicate 30 0 @ [0])) = ''Hi''" by code_simp
  have wifi: "get_current_wifi_name 1 roaming_netif ''wlan0'' [] = (Inr ''Hi'', [Socket SOCK_DGRAM (Some 3), Ioctl 3 True, Close 3])"
    by (simp add: get_current_wifi_name_def get_current_wifi_name_ioctl_def roaming_netif_def deaf_netif_def willing_os_def
      socket_def close_def emit_def sys_def bnd_def then_do_def ret_def IFNAMSIZ_def IW_ESSID_MAX_SIZE_def s)
  have "wildcard_match (c_str ''default'') (connection_name ''wlan0'' ''Hi'') = False"
    "wildcard_match (c_str ''wlan*'') (connection_name ''wlan0'' ''Hi'')" by code_simp+
  then have "fst (snd (change_profile sample_profiles ''wlan0'' ''Hi'' default_Profile)) = default_Profile\<lparr>doh := True\<rparr>"
    by (simp add: change_profile_def sample_profiles_def del: wildcard_match.simps)
  moreover have "on_datagram 1 roaming_netif sample_profiles (replicate 60 0) 4 sample_route default_Profile []
    = (Inr (overwrite_at 4 sample_route (replicate 60 0), 4 + length sample_route,
         fst (snd (change_profile sample_profiles ''wlan0'' ''Hi'' default_Profile))), [Socket SOCK_DGRAM (Some 3), Ioctl 3 True, Close 3])"
    by (rule default_route_followed [OF sample_route_def _ _ _ _ _ _ _ _ _ _ wifi])
      (simp_all add: attr_ok_def RTA_DST_def RTA_OIF_def one_attr_Cons sample_route_def route_message_def attrs_image_def align4_def
        roaming_netif_def)
  ultimately show ?thesis by simp
qed

section \<open>The netlink sockets of the lookups\<close>

definition nl_held :: "os_event \<Rightarrow> int" where
  "nl_held ev = (case ev of Netlink (Nl_socket_alloc ok) \<Rightarrow> (if ok then 1 else 0) | Netlink Nl_socket_free \<Rightarrow> - 1 | _ \<Rightarrow> 0)"

definition nl_sockets :: "hist \<Rightarrow> int" where
  "nl_sockets h = sum_list (map nl_held h)"

lemma nl_sockets_append [simp]: "nl_sockets (h @ h') = nl_sockets h + nl_sockets h'" "nl_sockets [] = 0"
  "nl_sockets (ev # h) = nl_held ev + nl_sockets h"
  by (simp_all add: nl_sockets_def)

lemma recv_dump_sockets: "recv_dump n N s h = (r, h') \<Longrightarrow> \<exists>t. h' = h @ t \<and> nl_sockets t = 0"
proof (induction n arbitrary: s h)
  case (Suc n)
  obtain ms fin where d: "ni_recvmsgs N h = (ms, fin)" by (cases "ni_recvmsgs N h")
  let ?ev = "Netlink (Nl_recvmsgs ms fin)"
  have ev: "nl_sockets [?ev] = 0" by (simp add: nl_held_def)
  show ?case
  proof (cases "\<exists>s'. callbacks ms s = Some s' \<and> \<not> fin")
    case True
    then obtain s' where "recv_dump n N s' (h @ [?ev]) = (r, h')"
      using Suc.prems by (auto simp: d bnd_def sys_def defined_def the_or_def ret_def)
    then obtain t where "h' = (h @ [?ev]) @ t \<and> nl_sockets t = 0" using Suc.IH by blast
    then have "h' = h @ ([?ev] @ t) \<and> nl_sockets ([?ev] @ t) = 0" using ev by simp
    then show ?thesis by blast
  next
    case False
    then have "h' = h @ [?ev]"
      using Suc.prems by (auto simp: d bnd_def sys_def defined_def the_or_def ret_def raise_def split: option.splits if_splits)
    then show ?thesis using ev by blast
  qed
qed (simp add: raise_def)

definition dumped :: "hist \<Rightarrow> hist \<Rightarrow> bool" where
  "dumped h h' = (\<exists>m. Netlink (Nl_send m) \<in> set (drop (length h) h'))"

text \<open>C40: A lookup of a wireless network through netlink frees its socket when it gives up before its request is
  sent, but never after that: every name that it finds costs one netlink socket.\<close>

theorem wifi_name_leaks_socket:
  assumes "get_current_wifi_name_netlink fuel N iface h = (Inr s, h')"
  shows "nl_sockets h' = nl_sockets h + (if dumped h h' then 1 else 0) \<and> (s = [] \<or> dumped h h')"
  using assms
  by (auto simp: get_current_wifi_name_netlink_def Let_def init_nl80211_def free_socket_def bnd_def then_do_def sys_def emit_def ask_def
    ret_def raise_def defined_def the_or_def nl_held_def dumped_def split: prod.splits sum.splits option.splits if_splits dest!: recv_dump_sockets)

definition lookup_run :: "(stop + string) \<times> hist" where
  "lookup_run = get_current_wifi_name_netlink 1 (deaf_netif\<lparr>ni_recvmsgs := \<lambda>h. ([], True)\<rparr>) ''wlan0'' []"

lemma lookup_run_returns: "fst lookup_run = Inr []"
  by (auto simp: lookup_run_def deaf_netif_def get_current_wifi_name_netlink_def Let_def init_nl80211_def bnd_def then_do_def sys_def emit_def
    ask_def ret_def defined_def the_or_def)

lemma wifi_name_leaks_socket_witness:
  "nl_sockets (snd lookup_run) = nl_sockets [] + (if dumped [] (snd lookup_run) then 1 else 0) \<and> (([] :: string) = [] \<or> dumped [] (snd lookup_run))"
  by (rule wifi_name_leaks_socket [where fuel = 1 and N = "deaf_netif\<lparr>ni_recvmsgs := \<lambda>h. ([], True)\<rparr>" and iface = "''wlan0''"])
    (use lookup_run_returns in \<open>simp add: lookup_run_def prod_eq_iff\<close>)

text \<open>Without the end of a dump the lookup never returns.\<close>

lemma recv_dump_waits: "\<forall>h. ni_recvmsgs N h = ([], False) \<Longrightarrow> fst (recv_dump n N s h) = Inl Out_of_fuel"
  by (induction n arbitrary: h) (auto simp: bnd_def sys_def defined_def the_or_def ret_def raise_def)
end
