(* ===== verification/Startup.thy ===== *)
theory Startup
  imports Autoconf Getopt Netiface
begin

text \<open>
  \<open>main\<close>, the handler of the signals and the daemon of \<open>utils.cpp\<close>: from the words of the command line to the
  socket on which the clients are accepted, and back. The history holds the calls of the main thread; what the
  two threads beside it do until they are joined is the subject of Accept and of Netiface.
\<close>

text \<open>The results of the calls: the address of the socket is on the stack of \<open>main\<close>, and keeps what was there
  when \<open>inet_pton\<close> refuses the address. \<open>su_fork\<close> is the value in the process that goes on with the code.\<close>

record startup_env =
  su_netif :: netif
  su_auto :: attempts
  su_run :: run_env
  su_lines :: "string list"
  su_pipe :: "hist \<Rightarrow> int option"
  su_stack :: u32
  su_bind :: "hist \<Rightarrow> int \<Rightarrow> sockaddr_in \<Rightarrow> bool"
  su_listen :: "hist \<Rightarrow> int \<Rightarrow> bool"
  su_fork :: "hist \<Rightarrow> int"
  su_setsid :: "hist \<Rightarrow> bool"
  su_chdir :: "hist \<Rightarrow> bool"
  su_open :: "hist \<Rightarrow> int option"
  su_dup :: "hist \<Rightarrow> int \<Rightarrow> int option"
  su_sigaction :: "hist \<Rightarrow> int \<Rightarrow> bool"
  su_write :: "hist \<Rightarrow> string \<Rightarrow> bool"

definition exit_main :: "int \<Rightarrow> 'a io" where
  "exit_main r = raise (Return r)"

definition set_handler :: "startup_env \<Rightarrow> int \<Rightarrow> bool io" where
  "set_handler E signum = sys (\<lambda>ok. Process (Handle_signal signum ok)) (\<lambda>h. su_sigaction E h signum)"

definition ignore_sigpipe :: "startup_env \<Rightarrow> int io" where
  "ignore_sigpipe E = bnd (set_handler E 13) (\<lambda>ok. ret (if ok then 0 else -1))"

text \<open>\<open>exit\<close> leaves \<open>main\<close> as well.\<close>

definition daemonize :: "startup_env \<Rightarrow> unit io" where
  "daemonize E =
     bnd (sys (\<lambda>p. Process (Fork p)) (su_fork E)) (\<lambda>pid.
     if pid = -1 then exit_main 2
     else if pid \<noteq> 0 then exit_main 0
     else bnd (sys (\<lambda>ok. Process (Setsid ok)) (su_setsid E)) (\<lambda>ok.
     if \<not> ok then exit_main 2
     else bnd (sys (\<lambda>ok. Process (Chdir ok)) (su_chdir E)) (\<lambda>ok.
     if \<not> ok then exit_main 2
     else then_do (close 0) (then_do (close 1) (then_do (close 2)
       (bnd (sys (\<lambda>fd. Process (Open_null fd)) (su_open E)) (\<lambda>_.
        bnd (sys (\<lambda>fd. Process (Dup 0 fd)) (\<lambda>h. su_dup E h 0)) (\<lambda>_.
        bnd (sys (\<lambda>fd. Process (Dup 0 fd)) (\<lambda>h. su_dup E h 0)) (\<lambda>_. ret ())))))))))"

text \<open>The flag is set before the ends of the pipe are closed.\<close>

definition sig_int_handler :: "int \<times> int \<Rightarrow> unit io" where
  "sig_int_handler p = then_do (emit (Process (Set_stop_flag True))) (then_do (close (fst p)) (close (snd p)))"

section \<open>The configuration\<close>

definition read_cmdline :: "nat \<Rightarrow> nat \<Rightarrow> nat \<Rightarrow> startup_env \<Rightarrow> string list \<Rightarrow> cmd_state io" where
  "read_cmdline k n fuel E words = (case parse_cmdline (getopt_long_only words) of
     Reject \<Rightarrow> exit_main (-1)
   | Auto_conf S \<Rightarrow> bnd (run_autoconf k n fuel (su_auto E) (su_run E) S default_Profile (su_lines E)) (\<lambda>_. exit_main 0)
   | Next st \<Rightarrow> ret st)"

text \<open>The lists, where a path was given.\<close>

definition load_lists :: "startup_env \<Rightarrow> Settings_perst_s \<Rightarrow> Settings_perst_s io" where
  "load_lists E S =
     (let (r, S1) = (if whitelist_path S \<noteq> [] then load_whitelist (re_files (su_run E)) S else (0, S)) in
      if r = -1 then exit_main (-1)
      else (let (r, S2) = (if custom_ips_path S1 \<noteq> [] then load_custom_ips (re_files (su_run E)) S1 else (0, S1)) in
        if r = -1 then exit_main (-1) else ret S2))"

definition choose_profile :: "nat \<Rightarrow> startup_env \<Rightarrow> profiles \<Rightarrow> Profile_s \<Rightarrow> Profile_s io" where
  "choose_profile fuel E ps P =
     (if ps = [] then ret P
      else bnd (get_current_iface_name (su_netif E)) (\<lambda>iface.
           bnd (get_current_wifi_name fuel (su_netif E) iface) (\<lambda>wifi_ap.
           case change_profile ps iface wifi_ap P of (r, P, _) \<Rightarrow> if r = -1 then exit_main (-1) else ret P)))"

definition load_bundle :: "startup_env \<Rightarrow> Profile_s \<Rightarrow> Settings_perst_s \<Rightarrow> Settings_perst_s io" where
  "load_bundle E P S =
     (if doh P then (case load_ca_bundle (re_files (su_run E)) S of (r, S) \<Rightarrow> if r = -1 then exit_main (-1) else ret S) else ret S)"

section \<open>The socket of the server\<close>

definition server_addr :: "startup_env \<Rightarrow> Settings_perst_s \<Rightarrow> sockaddr_in" where
  "server_addr E S =
     Sockaddr (case inet_pton (server_address S) of None \<Rightarrow> su_stack E | Some a \<Rightarrow> a) (word_of_int (server_port S))"

definition fail_with :: "int \<Rightarrow> 'a io" where
  "fail_with fd = then_do (close fd) (exit_main (-1))"

definition open_server :: "startup_env \<Rightarrow> Settings_perst_s \<Rightarrow> int io" where
  "open_server E S =
     bnd (socket (ni_os (su_netif E)) SOCK_STREAM) (\<lambda>s. case s of
       None \<Rightarrow> exit_main (-1)
     | Some fd \<Rightarrow>
         bnd (setsockopt (ni_os (su_netif E)) fd SO_REUSEADDR 1) (\<lambda>ok.
         if \<not> ok then fail_with fd
         else bnd (sys (Bind fd) (\<lambda>h. su_bind E h fd (server_addr E S))) (\<lambda>ok.
         if \<not> ok then fail_with fd
         else bnd (sys (Listen fd) (\<lambda>h. su_listen E h fd)) (\<lambda>ok.
         if \<not> ok then fail_with fd else ret fd))))"

definition go_to_background :: "startup_env \<Rightarrow> Settings_perst_s \<Rightarrow> unit io" where
  "go_to_background E S =
     (if daemon S
      then then_do (daemonize E)
        (if pid_file S \<noteq> [] then bnd (sys (\<lambda>ok. Process (Write_pid (pid_file S) ok)) (\<lambda>h. su_write E h (pid_file S))) (\<lambda>_. ret ())
         else ret ())
      else ret ())"

text \<open>With what the clients are served.\<close>

record serving =
  sv_socket :: int
  sv_settings :: Settings_perst_s
  sv_profiles :: profiles
  sv_profile :: Profile_s

definition startup :: "nat \<Rightarrow> nat \<Rightarrow> nat \<Rightarrow> startup_env \<Rightarrow> string list \<Rightarrow> serving io" where
  "startup k n fuel E words =
     then_do (emit (Process (Set_stop_flag False)))
     (bnd (read_cmdline k n fuel E words) (\<lambda>st.
      bnd (load_lists E (settings st)) (\<lambda>S.
      bnd (ignore_sigpipe E) (\<lambda>_.
      bnd (sys (\<lambda>p. Process (Open_pipe p)) (su_pipe E)) (\<lambda>_.
      bnd (choose_profile fuel E (profiles st) (active st)) (\<lambda>P.
      bnd (load_bundle E P S) (\<lambda>S.
      bnd (open_server E S) (\<lambda>fd.
      then_do (go_to_background E S)
        (ret \<lparr>sv_socket = fd, sv_settings = S, sv_profiles = profiles st, sv_profile = P\<rparr>)))))))))"

definition serve_clients :: "startup_env \<Rightarrow> serving \<Rightarrow> int io" where
  "serve_clients E V =
     then_do (cond (sv_profiles V \<noteq> []) (emit (Process Spawn_monitor)))
     (bnd (set_handler E 2) (\<lambda>_.
      bnd (set_handler E 15) (\<lambda>_.
      then_do (emit (Process (Spawn_accept (sv_socket V))))
     (then_do (emit (Process Join_accept))
     (then_do (cond (sv_profiles V \<noteq> []) (emit (Process Join_monitor)))
     (then_do (close (sv_socket V)) (ret 0)))))))"

text \<open>\<open>strcpy\<close> puts the name of the process over the first word, which has to be as long.\<close>

definition PROCESS_NAME :: string where "PROCESS_NAME = ''DPITunnel-cli''"

definition main :: "nat \<Rightarrow> nat \<Rightarrow> nat \<Rightarrow> startup_env \<Rightarrow> string list \<Rightarrow> int io" where
  "main k n fuel E argv = returning (case argv of
     [] \<Rightarrow> raise Undefined
   | name # words \<Rightarrow>
       if length name < length PROCESS_NAME then raise Undefined
       else bnd (startup k n fuel E words) (serve_clients E))"

section \<open>What the clients are served with\<close>

definition lists_read :: "(string \<Rightarrow> string option) \<Rightarrow> Settings_perst_s \<Rightarrow> Settings_perst_s \<Rightarrow> bool" where
  "lists_read fs S S' = (\<exists>S1. (if whitelist_path S = [] then S1 = S else load_whitelist fs S = (0, S1))
     \<and> (if custom_ips_path S = [] then S' = S1 else load_custom_ips fs S1 = (0, S')))"

lemma whitelist_line_keeps:
  "custom_ips_path (whitelist_line l S) = custom_ips_path S \<and> ca_bundle_path (whitelist_line l S) = ca_bundle_path S"
  by (simp add: whitelist_line_def split: option.splits)

lemma custom_ip_line_keeps: "ca_bundle_path (custom_ip_line l S) = ca_bundle_path S"
  by (simp add: custom_ip_line_def split: option.splits prod.splits)

lemma folds_keep:
  "custom_ips_path (fold whitelist_line ls S) = custom_ips_path S" "ca_bundle_path (fold whitelist_line ls S) = ca_bundle_path S"
  "ca_bundle_path (fold custom_ip_line ls S) = ca_bundle_path S"
  by (induction ls arbitrary: S) (simp_all add: whitelist_line_keeps custom_ip_line_keeps)

lemma lists_read_keeps: "lists_read fs S S' \<Longrightarrow> ca_bundle_path S' = ca_bundle_path S"
  by (auto simp: lists_read_def load_whitelist_def load_custom_ips_def folds_keep split: if_splits option.splits)

lemma wp_exit_main: "wp (exit_main r) Q (\<lambda>_ _. True) h"
  by (simp add: exit_main_def wp_basic)

lemma wp_read_cmdline: "wp (read_cmdline k n fuel E words) (\<lambda>st h. parse_cmdline (getopt_long_only words) = Next st) (\<lambda>_ _. True) h"
  by (auto simp: read_cmdline_def wp_basic wp_exit_main wp_any split: cmd_result.splits)

lemma wp_load_lists: "wp (load_lists E S) (\<lambda>S' h. lists_read (re_files (su_run E)) S S') (\<lambda>_ _. True) h"
  by (auto simp: load_lists_def lists_read_def load_whitelist_def load_custom_ips_def wp_basic wp_exit_main folds_keep Let_def split: option.splits)

lemma change_profile_of:
  assumes "change_profile ps iface wifi P = (0, P', k)" "ps \<noteq> []"
  shows "P' \<in> snd ` set ps"
proof (cases "find (\<lambda>(k, p). wildcard_match (c_str k) (connection_name iface wifi)) ps")
  case None
  then show ?thesis using assms by (auto simp: change_profile_def dest!: map_of_SomeD split: option.splits intro: rev_image_eqI)
next
  case (Some q)
  then have "q \<in> set ps" by (auto simp: find_Some_iff) (metis nth_mem)
  then show ?thesis using assms Some by (auto simp: change_profile_def split: prod.splits intro: rev_image_eqI)
qed

lemma wp_choose_profile:
  "wp (choose_profile fuel E ps P) (\<lambda>P' h. if ps = [] then P' = P else P' \<in> snd ` set ps) (\<lambda>_ _. True) h"
proof (cases "ps = []")
  case False
  have "wp (case change_profile ps iface wifi P of (r, P, _) \<Rightarrow> if r = -1 then exit_main (-1) else ret P) (\<lambda>P' h. P' \<in> snd ` set ps) (\<lambda>_ _. True) h" for iface wifi h
  proof -
    obtain r P' k where c: "change_profile ps iface wifi P = (r, P', k)" by (metis prod_cases3)
    have "r = -1 \<or> r = 0" using c by (auto simp: change_profile_def split: if_splits option.splits prod.splits)
    then show ?thesis using c change_profile_of [of ps iface wifi P] False by (auto simp: wp_basic wp_exit_main)
  qed
  then show ?thesis using False unfolding choose_profile_def by (simp add: wp_any)
qed (simp add: choose_profile_def wp_basic)

lemma wp_load_bundle: "wp (load_bundle E P S) (\<lambda>S' h. if doh P then re_files (su_run E) (ca_bundle_path S) = Some (ca_bundle S')
    \<and> S' = S\<lparr>ca_bundle := ca_bundle S'\<rparr> else S' = S) (\<lambda>_ _. True) h"
  by (auto simp: load_bundle_def load_ca_bundle_def wp_basic wp_exit_main split: option.splits)

lemma grows_startup [growth]: "grows (exit_main r)" "grows (go_to_background E S)"
  unfolding go_to_background_def daemonize_def exit_main_def close_def by (intro growth)+

lemma wp_grows: "grows m \<Longrightarrow> v \<in> set h \<Longrightarrow> wp m (\<lambda>_ h'. v \<in> set h') (\<lambda>_ _. True) h"
  unfolding grows_def wp_def by (auto split: prod.splits sum.splits) (metis Un_iff set_append snd_conv)

lemma wp_open_server: "wp (open_server E S) (\<lambda>fd h. Listen fd True \<in> set h) (\<lambda>_ _. True) h"
  by (simp add: open_server_def fail_with_def wp_simps os_calls wp_exit_main split: option.splits)

text \<open>C12: Clients are served only after every part of the start has succeeded: the command line was accepted, the
  lists and, when the profile resolves over DoH, the bundle were read, the profile in force is the one of the
  command line or one of the table, within its ranges, and the socket listens.\<close>

theorem startup_serves:
  assumes "startup k n fuel E words h = (Inr V, h')"
  shows "\<exists>st S. parse_cmdline (getopt_long_only words) = Next st \<and> lists_read (re_files (su_run E)) (settings st) S
    \<and> sv_profiles V = profiles st \<and> valid_profile (sv_profile V)
    \<and> (if profiles st = [] then sv_profile V = active st else sv_profile V \<in> snd ` set (profiles st))
    \<and> (if doh (sv_profile V) then re_files (su_run E) (ca_bundle_path (settings st)) = Some (ca_bundle (sv_settings V))
         \<and> sv_settings V = S\<lparr>ca_bundle := ca_bundle (sv_settings V)\<rparr>
       else sv_settings V = S)
    \<and> Listen (sv_socket V) True \<in> set h'"
    (is "?served V h'")
proof -
  have valid: "valid_profile P" if p: "parse_cmdline os = Next st"
    and c: "if profiles st = [] then P = active st else P \<in> snd ` set (profiles st)" for os st P
  proof -
    have v: "valid_cmd_state st" using option_loop_valid [OF initial_valid, of os] p by (simp add: parse_cmdline_def keeps_valid_def)
    show ?thesis
    proof (cases "profiles st = []")
      case False
      then obtain name where "(name, P) \<in> set (profiles st)" using c by auto
      moreover have "distinct (map fst (profiles st))" using v by (simp add: valid_cmd_state_def profiles_ok_def strict_sorted_iff)
      ultimately have "map_of (profiles st) name = Some P" by simp
      then show ?thesis using v by (auto simp: valid_cmd_state_def ran_def)
    qed (use v c in \<open>simp add: valid_cmd_state_def\<close>)
  qed
  have "wp (startup k n fuel E words) (\<lambda>V h'. ?served V h') (\<lambda>_ _. True) h"
    unfolding startup_def then_do_def
    apply (rule wp_any, subst wp_bnd, rule wp_mono [OF wp_read_cmdline])
     apply (subst wp_bnd, rule wp_mono [OF wp_load_lists])
      apply (rule wp_any, rule wp_any, subst wp_bnd, rule wp_mono [OF wp_choose_profile])
       apply (subst wp_bnd, rule wp_mono [OF wp_load_bundle])
        apply (subst wp_bnd, rule wp_mono [OF wp_open_server])
         apply (subst wp_bnd, rule wp_mono [OF wp_grows [OF grows_startup(2)]], assumption)
    subgoal for u0 h0 st h1 S h2 u1 h3 u2 h4 P h5 S' h6 fd h7 u3 h8
      unfolding wp_basic by (rule exI [of _ st], rule exI [of _ S]) (use valid [of "getopt_long_only words" st P] lists_read_keeps in \<open>auto split: if_splits\<close>)
    by simp_all
  then show ?thesis using assms by (simp add: wp_def)
qed

text \<open>A profile for the wireless network in use, over DoH.\<close>

definition wireless_netif :: netif where
  "wireless_netif = \<lparr>ni_os = willing_os, ni_bind = \<lambda>h fd. True, ni_ioctl_essid = \<lambda>h fd n. Some (bytes_of ''Home''),
     ni_indextoname = \<lambda>h i. None, ni_nametoindex = \<lambda>h n. 3, ni_local_addr = \<lambda>h fd. Some 1,
     ni_getifaddrs = \<lambda>h. Some [(Some ''wlan0'', Some 1)], ni_socket_alloc = \<lambda>h. False, ni_genl_connect = \<lambda>h. False,
     ni_ctrl_resolve = \<lambda>h. -1, ni_cb_alloc = \<lambda>h. False, ni_msg_alloc = \<lambda>h. False, ni_msg_size = 64,
     ni_recvmsgs = \<lambda>h. ([], True), ni_pipe = 5, ni_stop = \<lambda>h. False\<rparr>"

definition sample_env :: startup_env where
  "sample_env = \<lparr>su_netif = wireless_netif,
     su_auto = \<lparr>at_proxy = \<lambda>h. \<lparr>px_os = willing_os, px_net = \<lparr>getaddrinfo = \<lambda>h s. None, https_get = \<lambda>h s a p. None, x509_store = True\<rparr>,
         px_settings = default_Settings, px_profile = default_Profile, px_pipe = 5, px_stop = \<lambda>h. True,
         px_original_dst = \<lambda>h fd. None, px_sniff_ok = True, px_sniff_obs = [], px_stack = 0\<rparr>,
       at_tls = \<lparr>tl_handshake = \<lambda>h. False, tl_read = \<lambda>h n. [], tl_write = \<lambda>h d. 0, tl_verified = \<lambda>h. False, tl_cert = \<lambda>h. None\<rparr>\<rparr>,
     su_run = \<lparr>re_files = \<lambda>p. if p = ''./ca.bundle'' then Some ''PEM'' else None, re_pem = \<lambda>c. Some [], re_ssl_ctx = True,
       re_sniffers = \<lambda>n. (True, [])\<rparr>,
     su_lines = [], su_pipe = \<lambda>h. Some 4, su_stack = 0, su_bind = \<lambda>h fd a. True, su_listen = \<lambda>h fd. True, su_fork = \<lambda>h. 0,
     su_setsid = \<lambda>h. True, su_chdir = \<lambda>h. True, su_open = \<lambda>h. Some 0, su_dup = \<lambda>h fd. Some 1, su_sigaction = \<lambda>h s. True,
     su_write = \<lambda>h p. True\<rparr>"

definition sample_words :: "string list" where
  "sample_words = [''-profile'', ''wlan*:Home'', ''-doh'']"

lemma sample_startup:
  "case startup 2 2 3 sample_env sample_words [] of (Inr V, h') \<Rightarrow> doh (sv_profile V) \<and> ca_bundle (sv_settings V) = ''PEM''
     | (Inl e, h') \<Rightarrow> False"
  by code_simp

lemma startup_serves_witness:
  "\<exists>V h'. startup 2 2 3 sample_env sample_words [] = (Inr V, h')
    \<and> (\<exists>st S. parse_cmdline (getopt_long_only sample_words) = Next st \<and> lists_read (re_files (su_run sample_env)) (settings st) S
    \<and> sv_profiles V = profiles st \<and> valid_profile (sv_profile V)
    \<and> (if profiles st = [] then sv_profile V = active st else sv_profile V \<in> snd ` set (profiles st))
    \<and> (if doh (sv_profile V) then re_files (su_run sample_env) (ca_bundle_path (settings st)) = Some (ca_bundle (sv_settings V))
         \<and> sv_settings V = S\<lparr>ca_bundle := ca_bundle (sv_settings V)\<rparr>
       else sv_settings V = S)
    \<and> Listen (sv_socket V) True \<in> set h')"
proof -
  obtain V h' where run: "startup 2 2 3 sample_env sample_words [] = (Inr V, h')"
    using sample_startup by (auto split: prod.splits sum.splits)
  show ?thesis by (rule exI [of _ V], rule exI [of _ h'], rule conjI, rule run, rule startup_serves [OF run])
qed

end
