(* ===== verification/Spec2Isabelle.thy ===== *)
theory Spec2Isabelle
  imports Base64 CheckSum Settings Utils Os Socket Desync Hops Packet Profiles Cmdline Dnsans Owning Relay Accept Autoshow Startup
begin

text \<open>
  A model of DPITunnel-cli, a local HTTP proxy that gets around the inspection of traffic: it changes the first
  packets of a connection so that the inspecting box and the server assemble different data.

  \<^bold>\<open>The program.\<close> \<open>main\<close> of \<open>dpitunnel-cli.cpp\<close> reads the command line into the settings and the profiles, chooses the
  profile of the network in use, loads the lists and the certificates and listens. \<open>accept_client_cycle\<close> starts a thread
  for each client; \<open>process_client_cycle\<close> reads the request (\<open>packet.cpp\<close>), resolves the host (\<open>dns.cpp\<close> over
  \<open>dnslib\<close>), connects (\<open>socket.cpp\<close>), lets \<open>desync.cpp\<close> attack the first data and relays the rest. Beside it
  \<open>route_monitor_thread\<close> of \<open>netiface.cpp\<close> follows the default route and changes the profile, and with \<open>--auto\<close> the
  program only runs \<open>autoconf.cpp\<close>, which tries the attacks on a site and prints the options of one that works.

  \<^bold>\<open>How the code is written here.\<close> Machine integers are words (\<open>u8\<close>, \<open>u16\<close>, \<open>u32\<close>), except where an \<open>int\<close> cannot leave its
  range; a \<open>std::string\<close> of text is a list of characters, one of packet bytes a list of bytes, and the length it has
  in the source is the length of the list. A struct is a record with the names of the source, an enumeration a
  datatype, \<open>Profiles\<close> an association list sorted as \<open>std::map\<close> sorts it. Code that calls the system is an action on the
  history of the calls (theory Effects): \<open>ret\<close>, \<open>bnd\<close> and \<open>raise\<close>, where an exception value is an early return, undefined
  behaviour (a read or a write outside of a buffer), a C++ exception, \<open>std::terminate\<close> or a wait that never ends. What a
  call returns is a function of the history that every theorem quantifies over, bounded only by the documented results
  (no call transfers more bytes than it was asked to). Global variables that a function reads are arguments, those it
  writes are results.

  \<^bold>\<open>Theories.\<close>

  \<^item> Prelude, Effects, Strings, Os: words and fields of packets (the locale \<open>wire_field\<close> for a field that is read and
    written at an offset, interpreted by the 16 and 32 bit accessors), the actions with their triples \<open>hoare\<close> and
    the computed \<open>wp\<close>, numbers in strings, the calls of the system, \<open>inet_pton\<close> and \<open>inet_aton\<close>.
  \<^item> Settings, Utils, Profiles, Cmdline, Getopt: \<open>include/dpitunnel-cli.h\<close>, \<open>utils.cpp\<close>, \<open>profiles.cpp\<close> (the locale \<open>table\<close>,
    interpreted by \<open>add_profile\<close>), \<open>parse_cmdline\<close> as a step on its local variables and the settings, and how the words
    of the command line become its options. Proved: what wildcards, certificate names, white lists and
    \<open>get_tls_sni\<close> accept and read, that every accepted configuration is within its ranges, which profile is chosen.
  \<^item> CheckSum, Base64: \<open>RawSocket/CheckSum.cpp\<close> and \<open>include/base64.h\<close>, with their equivalence to RFC 1071 and RFC 4648.
  \<^item> Socket: the stream functions of \<open>socket.cpp\<close>; what the peer gets and what a receive changes.
  \<^item> Desync, Hops: \<open>desync.cpp\<close> and \<open>count_hops\<close> of \<open>socket.cpp\<close>. \<open>form_packet\<close> is proved to build well-formed packets in
    answer to one without IP options (with options, or without a packet, its headers leave the buffer or overlap), and
    \<open>do_desync_attack\<close> to refine the plan of the profile: a list of fakes and data segments from which a server behind the
    reach of the fakes assembles the data of the client; a count of hops comes with exactly the probes that were sent
    for it. The sniffer threads run on a list of observations.
  \<^item> Packet: \<open>packet.cpp\<close>, the parser of the request and the rewriting of a proxy request.
  \<^item> Dnsbuf, Dnsrr, Dnsmsg: \<open>dnslib\<close>, a state passing over the buffer with \<open>dns::Exception\<close> as a value; decoding never
    leaves the buffer. Dnswire, Dnsimage, Dnsround: the bytes of names, fields, records and messages (the locale
    \<open>wire_image\<close>, interpreted by fields and questions) and the round trip, compression of names included.
  \<^item> Dns, Dnsreq, Dnsans: \<open>dns.cpp\<close>: the order of the resolvers, the request, the loop that waits for the answer.
  \<^item> Proxy, Owning, Relay: \<open>process_client_cycle\<close>. Owning is a calculus of the descriptors an action holds, with which
    every path is shown to close what it opened (the locale \<open>handover\<close>, interpreted by the cycle of a client, by the resolver
    and, in Autosearch, by an attempt); Relay shows that both directions of a tunnel are carried faithfully.
  \<^item> Accept: \<open>accept_client_cycle\<close> and its client threads as an inductive step relation over the map of the threads, the
    mutex, the promise and the stop flag; an invariant of the reachable states, and that the end can be reached.
  \<^item> Netattr, Netiface: the netlink messages of \<open>libnl\<close> as far as they are used, and \<open>netiface.cpp\<close>.
  \<^item> Autoconf, Autosearch, Autoshow: \<open>autoconf.cpp\<close> and \<open>ssl.cpp\<close>; its attempts close their sockets, its TTL is the smallest
    that works, and the options it prints are read back as the profile it tested.
  \<^item> Startup: \<open>main\<close>, the handler of the signals, \<open>daemonize\<close>; with what the clients are served.

  \<^bold>\<open>Bounds.\<close> A loop over data is structural or has a measure. A loop that may run forever (waiting for a peer, a datagram,
  a route, a handshake) takes a number of rounds and ends in the exception \<open>Out_of_fuel\<close> when they are used up, which no C++ code
  catches; the theorems about such loops hold for every number, so they cover each finite run of the code, and where
  a result is promised the theorem says how many rounds are enough: the sender needs at
  most one for each byte and each interrupted call, the search for the smallest TTL one for each TTL and one more. The walk over a datagram of routes takes one round more than it has bytes, and
  each message takes sixteen.

  \<^bold>\<open>Theorems that show a defect.\<close> Some properties state what the code does where it is not what it means to do: an
  answer without data that crashes the resolver, a request that holds a link to itself, a joinable thread that is
  left behind, the race on the map of the threads, the buffer of the route monitor that is never rewound, the netlink
  socket that every lookup leaves open. Further theorems of this kind stand in Autosearch (a redirect without a slash),
  Packet (a port that is no number), Utils (fakes that reach the server), Desync (IP options, no captured packet),
  Dnsreq (a label that is too long, a name that is found inside of a label), Dnsans (the zero byte behind the system's
  addresses), Netiface (a truncated element) and Cmdline (a TTL that wraps, options that are lost).

  \<^bold>\<open>Not modelled.\<close> The vendored \<open>cpp-httplib\<close> (its HTTPS client is the parameter \<open>https_get\<close>) and \<open>libnl\<close> but for the
  messages and attributes in use: its sockets and callbacks are oracles, its caches, routing objects and generated
  parsers are never reached. OpenSSL and the system resolver are parameters. The printed texts, the
  conversions of DNS messages to text, and the waiting of the threads for real time are left out. The threads of a
  client and of an attempt are sequential here: the sniffer's observations are given, it starts and is joined
  where the code does it. The main thread, the clients and the route monitor are separate components: their shared profile
  is an argument of each, and a change of it during a connection is not modelled.
\<close>

end
